(* ===== verification/Prelude.thy ===== *)
theory Prelude
  imports Main "HOL-Library.Word"
begin

text \<open>
  Shared vocabulary of the development: the machine integers of the C sources, the kernel's
  error numbers, byte strings with the C library's \<open>strncpy\<close>, \<open>strncmp\<close> and \<open>strnlen\<close>,
  little-endian words, and the interface \<open>codec\<close> between a C structure and its bytes.
  Every structure of \<^verbatim>\<open>src/lolelffs.h\<close> is an interpretation of \<open>codec\<close>, so that a
  cast of a block's bytes to a structure, a change of a field and the cast back are
  \<open>enc (upd (dec bytes))\<close>.
\<close>

unbundle bit_operations_syntax

section \<open>Collections of facts\<close>

named_theorems codec_simps
named_theorems struct_defs

section \<open>Machine integers and error numbers\<close>

type_synonym u8 = "8 word"
type_synonym u16 = "16 word"
type_synonym u32 = "32 word"
type_synonym u64 = "64 word"
type_synonym bytes = "u8 list"

text \<open>
  The negative error numbers the sources return. \<open>OOPS\<close> is not an error number: it marks a
  path on which the C code dereferences an error pointer or indexes an array outside its
  bounds, so that nothing can be said about what it does afterwards.
\<close>

datatype errno =
    EPERM | EIO | E2BIG | ENOMEM | EFAULT | EEXIST | ENOTDIR | EINVAL | ENOTTY
  | EFBIG | ENOSPC | EMLINK | ERANGE | ENAMETOOLONG | ENOTEMPTY | ENODATA
  | EOPNOTSUPP | EBADMSG | ENOKEY | OOPS

section \<open>Pieces of a byte string\<close>

definition bytes_at :: "nat \<Rightarrow> nat \<Rightarrow> 'a list \<Rightarrow> 'a list" where
  "bytes_at off n bs = take n (drop off bs)"

lemma length_bytes_at [simp]: "length (bytes_at off n bs) = min n (length bs - off)"
  by (simp add: bytes_at_def)

lemma bytes_at_append [codec_simps]:
  "bytes_at off n (xs @ ys) =
     (if length xs \<le> off then bytes_at (off - length xs) n ys
      else if off + n \<le> length xs then bytes_at off n xs
      else drop off xs @ take (n - (length xs - off)) ys)"
  by (auto simp: bytes_at_def)

lemma bytes_at_all [codec_simps]: "length bs = n \<Longrightarrow> bytes_at 0 n bs = bs"
  by (simp add: bytes_at_def)

lemma bytes_at_join [codec_simps]:
  "off' = off + a \<Longrightarrow> bytes_at off a bs @ bytes_at off' b bs = bytes_at off (a + b) bs"
  by (simp add: bytes_at_def take_add add.commute)

lemma bytes_at_join_append [codec_simps]:
  "off' = off + a \<Longrightarrow> bytes_at off a bs @ bytes_at off' b bs @ ys = bytes_at off (a + b) bs @ ys"
  by (simp add: bytes_at_join flip: append_assoc)

section \<open>Little-endian words\<close>

fun le_bytes :: "nat \<Rightarrow> nat \<Rightarrow> bytes" where
  "le_bytes 0 x = []"
| "le_bytes (Suc n) x = of_nat (x mod 256) # le_bytes n (x div 256)"

fun le_nat :: "bytes \<Rightarrow> nat" where
  "le_nat [] = 0"
| "le_nat (b # bs) = unat b + 256 * le_nat bs"

lemma length_le_bytes [simp]: "length (le_bytes n x) = n"
  by (induction n arbitrary: x) auto

lemma unat_u8_less [simp]: "unat (b :: u8) < 256"
  using unsigned_less [of b] by simp

lemma le_nat_bound: "le_nat bs < 256 ^ length bs"
proof (induction bs)
  case Nil
  then show ?case by simp
next
  case (Cons b bs)
  have "unat b + 256 * le_nat bs < 256 * (le_nat bs + 1)"
    using unat_u8_less [of b] by simp
  also have "\<dots> \<le> 256 * 256 ^ length bs"
    using Cons.IH by simp
  finally show ?case by simp
qed

lemma le_nat_le_bytes: "le_nat (le_bytes n x) = x mod 256 ^ n"
proof (induction n arbitrary: x)
  case 0
  then show ?case by simp
next
  case (Suc n)
  have "unat (of_nat (x mod 256) :: u8) = x mod 256"
    by (simp add: unat_of_nat)
  then show ?case
    by (simp add: Suc.IH mod_mult2_eq add.commute)
qed

lemma le_bytes_le_nat: "length bs = n \<Longrightarrow> le_bytes n (le_nat bs) = bs"
proof (induction bs arbitrary: n)
  case Nil
  then show ?case by simp
next
  case (Cons b bs)
  then obtain m where "n = Suc m" "length bs = m" by auto
  then show ?case
    using Cons.IH [of m] unat_u8_less [of b] by (simp add: div_plus_div_distrib_dvd_right)
qed

definition enc_word :: "nat \<Rightarrow> 'a::len word \<Rightarrow> bytes" where
  "enc_word n w = le_bytes n (unat w)"

definition dec_word :: "bytes \<Rightarrow> 'a::len word" where
  "dec_word bs = of_nat (le_nat bs)"

abbreviation enc16 :: "u16 \<Rightarrow> bytes" where "enc16 \<equiv> enc_word 2"
abbreviation enc32 :: "u32 \<Rightarrow> bytes" where "enc32 \<equiv> enc_word 4"
abbreviation enc64 :: "u64 \<Rightarrow> bytes" where "enc64 \<equiv> enc_word 8"
abbreviation get16 :: "nat \<Rightarrow> bytes \<Rightarrow> u16" where "get16 off bs \<equiv> dec_word (bytes_at off 2 bs)"
abbreviation get32 :: "nat \<Rightarrow> bytes \<Rightarrow> u32" where "get32 off bs \<equiv> dec_word (bytes_at off 4 bs)"
abbreviation get64 :: "nat \<Rightarrow> bytes \<Rightarrow> u64" where "get64 off bs \<equiv> dec_word (bytes_at off 8 bs)"

lemma length_enc_word [simp]: "length (enc_word n w) = n"
  by (simp add: enc_word_def)

lemma dec_word_enc_word:
  "LENGTH('a) = 8 * n \<Longrightarrow> dec_word (enc_word n (w :: 'a::len word)) = w"
proof -
  assume "LENGTH('a) = 8 * n"
  then have "(256 :: nat) ^ n = 2 ^ LENGTH('a)" by (simp add: power_mult)
  then have "unat w < 256 ^ n" using unsigned_less [of w] by simp
  then show ?thesis
    by (simp add: dec_word_def enc_word_def le_nat_le_bytes)
qed

lemma enc_word_dec_word:
  assumes "LENGTH('a) = 8 * n" and "length bs = n"
  shows "enc_word n (dec_word bs :: 'a::len word) = bs"
proof -
  have "(256 :: nat) ^ n = 2 ^ LENGTH('a)" using assms(1) by (simp add: power_mult)
  then have "unat (of_nat (le_nat bs) :: 'a word) = le_nat bs"
    using le_nat_bound [of bs] assms(2) by (simp add: unat_of_nat)
  then show ?thesis
    by (simp add: dec_word_def enc_word_def le_bytes_le_nat assms(2))
qed

lemma dec_enc_words [simp, codec_simps]:
  "dec_word (enc16 v) = v" "dec_word (enc32 w) = w" "dec_word (enc64 x) = x"
  by (simp_all add: dec_word_enc_word)

lemma enc_dec_words [codec_simps]:
  "length bs = 2 \<Longrightarrow> enc16 (dec_word bs) = bs"
  "length cs = 4 \<Longrightarrow> enc32 (dec_word cs) = cs"
  "length ds = 8 \<Longrightarrow> enc64 (dec_word ds) = ds"
  by (simp_all add: enc_word_dec_word)

section \<open>C structures and their bytes\<close>

locale codec =
  fixes enc :: "'a \<Rightarrow> bytes"
    and dec :: "bytes \<Rightarrow> 'a"
    and ok :: "'a \<Rightarrow> bool"
    and sz :: nat
  assumes length_enc: "ok x \<Longrightarrow> length (enc x) = sz"
    and dec_enc: "ok x \<Longrightarrow> dec (enc x) = x"
    and enc_dec: "length bs = sz \<Longrightarrow> enc (dec bs) = bs"
    and ok_dec: "length bs = sz \<Longrightarrow> ok (dec bs)"
begin

lemma enc_inject: "ok x \<Longrightarrow> ok y \<Longrightarrow> enc x = enc y \<longleftrightarrow> x = y"
  using dec_enc by metis

lemma dec_inject: "length bs = sz \<Longrightarrow> length cs = sz \<Longrightarrow> dec bs = dec cs \<longleftrightarrow> bs = cs"
  using enc_dec by metis

end

text \<open>An array of \<open>n\<close> structures of \<open>w\<close> bytes each.\<close>

definition enc_array :: "('a \<Rightarrow> bytes) \<Rightarrow> 'a list \<Rightarrow> bytes" where
  "enc_array enc xs = concat (map enc xs)"

fun dec_array :: "nat \<Rightarrow> (bytes \<Rightarrow> 'a) \<Rightarrow> nat \<Rightarrow> bytes \<Rightarrow> 'a list" where
  "dec_array w dec 0 bs = []"
| "dec_array w dec (Suc n) bs = dec (take w bs) # dec_array w dec n (drop w bs)"

definition wf_array :: "('a \<Rightarrow> bool) \<Rightarrow> nat \<Rightarrow> 'a list \<Rightarrow> bool" where
  "wf_array ok n xs \<longleftrightarrow> length xs = n \<and> list_all ok xs"

lemma le_bytes_0: "le_bytes n 0 = replicate n 0"
  by (induction n) simp_all

lemma enc_word_0: "enc_word n 0 = replicate n 0"
  by (simp add: enc_word_def le_bytes_0)

lemma enc_array_zero: "enc x = replicate k 0 \<Longrightarrow> enc_array enc (replicate m x) = replicate (m * k) 0"
  by (induction m) (simp_all add: enc_array_def replicate_add)

lemma length_dec_array [simp]: "length (dec_array w dec n bs) = n"
  by (induction n arbitrary: bs) auto

lemma nth_dec_array:
  "i < n \<Longrightarrow> dec_array w dec n bs ! i = dec (bytes_at (i * w) w bs)"
proof (induction n arbitrary: bs i)
  case 0
  then show ?case by simp
next
  case (Suc n)
  then show ?case by (cases i) (auto simp: bytes_at_def add.commute)
qed

context codec
begin

lemma length_enc_array: "list_all ok xs \<Longrightarrow> length (enc_array enc xs) = length xs * sz"
  by (induction xs) (auto simp: enc_array_def length_enc)

lemma dec_enc_array: "list_all ok xs \<Longrightarrow> dec_array sz dec (length xs) (enc_array enc xs) = xs"
  by (induction xs) (auto simp: enc_array_def length_enc dec_enc)

lemma enc_dec_array: "length bs = n * sz \<Longrightarrow> enc_array enc (dec_array sz dec n bs) = bs"
proof (induction n arbitrary: bs)
  case 0
  then show ?case by (simp add: enc_array_def)
next
  case (Suc n)
  then have "enc_array enc (dec_array sz dec n (drop sz bs)) = drop sz bs" by simp
  with Suc.prems show ?case by (simp add: enc_array_def enc_dec)
qed

lemma ok_dec_array: "length bs = n * sz \<Longrightarrow> list_all ok (dec_array sz dec n bs)"
  by (induction n arbitrary: bs) (auto simp: ok_dec)

lemma codec_array: "codec (enc_array enc) (dec_array sz dec n) (wf_array ok n) (n * sz)"
  by unfold_locales
    (auto simp: wf_array_def length_enc_array enc_dec_array ok_dec_array intro: dec_enc_array)

end

section \<open>C strings in fixed-size fields\<close>

text \<open>
  A C string argument is the list of its bytes without the terminating NUL. \<open>strncpy\<close>
  fills exactly \<open>n\<close> bytes of the destination: the string, cut off after \<open>n\<close> bytes, and
  NULs after a shorter one. \<open>cstr\<close> is the string a field holds, and \<open>strncmp_eq\<close> is
  \<^verbatim>\<open>!strncmp(field, s, n)\<close> for a field of \<open>n\<close> bytes.
\<close>

definition strncpy :: "bytes \<Rightarrow> nat \<Rightarrow> bytes" where
  "strncpy s n = take n s @ replicate (n - length s) 0"

definition cstr :: "bytes \<Rightarrow> bytes" where
  "cstr field = takeWhile (\<lambda>b. b \<noteq> 0) field"

definition strncmp_eq :: "bytes \<Rightarrow> bytes \<Rightarrow> nat \<Rightarrow> bool" where
  "strncmp_eq field s n \<longleftrightarrow> take n (cstr field) = take n (cstr s)"

definition is_cstr :: "bytes \<Rightarrow> bool" where
  "is_cstr s \<longleftrightarrow> 0 \<notin> set s"

lemma length_strncpy [simp]: "length (strncpy s n) = n"
  by (simp add: strncpy_def)

lemma cstr_is_cstr [simp]: "is_cstr s \<Longrightarrow> cstr s = s"
  by (auto simp: cstr_def is_cstr_def takeWhile_eq_all_conv)

lemma cstr_strncpy: "is_cstr s \<Longrightarrow> length s \<le> n \<Longrightarrow> cstr (strncpy s n) = s"
proof -
  assume s: "is_cstr s" "length s \<le> n"
  then have "takeWhile (\<lambda>b. b \<noteq> 0) (s @ replicate (n - length s) 0)
      = s @ takeWhile (\<lambda>b. b \<noteq> 0) (replicate (n - length s) (0 :: u8))"
    by (intro takeWhile_append2) (auto simp: is_cstr_def)
  with s show ?thesis by (cases "n - length s") (simp_all add: cstr_def strncpy_def)
qed

lemma strncmp_eq_strncpy:
  "is_cstr s \<Longrightarrow> is_cstr t \<Longrightarrow> length s \<le> n \<Longrightarrow> length t \<le> n \<Longrightarrow>
   strncmp_eq (strncpy s n) t n \<longleftrightarrow> s = t"
  by (simp add: strncmp_eq_def cstr_strncpy)

section \<open>Words\<close>

lemma unat_u32_less [simp]: "unat (w :: u32) < 4294967296"
  using unsigned_less [of w, where ?'a = nat] by simp

lemma unat_add_u32: "unat (a :: u32) + unat b < 4294967296 \<Longrightarrow> unat (a + b) = unat a + unat b"
  by (simp add: unat_word_ariths)

lemma unat_sub_u32: "unat (b :: u32) \<le> unat a \<Longrightarrow> unat (a - b) = unat a - unat b"
  by (simp add: unat_sub_if')

lemma unat_of_nat_u32: "n < 4294967296 \<Longrightarrow> unat (of_nat n :: u32) = n"
  by (simp add: unat_of_nat)

section \<open>Lists\<close>

lemma list_all_update: "list_all P xs \<Longrightarrow> P v \<Longrightarrow> list_all P (xs[i := v])"
  by (auto simp: list_all_iff dest!: set_update_subset_insert [THEN subsetD])

lemma takeWhile_nth_length:
  "length (takeWhile P xs) = n \<Longrightarrow> n < length xs \<Longrightarrow> \<not> P (xs ! n)"
  using nth_length_takeWhile by blast

section \<open>Rounded division, uniform pieces, bits of bytes\<close>

lemma ceil_div: "0 < b \<Longrightarrow> (if (a::nat) mod b \<noteq> 0 then a div b + 1 else a div b) = (a + (b - 1)) div b"
proof -
  assume b: "0 < b"
  define q r where "q = a div b" and "r = a mod b"
  have a: "a = b * q + r" "r < b" using b by (simp_all add: q_def r_def)
  have "(b * q + r + (b - 1)) div b = (if r \<noteq> 0 then q + 1 else q)"
  proof (cases "r = 0")
    case True
    with b show ?thesis by (simp add: div_nat_eqI)
  next
    case False
    with a(2) have "b * q + r + (b - 1) = b * (q + 1) + (r - 1)" "r - 1 < b" by simp_all
    then have "(b * q + r + (b - 1)) div b = q + 1" by (metis div_nat_eqI le_add1 mult.commute mult_Suc_right add_less_cancel_left Suc_eq_plus1 add.commute)
    with False show ?thesis by simp
  qed
  then show ?thesis by (simp add: a(1) [symmetric] flip: q_def r_def)
qed

lemma div_add_64: "(n + 63) div 64 = (if n = 0 then 0 else (n - 64 + 63) div 64 + 1)" for n :: nat
proof (cases "n \<le> 64")
  case True
  then show ?thesis by (cases "n = 0") (auto intro: div_nat_eqI)
next
  case False
  then have "n + 63 = (n - 64 + 63) + 64" by simp
  with False show ?thesis by (metis div_add_self2 not_le gr_implies_not0 zero_neq_numeral Suc_eq_plus1)
qed

lemma nth_concat_uniform:
  assumes "\<forall>xs \<in> set xss. length xs = n" "i < n * length xss"
  shows "concat xss ! i = xss ! (i div n) ! (i mod n)"
  using assms
proof (induction xss arbitrary: i)
  case (Cons xs xss)
  show ?case
  proof (cases "i < n")
    case True
    with Cons.prems show ?thesis by (simp add: nth_append)
  next
    case False
    then obtain j where j: "i = j + n" by (metis add.commute le_Suc_ex not_less)
    have "0 < n" using Cons.prems(2) by (cases n) simp_all
    with j Cons show ?thesis by (simp add: nth_append div_add_self2)
  qed
qed simp

lemma length_concat_uniform: "\<forall>xs \<in> set xss. length xs = n \<Longrightarrow> length (concat xss) = n * length xss"
  by (induction xss) simp_all

lemma nth_le_bytes: "i < n \<Longrightarrow> le_bytes n x ! i = of_nat (x div 256 ^ i)"
proof (induction n arbitrary: i x)
  case (Suc n)
  have "(of_nat (x mod 256) :: u8) = of_nat x" by (rule word_unat_eq_iff [THEN iffD2]) (simp add: unat_of_nat)
  with Suc show ?case by (cases i) (simp_all add: div_mult2_eq)
qed simp

lemma bit_of_nat_u8: "j < 8 \<Longrightarrow> bit (of_nat x :: u8) j \<longleftrightarrow> odd (x div 2 ^ j)"
proof -
  assume j: "j < 8"
  have "bit (of_nat x :: u8) j \<longleftrightarrow> bit (unat (of_nat x :: u8)) j" by (simp add: bit_unsigned_iff)
  also have "unat (of_nat x :: u8) = take_bit 8 x" by (simp add: unat_of_nat take_bit_eq_mod)
  finally show ?thesis using j by (simp add: bit_take_bit_iff) (simp add: bit_iff_odd)
qed

end
