(* ===== verification/Ondisk.thy ===== *)
theory Ondisk
  imports Prelude
begin

text \<open>
  The on-disk structures of \<^verbatim>\<open>src/lolelffs.h\<close>: extents, extent index blocks, directory
  blocks, inodes, the inode store and the superblock, each a record with the source's
  fields in the source's order. A block of 4096 bytes holds a structure and, behind it,
  bytes no code of the repository interprets; the records keep them in a \<open>_tail\<close> field, so
  that decoding loses nothing and \<open>codec\<close> holds in both directions. Multi-byte fields are
  little-endian, which is what the host's native order is on the machines the sources
  support (the kernel module reads most fields without conversion).
\<close>

section \<open>Constants\<close>

definition LOLELFFS_MAGIC :: u32 where "LOLELFFS_MAGIC = 0x101E1FF5"
definition LOLELFFS_VERSION :: u32 where "LOLELFFS_VERSION = 1"
definition LOLELFFS_BLOCK_SIZE :: nat where "LOLELFFS_BLOCK_SIZE = 4096"
definition LOLELFFS_MAX_BLOCKS_PER_EXTENT :: u32 where
  "LOLELFFS_MAX_BLOCKS_PER_EXTENT = 2048"
definition LOLELFFS_MAX_BLOCKS_PER_EXTENT_LARGE :: u32 where
  "LOLELFFS_MAX_BLOCKS_PER_EXTENT_LARGE = 524288"
definition LOLELFFS_FILENAME_LEN :: nat where "LOLELFFS_FILENAME_LEN = 255"

definition LOLELFFS_COMP_NONE :: nat where "LOLELFFS_COMP_NONE = 0"
definition LOLELFFS_COMP_LZ4 :: nat where "LOLELFFS_COMP_LZ4 = 1"
definition LOLELFFS_COMP_ZLIB :: nat where "LOLELFFS_COMP_ZLIB = 2"
definition LOLELFFS_COMP_ZSTD :: nat where "LOLELFFS_COMP_ZSTD = 3"

definition LOLELFFS_ENC_NONE :: nat where "LOLELFFS_ENC_NONE = 0"
definition LOLELFFS_ENC_AES256_XTS :: nat where "LOLELFFS_ENC_AES256_XTS = 1"
definition LOLELFFS_ENC_CHACHA20_POLY :: nat where "LOLELFFS_ENC_CHACHA20_POLY = 2"

definition LOLELFFS_KDF_NONE :: nat where "LOLELFFS_KDF_NONE = 0"
definition LOLELFFS_KDF_ARGON2ID :: nat where "LOLELFFS_KDF_ARGON2ID = 1"
definition LOLELFFS_KDF_PBKDF2 :: nat where "LOLELFFS_KDF_PBKDF2 = 2"

definition LOLELFFS_FEATURE_LARGE_EXTENTS :: u32 where
  "LOLELFFS_FEATURE_LARGE_EXTENTS = 0x0001"

definition LOLELFFS_EXT_COMPRESSED :: u16 where "LOLELFFS_EXT_COMPRESSED = 0x0001"
definition LOLELFFS_EXT_ENCRYPTED :: u16 where "LOLELFFS_EXT_ENCRYPTED = 0x0002"
definition LOLELFFS_EXT_HAS_META :: u16 where "LOLELFFS_EXT_HAS_META = 0x0004"
definition LOLELFFS_EXT_MIXED :: u16 where "LOLELFFS_EXT_MIXED = 0x0008"

text \<open>The sizes the compiler gives the structures; the codecs below establish them.\<close>

definition sizeof_extent :: nat where "sizeof_extent = 24"
definition sizeof_file :: nat where "sizeof_file = 260"
definition sizeof_inode :: nat where "sizeof_inode = 72"
definition sizeof_sb_info :: nat where "sizeof_sb_info = 164"

definition LOLELFFS_MAX_EXTENTS :: nat where
  "LOLELFFS_MAX_EXTENTS = (LOLELFFS_BLOCK_SIZE - 4) div sizeof_extent"
definition LOLELFFS_MAX_FILESIZE :: nat where
  "LOLELFFS_MAX_FILESIZE =
     unat LOLELFFS_MAX_BLOCKS_PER_EXTENT_LARGE * LOLELFFS_BLOCK_SIZE * LOLELFFS_MAX_EXTENTS"
definition LOLELFFS_FILES_PER_BLOCK :: nat where
  "LOLELFFS_FILES_PER_BLOCK = LOLELFFS_BLOCK_SIZE div sizeof_file"
definition LOLELFFS_FILES_PER_EXT :: nat where
  "LOLELFFS_FILES_PER_EXT = LOLELFFS_FILES_PER_BLOCK * unat LOLELFFS_MAX_BLOCKS_PER_EXTENT"
definition LOLELFFS_MAX_SUBFILES :: nat where
  "LOLELFFS_MAX_SUBFILES = LOLELFFS_FILES_PER_EXT * LOLELFFS_MAX_EXTENTS"
definition LOLELFFS_INODES_PER_BLOCK :: nat where
  "LOLELFFS_INODES_PER_BLOCK = LOLELFFS_BLOCK_SIZE div sizeof_inode"

lemmas size_defs = LOLELFFS_BLOCK_SIZE_def LOLELFFS_FILENAME_LEN_def sizeof_extent_def
  sizeof_file_def sizeof_inode_def sizeof_sb_info_def

lemma max_extents: "LOLELFFS_MAX_EXTENTS = 170"
  by (simp add: LOLELFFS_MAX_EXTENTS_def size_defs)

lemma files_per_block: "LOLELFFS_FILES_PER_BLOCK = 15"
  by (simp add: LOLELFFS_FILES_PER_BLOCK_def size_defs)

lemma files_per_ext: "LOLELFFS_FILES_PER_EXT = 30720"
  by (simp add: LOLELFFS_FILES_PER_EXT_def files_per_block LOLELFFS_MAX_BLOCKS_PER_EXTENT_def)

lemma max_subfiles: "LOLELFFS_MAX_SUBFILES = 5222400"
  by (simp add: LOLELFFS_MAX_SUBFILES_def files_per_ext max_extents)

lemma inodes_per_block: "LOLELFFS_INODES_PER_BLOCK = 56"
  by (simp add: LOLELFFS_INODES_PER_BLOCK_def size_defs)

lemmas const_values = max_extents files_per_block files_per_ext max_subfiles inodes_per_block
  size_defs

section \<open>Extents and extent index blocks\<close>

record lolelffs_extent =
  ee_block :: u32
  ee_len :: u32
  ee_start :: u32
  ee_comp_algo :: u16
  ee_enc_algo :: u8
  ee_reserved :: u8
  ee_flags :: u16
  ee_reserved2 :: u16
  ee_meta :: u32

definition zero_extent :: lolelffs_extent where
  "zero_extent = \<lparr>ee_block = 0, ee_len = 0, ee_start = 0, ee_comp_algo = 0, ee_enc_algo = 0,
     ee_reserved = 0, ee_flags = 0, ee_reserved2 = 0, ee_meta = 0\<rparr>"

abbreviation enc8 :: "u8 \<Rightarrow> bytes" where "enc8 \<equiv> enc_word 1"
abbreviation get8 :: "nat \<Rightarrow> bytes \<Rightarrow> u8" where "get8 off bs \<equiv> dec_word (bytes_at off 1 bs)"

lemma dec_enc8 [simp, codec_simps]: "dec_word (enc_word (Suc 0) (b :: u8)) = b"
  by (simp add: dec_word_enc_word)

lemma enc_dec8 [codec_simps]: "length bs = 1 \<Longrightarrow> enc_word (Suc 0) (dec_word bs :: u8) = bs"
  by (simp add: enc_word_dec_word)

definition enc_extent :: "lolelffs_extent \<Rightarrow> bytes" where
  "enc_extent e = enc32 (ee_block e) @ enc32 (ee_len e) @ enc32 (ee_start e) @
     enc16 (ee_comp_algo e) @ enc8 (ee_enc_algo e) @ enc8 (ee_reserved e) @
     enc16 (ee_flags e) @ enc16 (ee_reserved2 e) @ enc32 (ee_meta e)"

definition dec_extent :: "bytes \<Rightarrow> lolelffs_extent" where
  "dec_extent bs = \<lparr>ee_block = get32 0 bs, ee_len = get32 4 bs, ee_start = get32 8 bs,
     ee_comp_algo = get16 12 bs, ee_enc_algo = get8 14 bs, ee_reserved = get8 15 bs,
     ee_flags = get16 16 bs, ee_reserved2 = get16 18 bs, ee_meta = get32 20 bs\<rparr>"

interpretation xt: codec enc_extent dec_extent "\<lambda>_. True" sizeof_extent
proof
  fix e :: lolelffs_extent
  show "length (enc_extent e) = sizeof_extent"
    by (simp add: enc_extent_def sizeof_extent_def)
  show "dec_extent (enc_extent e) = e"
    by (cases e) (simp add: enc_extent_def dec_extent_def codec_simps)
next
  fix bs :: bytes
  assume "length bs = sizeof_extent"
  then show "enc_extent (dec_extent bs) = bs"
    by (simp add: enc_extent_def dec_extent_def sizeof_extent_def codec_simps)
qed simp

record lolelffs_file_ei_block =
  nr_files :: u32
  extents :: "lolelffs_extent list"
  ei_tail :: bytes

definition enc_ei :: "lolelffs_file_ei_block \<Rightarrow> bytes" where
  "enc_ei x = enc32 (nr_files x) @ enc_array enc_extent (extents x) @ ei_tail x"

definition dec_ei :: "bytes \<Rightarrow> lolelffs_file_ei_block" where
  "dec_ei bs = \<lparr>nr_files = get32 0 bs,
     extents = dec_array sizeof_extent dec_extent LOLELFFS_MAX_EXTENTS (bytes_at 4 4080 bs),
     ei_tail = bytes_at 4084 12 bs\<rparr>"

definition wf_ei :: "lolelffs_file_ei_block \<Rightarrow> bool" where
  "wf_ei x \<longleftrightarrow> length (extents x) = LOLELFFS_MAX_EXTENTS \<and> length (ei_tail x) = 12"

lemma length_enc_extents:
  "length (enc_array enc_extent xs) = length xs * sizeof_extent"
  by (simp add: xt.length_enc_array list_all_iff)

lemma dec_enc_extents:
  "length xs = n \<Longrightarrow> dec_array sizeof_extent dec_extent n (enc_array enc_extent xs) = xs"
  using xt.dec_enc_array [of xs] by (auto simp: list_all_iff)

interpretation eic: codec enc_ei dec_ei wf_ei LOLELFFS_BLOCK_SIZE
proof
  fix x :: lolelffs_file_ei_block
  assume wf: "wf_ei x"
  show "length (enc_ei x) = LOLELFFS_BLOCK_SIZE"
    using wf by (simp add: enc_ei_def wf_ei_def length_enc_extents const_values)
  show "dec_ei (enc_ei x) = x"
    using wf
    by (cases x)
      (simp add: enc_ei_def dec_ei_def wf_ei_def length_enc_extents const_values codec_simps
        dec_enc_extents [unfolded sizeof_extent_def])
next
  fix bs :: bytes
  assume len: "length bs = LOLELFFS_BLOCK_SIZE"
  have arr: "enc_array enc_extent (dec_array sizeof_extent dec_extent LOLELFFS_MAX_EXTENTS
      (bytes_at 4 4080 bs)) = bytes_at 4 4080 bs"
    by (rule xt.enc_dec_array) (use len in \<open>simp add: const_values\<close>)
  show "enc_ei (dec_ei bs) = bs"
    using len unfolding enc_ei_def dec_ei_def lolelffs_file_ei_block.simps arr
    by (simp add: const_values codec_simps)
  show "wf_ei (dec_ei bs)"
    using len by (simp add: wf_ei_def dec_ei_def const_values)
qed

section \<open>Directory blocks\<close>

record lolelffs_file =
  inode :: u32
  filename :: bytes
  f_pad :: u8

definition zero_file :: lolelffs_file where
  "zero_file = \<lparr>inode = 0, filename = replicate LOLELFFS_FILENAME_LEN 0, f_pad = 0\<rparr>"

definition wf_file :: "lolelffs_file \<Rightarrow> bool" where
  "wf_file f \<longleftrightarrow> length (filename f) = LOLELFFS_FILENAME_LEN"

definition enc_file :: "lolelffs_file \<Rightarrow> bytes" where
  "enc_file f = enc32 (inode f) @ filename f @ enc8 (f_pad f)"

definition dec_file :: "bytes \<Rightarrow> lolelffs_file" where
  "dec_file bs = \<lparr>inode = get32 0 bs, filename = bytes_at 4 255 bs, f_pad = get8 259 bs\<rparr>"

interpretation fec: codec enc_file dec_file wf_file sizeof_file
proof
  fix f :: lolelffs_file
  assume wf: "wf_file f"
  show "length (enc_file f) = sizeof_file"
    using wf by (simp add: enc_file_def wf_file_def size_defs)
  show "dec_file (enc_file f) = f"
    using wf by (cases f) (simp add: enc_file_def dec_file_def wf_file_def size_defs codec_simps)
next
  fix bs :: bytes
  assume "length bs = sizeof_file"
  then show "enc_file (dec_file bs) = bs" "wf_file (dec_file bs)"
    by (simp_all add: enc_file_def dec_file_def wf_file_def size_defs codec_simps)
qed

record lolelffs_dir_block =
  files :: "lolelffs_file list"
  dir_tail :: bytes

definition wf_dir :: "lolelffs_dir_block \<Rightarrow> bool" where
  "wf_dir d \<longleftrightarrow> length (files d) = LOLELFFS_FILES_PER_BLOCK \<and> list_all wf_file (files d)
     \<and> length (dir_tail d) = 196"

definition enc_dir :: "lolelffs_dir_block \<Rightarrow> bytes" where
  "enc_dir d = enc_array enc_file (files d) @ dir_tail d"

definition dec_dir :: "bytes \<Rightarrow> lolelffs_dir_block" where
  "dec_dir bs = \<lparr>files = dec_array sizeof_file dec_file LOLELFFS_FILES_PER_BLOCK (bytes_at 0 3900 bs),
     dir_tail = bytes_at 3900 196 bs\<rparr>"

interpretation dic: codec enc_dir dec_dir wf_dir LOLELFFS_BLOCK_SIZE
proof
  fix d :: lolelffs_dir_block
  assume wf: "wf_dir d"
  then have arr: "length (enc_array enc_file (files d)) = 3900"
    by (simp add: fec.length_enc_array wf_dir_def const_values)
  show "length (enc_dir d) = LOLELFFS_BLOCK_SIZE"
    using wf arr by (simp add: enc_dir_def wf_dir_def const_values)
  have "dec_array sizeof_file dec_file LOLELFFS_FILES_PER_BLOCK (enc_array enc_file (files d)) = files d"
    using fec.dec_enc_array [of "files d"] wf by (simp add: wf_dir_def)
  then show "dec_dir (enc_dir d) = d"
    using wf arr by (cases d) (simp add: enc_dir_def dec_dir_def wf_dir_def codec_simps)
next
  fix bs :: bytes
  assume len: "length bs = LOLELFFS_BLOCK_SIZE"
  have arr: "length (bytes_at 0 3900 bs) = LOLELFFS_FILES_PER_BLOCK * sizeof_file"
    using len by (simp add: const_values)
  show "enc_dir (dec_dir bs) = bs"
    using len fec.enc_dec_array [OF arr] by (simp add: enc_dir_def dec_dir_def codec_simps size_defs)
  show "wf_dir (dec_dir bs)"
    using len fec.ok_dec_array [OF arr] by (simp add: wf_dir_def dec_dir_def size_defs)
qed

section \<open>Inodes and the inode store\<close>

record lolelffs_inode =
  i_mode :: u32
  i_uid :: u32
  i_gid :: u32
  i_size :: u32
  i_ctime :: u32
  i_atime :: u32
  i_mtime :: u32
  i_blocks :: u32
  i_nlink :: u32
  ei_block :: u32
  xattr_block :: u32
  i_data :: bytes

definition wf_inode :: "lolelffs_inode \<Rightarrow> bool" where
  "wf_inode i \<longleftrightarrow> length (i_data i) = 28"

definition enc_inode :: "lolelffs_inode \<Rightarrow> bytes" where
  "enc_inode i = enc32 (i_mode i) @ enc32 (i_uid i) @ enc32 (i_gid i) @ enc32 (i_size i) @
     enc32 (i_ctime i) @ enc32 (i_atime i) @ enc32 (i_mtime i) @ enc32 (i_blocks i) @
     enc32 (i_nlink i) @ enc32 (ei_block i) @ enc32 (xattr_block i) @ i_data i"

definition dec_inode :: "bytes \<Rightarrow> lolelffs_inode" where
  "dec_inode bs = \<lparr>i_mode = get32 0 bs, i_uid = get32 4 bs, i_gid = get32 8 bs,
     i_size = get32 12 bs, i_ctime = get32 16 bs, i_atime = get32 20 bs, i_mtime = get32 24 bs,
     i_blocks = get32 28 bs, i_nlink = get32 32 bs, ei_block = get32 36 bs,
     xattr_block = get32 40 bs, i_data = bytes_at 44 28 bs\<rparr>"

interpretation inc: codec enc_inode dec_inode wf_inode sizeof_inode
proof
  fix i :: lolelffs_inode
  assume wf: "wf_inode i"
  show "length (enc_inode i) = sizeof_inode"
    using wf by (simp add: enc_inode_def wf_inode_def size_defs)
  show "dec_inode (enc_inode i) = i"
    using wf by (cases i) (simp add: enc_inode_def dec_inode_def wf_inode_def codec_simps)
next
  fix bs :: bytes
  assume "length bs = sizeof_inode"
  then show "enc_inode (dec_inode bs) = bs" "wf_inode (dec_inode bs)"
    by (simp_all add: enc_inode_def dec_inode_def wf_inode_def size_defs codec_simps)
qed

record istore_block =
  inodes :: "lolelffs_inode list"
  is_tail :: bytes

definition wf_istore :: "istore_block \<Rightarrow> bool" where
  "wf_istore b \<longleftrightarrow> length (inodes b) = LOLELFFS_INODES_PER_BLOCK \<and> list_all wf_inode (inodes b)
     \<and> length (is_tail b) = 64"

definition enc_istore :: "istore_block \<Rightarrow> bytes" where
  "enc_istore b = enc_array enc_inode (inodes b) @ is_tail b"

definition dec_istore :: "bytes \<Rightarrow> istore_block" where
  "dec_istore bs = \<lparr>inodes = dec_array sizeof_inode dec_inode LOLELFFS_INODES_PER_BLOCK (bytes_at 0 4032 bs),
     is_tail = bytes_at 4032 64 bs\<rparr>"

interpretation isc: codec enc_istore dec_istore wf_istore LOLELFFS_BLOCK_SIZE
proof
  fix b :: istore_block
  assume wf: "wf_istore b"
  then have arr: "length (enc_array enc_inode (inodes b)) = 4032"
    by (simp add: inc.length_enc_array wf_istore_def const_values)
  show "length (enc_istore b) = LOLELFFS_BLOCK_SIZE"
    using wf arr by (simp add: enc_istore_def wf_istore_def const_values)
  have "dec_array sizeof_inode dec_inode LOLELFFS_INODES_PER_BLOCK (enc_array enc_inode (inodes b)) = inodes b"
    using inc.dec_enc_array [of "inodes b"] wf by (simp add: wf_istore_def)
  then show "dec_istore (enc_istore b) = b"
    using wf arr by (cases b) (simp add: enc_istore_def dec_istore_def wf_istore_def codec_simps)
next
  fix bs :: bytes
  assume len: "length bs = LOLELFFS_BLOCK_SIZE"
  have arr: "length (bytes_at 0 4032 bs) = LOLELFFS_INODES_PER_BLOCK * sizeof_inode"
    using len by (simp add: const_values)
  show "enc_istore (dec_istore bs) = bs"
    using len inc.enc_dec_array [OF arr] by (simp add: enc_istore_def dec_istore_def codec_simps size_defs)
  show "wf_istore (dec_istore bs)"
    using len inc.ok_dec_array [OF arr] by (simp add: wf_istore_def dec_istore_def size_defs)
qed

section \<open>The superblock\<close>

record lolelffs_sb_info =
  magic :: u32
  nr_blocks :: u32
  nr_inodes :: u32
  nr_istore_blocks :: u32
  nr_ifree_blocks :: u32
  nr_bfree_blocks :: u32
  nr_free_inodes :: u32
  nr_free_blocks :: u32
  version :: u32
  comp_default_algo :: u32
  comp_enabled :: u32
  comp_min_block_size :: u32
  comp_features :: u32
  max_extent_blocks :: u32
  max_extent_blocks_large :: u32
  enc_enabled :: u32
  enc_default_algo :: u32
  enc_kdf_algo :: u32
  enc_kdf_iterations :: u32
  enc_kdf_memory :: u32
  enc_kdf_parallelism :: u32
  enc_salt :: bytes
  enc_master_key :: bytes
  enc_features :: u32
  reserved :: bytes

definition wf_sb :: "lolelffs_sb_info \<Rightarrow> bool" where
  "wf_sb s \<longleftrightarrow> length (enc_salt s) = 32 \<and> length (enc_master_key s) = 32 \<and> length (reserved s) = 12"

definition enc_sb :: "lolelffs_sb_info \<Rightarrow> bytes" where
  "enc_sb s =
     enc32 (magic s) @ enc32 (nr_blocks s) @ enc32 (nr_inodes s) @ enc32 (nr_istore_blocks s) @
     enc32 (nr_ifree_blocks s) @ enc32 (nr_bfree_blocks s) @ enc32 (nr_free_inodes s) @
     enc32 (nr_free_blocks s) @ enc32 (version s) @ enc32 (comp_default_algo s) @
     enc32 (comp_enabled s) @ enc32 (comp_min_block_size s) @ enc32 (comp_features s) @
     enc32 (max_extent_blocks s) @ enc32 (max_extent_blocks_large s) @ enc32 (enc_enabled s) @
     enc32 (enc_default_algo s) @ enc32 (enc_kdf_algo s) @ enc32 (enc_kdf_iterations s) @
     enc32 (enc_kdf_memory s) @ enc32 (enc_kdf_parallelism s) @ enc_salt s @ enc_master_key s @
     enc32 (enc_features s) @ reserved s"

definition dec_sb :: "bytes \<Rightarrow> lolelffs_sb_info" where
  "dec_sb bs = \<lparr>
     magic = get32 0 bs, nr_blocks = get32 4 bs, nr_inodes = get32 8 bs,
     nr_istore_blocks = get32 12 bs, nr_ifree_blocks = get32 16 bs, nr_bfree_blocks = get32 20 bs,
     nr_free_inodes = get32 24 bs, nr_free_blocks = get32 28 bs, version = get32 32 bs,
     comp_default_algo = get32 36 bs, comp_enabled = get32 40 bs,
     comp_min_block_size = get32 44 bs, comp_features = get32 48 bs,
     max_extent_blocks = get32 52 bs, max_extent_blocks_large = get32 56 bs,
     enc_enabled = get32 60 bs, enc_default_algo = get32 64 bs, enc_kdf_algo = get32 68 bs,
     enc_kdf_iterations = get32 72 bs, enc_kdf_memory = get32 76 bs,
     enc_kdf_parallelism = get32 80 bs, enc_salt = bytes_at 84 32 bs,
     enc_master_key = bytes_at 116 32 bs, enc_features = get32 148 bs,
     reserved = bytes_at 152 12 bs\<rparr>"

lemma dec_enc_sb: "wf_sb s \<Longrightarrow> dec_sb (enc_sb s) = s"
  by (cases s) (simp add: enc_sb_def dec_sb_def wf_sb_def codec_simps)

lemma enc_dec_sb: "length bs = sizeof_sb_info \<Longrightarrow> enc_sb (dec_sb bs) = bs"
  by (simp add: enc_sb_def dec_sb_def size_defs codec_simps)

interpretation sbc: codec enc_sb dec_sb wf_sb sizeof_sb_info
proof
  fix s :: lolelffs_sb_info
  assume wf: "wf_sb s"
  show "length (enc_sb s) = sizeof_sb_info"
    using wf by (simp add: enc_sb_def wf_sb_def size_defs)
  show "dec_sb (enc_sb s) = s"
    using wf by (rule dec_enc_sb)
next
  fix bs :: bytes
  assume len: "length bs = sizeof_sb_info"
  show "enc_sb (dec_sb bs) = bs"
    using len by (rule enc_dec_sb)
  show "wf_sb (dec_sb bs)"
    using len by (simp add: wf_sb_def dec_sb_def size_defs)
qed

record superblock =
  info :: lolelffs_sb_info
  padding :: bytes

definition wf_super :: "superblock \<Rightarrow> bool" where
  "wf_super s \<longleftrightarrow> wf_sb (info s) \<and> length (padding s) = LOLELFFS_BLOCK_SIZE - sizeof_sb_info"

definition enc_super :: "superblock \<Rightarrow> bytes" where
  "enc_super s = enc_sb (info s) @ padding s"

definition dec_super :: "bytes \<Rightarrow> superblock" where
  "dec_super bs = \<lparr>info = dec_sb (bytes_at 0 sizeof_sb_info bs),
     padding = bytes_at sizeof_sb_info (LOLELFFS_BLOCK_SIZE - sizeof_sb_info) bs\<rparr>"

interpretation suc: codec enc_super dec_super wf_super LOLELFFS_BLOCK_SIZE
proof
  fix s :: superblock
  assume wf: "wf_super s"
  then have len: "length (enc_sb (info s)) = sizeof_sb_info"
    by (simp add: wf_super_def sbc.length_enc)
  show "length (enc_super s) = LOLELFFS_BLOCK_SIZE"
    using wf len by (simp add: enc_super_def wf_super_def size_defs)
  show "dec_super (enc_super s) = s"
    using wf len
    by (cases s) (simp add: enc_super_def dec_super_def wf_super_def codec_simps sbc.dec_enc
        sizeof_sb_info_def)
next
  fix bs :: bytes
  assume len: "length bs = LOLELFFS_BLOCK_SIZE"
  then have "length (bytes_at 0 sizeof_sb_info bs) = sizeof_sb_info"
    by (simp add: size_defs)
  then show "enc_super (dec_super bs) = bs" "wf_super (dec_super bs)"
    using len
    by (simp_all add: enc_super_def dec_super_def wf_super_def codec_simps size_defs
        sbc.enc_dec [unfolded size_defs] sbc.ok_dec [unfolded size_defs])
qed

section \<open>The in-memory superblock\<close>

text \<open>
  The kernel's \<^verbatim>\<open>struct lolelffs_sb_info\<close> has further fields behind the on-disk ones:
  the two bitmaps (bit \<open>i\<close> set means inode or block \<open>i\<close> is free), the offset of the file
  system on the device in blocks, and the state of the encryption layer. The mutexes are not
  modelled: each operation of the allocator is one step, as the lock makes it.
\<close>

record sb_info = lolelffs_sb_info +
  ifree_bitmap :: "bool list"
  bfree_bitmap :: "bool list"
  fs_offset :: nat
  enc_master_key_decrypted :: bytes
  enc_unlocked :: bool

end
