(* ===== verification/Bitmap.thy ===== *)
theory Bitmap
  imports Ondisk
begin

text \<open>
  The allocator of \<^verbatim>\<open>src/bitmap.h\<close>: searching the bitmaps for runs of free bits, taking
  and returning inodes and blocks with the counters of the superblock, and the size of a new
  extent. The kernel's \<open>find_next_bit\<close>, \<open>bitmap_set\<close> and \<open>bitmap_clear\<close> are modelled on
  lists of booleans; a bitmap is the list of all bits of the memory allocated for it.
\<close>

section \<open>Bit operations of the kernel\<close>

definition bit_set :: "bool list \<Rightarrow> nat \<Rightarrow> bool" where
  "bit_set bm i \<longleftrightarrow> i < length bm \<and> bm ! i"

function find_next_bit :: "bool list \<Rightarrow> nat \<Rightarrow> nat \<Rightarrow> nat" where
  "find_next_bit bm sz off =
     (if off < sz then (if bit_set bm off then off else find_next_bit bm sz (Suc off))
      else sz)"
  by pat_completeness auto
termination
  by (relation "measure (\<lambda>(bm, sz, off). sz - off)") auto

declare find_next_bit.simps [simp del]

definition find_first_bit :: "bool list \<Rightarrow> nat \<Rightarrow> nat" where
  "find_first_bit bm sz = find_next_bit bm sz 0"

definition bitmap_fill :: "bool \<Rightarrow> bool list \<Rightarrow> nat \<Rightarrow> nat \<Rightarrow> bool list" where
  "bitmap_fill v bm start n =
     take start bm @ replicate (min n (length bm - start)) v @ drop (start + n) bm"

abbreviation bitmap_set :: "bool list \<Rightarrow> nat \<Rightarrow> nat \<Rightarrow> bool list" where
  "bitmap_set \<equiv> bitmap_fill True"

abbreviation bitmap_clear :: "bool list \<Rightarrow> nat \<Rightarrow> nat \<Rightarrow> bool list" where
  "bitmap_clear \<equiv> bitmap_fill False"

definition clear_bit :: "nat \<Rightarrow> bool list \<Rightarrow> bool list" where
  "clear_bit i bm = bm[i := False]"

section \<open>Runs of free bits\<close>

text \<open>
  The body of the \<^verbatim>\<open>for_each_set_bit\<close> loops: \<open>pos\<close> is where the next set bit is looked
  for, \<open>prev\<close> and \<open>count\<close> are the loop's variables. The result is the first bit of the run
  at which the loop stops, \<open>None\<close> if it runs to the end.
\<close>

function scan_runs :: "bool list \<Rightarrow> nat \<Rightarrow> u32 \<Rightarrow> nat \<Rightarrow> u32 \<Rightarrow> u32 \<Rightarrow> u32 option" where
  "scan_runs freemap sz len pos prev count =
     (let b = find_next_bit freemap sz pos;
          bit = of_nat b;
          count' = (if prev \<noteq> bit - 1 then 0 else count) + 1
      in if b < sz then
           (if count' = len then Some (bit - len + 1)
            else scan_runs freemap sz len (Suc b) bit count')
         else None)"
  by pat_completeness auto

lemma find_next_bit_ge: "off \<le> sz \<Longrightarrow> off \<le> find_next_bit bm sz off"
proof (induction bm sz off rule: find_next_bit.induct)
  case (1 bm sz off)
  then show ?case by (auto simp: find_next_bit.simps [of bm sz off])
qed

lemma find_next_bit_ge': "find_next_bit bm sz off < sz \<Longrightarrow> off \<le> find_next_bit bm sz off"
proof (rule ccontr)
  assume "find_next_bit bm sz off < sz" and below: "\<not> off \<le> find_next_bit bm sz off"
  moreover from below have "\<not> off \<le> sz" using find_next_bit_ge by blast
  ultimately show False by (simp add: find_next_bit.simps [of bm sz off])
qed

termination scan_runs
proof (relation "measure (\<lambda>(freemap, sz, len, pos, prev, count). sz - pos)", goal_cases)
  case 1
  then show ?case by simp
next
  case (2 freemap sz len pos prev count)
  then show ?case using find_next_bit_ge' [of freemap sz pos] by auto
qed

declare scan_runs.simps [simp del]

definition get_first_free_bits :: "bool list \<Rightarrow> nat \<Rightarrow> u32 \<Rightarrow> u32 \<times> bool list" where
  "get_first_free_bits freemap sz len =
     (if len = 1 then
        (let bit = find_first_bit freemap sz
         in if bit < sz then (of_nat bit, clear_bit bit freemap) else (0, freemap))
      else
        (case scan_runs freemap sz len 0 0 0 of
           Some start \<Rightarrow> (start, bitmap_clear freemap (unat start) (unat len))
         | None \<Rightarrow> (0, freemap)))"

definition get_free_bits_from_hint :: "bool list \<Rightarrow> nat \<Rightarrow> u32 \<Rightarrow> u32 \<Rightarrow> u32 \<times> bool list" where
  "get_free_bits_from_hint freemap sz len hint =
     (let start = (if sz \<le> unat hint then 0 else unat hint)
      in if len = 1 then
           (let bit = find_next_bit freemap sz start
            in if bit < sz then (of_nat bit, clear_bit bit freemap)
               else if 0 < start then
                 (let bit = find_first_bit freemap start
                  in if bit < start then (of_nat bit, clear_bit bit freemap) else (0, freemap))
               else (0, freemap))
         else
           (case scan_runs freemap sz len start 0 0 of
              Some b \<Rightarrow> (b, bitmap_clear freemap (unat b) (unat len))
            | None \<Rightarrow>
                if 0 < start then
                  (case scan_runs freemap start len 0 0 0 of
                     Some b \<Rightarrow> (b, bitmap_clear freemap (unat b) (unat len))
                   | None \<Rightarrow> (0, freemap))
                else (0, freemap)))"

section \<open>Inodes and blocks\<close>

definition get_free_inode :: "sb_info \<Rightarrow> u32 \<times> sb_info" where
  "get_free_inode sbi =
     (let (ret, bm) = get_first_free_bits (ifree_bitmap sbi) (unat (nr_inodes sbi)) 1;
          sbi = sbi\<lparr>ifree_bitmap := bm\<rparr>
      in (ret, if ret \<noteq> 0 then sbi\<lparr>nr_free_inodes := nr_free_inodes sbi - 1\<rparr> else sbi))"

definition get_free_blocks :: "sb_info \<Rightarrow> u32 \<Rightarrow> u32 \<times> sb_info" where
  "get_free_blocks sbi len =
     (let (ret, bm) = get_first_free_bits (bfree_bitmap sbi) (unat (nr_blocks sbi)) len;
          sbi = sbi\<lparr>bfree_bitmap := bm\<rparr>
      in (ret, if ret \<noteq> 0 then sbi\<lparr>nr_free_blocks := nr_free_blocks sbi - len\<rparr> else sbi))"

text \<open>\<open>None\<close> is the return value -1: the range is refused.\<close>

definition put_free_bits :: "bool list \<Rightarrow> nat \<Rightarrow> u32 \<Rightarrow> u32 \<Rightarrow> bool list option" where
  "put_free_bits freemap sz i len =
     (if sz < unat (i + len - 1) then None
      else Some (bitmap_set freemap (unat i) (unat len)))"

definition put_inode :: "sb_info \<Rightarrow> u32 \<Rightarrow> sb_info" where
  "put_inode sbi ino =
     (case put_free_bits (ifree_bitmap sbi) (unat (nr_inodes sbi)) ino 1 of
        None \<Rightarrow> sbi
      | Some bm \<Rightarrow> sbi\<lparr>ifree_bitmap := bm, nr_free_inodes := nr_free_inodes sbi + 1\<rparr>)"

definition put_blocks :: "sb_info \<Rightarrow> u32 \<Rightarrow> u32 \<Rightarrow> sb_info" where
  "put_blocks sbi bno len =
     (case put_free_bits (bfree_bitmap sbi) (unat (nr_blocks sbi)) bno len of
        None \<Rightarrow> sbi
      | Some bm \<Rightarrow> sbi\<lparr>bfree_bitmap := bm, nr_free_blocks := nr_free_blocks sbi + len\<rparr>)"

definition calc_optimal_extent_size :: "sb_info \<Rightarrow> u32 \<Rightarrow> bool \<Rightarrow> u32" where
  "calc_optimal_extent_size sbi current_blocks needs_metadata =
     (let max_size =
            (if needs_metadata then LOLELFFS_MAX_BLOCKS_PER_EXTENT
             else if max_extent_blocks_large sbi = 0
                     \<or> LOLELFFS_MAX_BLOCKS_PER_EXTENT_LARGE < max_extent_blocks_large sbi
                  then LOLELFFS_MAX_BLOCKS_PER_EXTENT_LARGE
                  else max_extent_blocks_large sbi);
          alloc_size =
            (if current_blocks < 8 then 2
             else if current_blocks < 32 then 4
             else if current_blocks < 256 then 64
             else if current_blocks < 1024 then 256
             else max_size);
          alloc_size = (if nr_free_blocks sbi < alloc_size then nr_free_blocks sbi else alloc_size)
      in if alloc_size = 0 then 1 else alloc_size)"

section \<open>The bit operations\<close>

lemma find_next_bit_le: "find_next_bit bm sz off \<le> sz"
proof (induction bm sz off rule: find_next_bit.induct)
  case (1 bm sz off)
  then show ?case by (auto simp: find_next_bit.simps [of bm sz off])
qed

lemma find_next_bit_set: "find_next_bit bm sz off < sz \<Longrightarrow> bit_set bm (find_next_bit bm sz off)"
proof (induction bm sz off rule: find_next_bit.induct)
  case (1 bm sz off)
  then show ?case
    using find_next_bit.simps [of bm sz off] by (auto split: if_splits)
qed

lemma find_next_bit_skip:
  "off \<le> k \<Longrightarrow> k < find_next_bit bm sz off \<Longrightarrow> \<not> bit_set bm k"
proof (induction bm sz off rule: find_next_bit.induct)
  case (1 bm sz off)
  show ?case
  proof (cases "off < sz \<and> \<not> bit_set bm off")
    case True
    then have "find_next_bit bm sz off = find_next_bit bm sz (Suc off)"
      by (simp add: find_next_bit.simps [of bm sz off])
    with 1 True show ?thesis by (cases "k = off") auto
  next
    case False
    with 1(2,3) show ?thesis
      by (auto simp: find_next_bit.simps [of bm sz off] split: if_splits)
  qed
qed

lemma length_bitmap_fill [simp]: "length (bitmap_fill v bm a n) = length bm"
  by (simp add: bitmap_fill_def)

lemma nth_bitmap_fill:
  "i < length bm \<Longrightarrow> bitmap_fill v bm a n ! i = (if a \<le> i \<and> i < a + n then v else bm ! i)"
  by (auto simp: bitmap_fill_def nth_append min_def)

lemma bit_set_fill:
  "bit_set (bitmap_fill v bm a n) i \<longleftrightarrow>
     (if a \<le> i \<and> i < a + n then v \<and> i < length bm else bit_set bm i)"
  by (auto simp: bit_set_def nth_bitmap_fill)

lemma clear_bit_eq: "clear_bit i bm = bitmap_clear bm i 1"
  by (rule nth_equalityI) (auto simp: clear_bit_def nth_bitmap_fill nth_list_update)

section \<open>Correctness of the search\<close>

text \<open>
  \<open>run_free bm sz a n\<close>: the \<open>n\<close> bits from \<open>a\<close> are inside the bitmap's first \<open>sz\<close> bits and
  all set. \<open>scan_inv\<close> is the invariant of the loop that started at bit \<open>s\<close>: the last \<open>c\<close>
  bits up to \<open>p\<close> are set, that run is maximal, and no run of \<open>n\<close> bits ends before \<open>pos\<close>.
\<close>

definition run_free :: "bool list \<Rightarrow> nat \<Rightarrow> nat \<Rightarrow> nat \<Rightarrow> bool" where
  "run_free bm sz a n \<longleftrightarrow> a + n \<le> sz \<and> (\<forall>k. a \<le> k \<and> k < a + n \<longrightarrow> bit_set bm k)"

definition scan_inv :: "bool list \<Rightarrow> nat \<Rightarrow> nat \<Rightarrow> nat \<Rightarrow> nat \<Rightarrow> nat \<Rightarrow> bool" where
  "scan_inv bm s n pos p c \<longleftrightarrow>
     (c = 0 \<and> pos = s) \<or>
     (0 < c \<and> c < n \<and> s + c \<le> Suc p \<and> p < pos
      \<and> (\<forall>k. Suc p \<le> k + c \<and> k \<le> p \<longrightarrow> bit_set bm k)
      \<and> (\<forall>k. p < k \<and> k < pos \<longrightarrow> \<not> bit_set bm k)
      \<and> (s + c < Suc p \<longrightarrow> \<not> bit_set bm (p - c))
      \<and> (\<forall>a. s \<le> a \<and> a + n \<le> pos \<longrightarrow> \<not> (\<forall>k. a \<le> k \<and> k < a + n \<longrightarrow> bit_set bm k)))"

lemma scan_inv_no_run:
  assumes "scan_inv bm s n pos p c" and "0 < n" and "s \<le> a" and "a + n \<le> b"
    and clear: "\<And>k. pos \<le> k \<Longrightarrow> k < b \<Longrightarrow> \<not> bit_set bm k"
  shows "\<not> (\<forall>k. a \<le> k \<and> k < a + n \<longrightarrow> bit_set bm k)"
proof (cases "a + n \<le> pos")
  case True
  with assms(1-3) show ?thesis unfolding scan_inv_def by fastforce
next
  case False
  with assms(2,4) have "\<not> bit_set bm (a + n - 1)" by (intro clear) auto
  with assms(2) show ?thesis by (auto intro!: exI [of _ "a + n - 1"])
qed



lemma scan_inv_gap:
  assumes inv: "scan_inv bm s n pos p c" and b: "pos \<le> b" and clear: "\<And>k. pos \<le> k \<Longrightarrow> k < b \<Longrightarrow> \<not> bit_set bm k"
    and c': "c' = (if 0 < c \<and> Suc p = b then Suc c else 1)" and s: "s + c' < Suc b"
  shows "\<not> bit_set bm (b - c')"
proof (cases "0 < c \<and> Suc p = b")
  case True
  with s inv c' show ?thesis unfolding scan_inv_def by auto
next
  case False
  with c' have "c' = 1" by simp
  with s have sb: "s < b" by simp
  show ?thesis
  proof (cases "pos \<le> b - 1")
    case True
    then show ?thesis using clear [of "b - 1"] sb \<open>c' = 1\<close> by simp
  next
    case below: False
    with b sb have "pos = b" by simp
    with inv sb have "0 < c" "p < b" by (auto simp: scan_inv_def)
    with False have "p < b - 1" by simp
    with inv \<open>0 < c\<close> \<open>pos = b\<close> sb have "\<not> bit_set bm (b - 1)" by (simp add: scan_inv_def)
    with \<open>c' = 1\<close> show ?thesis by simp
  qed
qed

lemma scan_inv_step:
  assumes inv: "scan_inv bm s n pos p c" and n: "0 < n"
    and b: "pos \<le> b" "bit_set bm b" and clear: "\<And>k. pos \<le> k \<Longrightarrow> k < b \<Longrightarrow> \<not> bit_set bm k"
    and c': "c' = (if 0 < c \<and> Suc p = b then Suc c else 1)"
  shows "s + c' \<le> Suc b" and "\<forall>k. Suc b \<le> k + c' \<and> k \<le> b \<longrightarrow> bit_set bm k"
    and "s + c' < Suc b \<longrightarrow> \<not> bit_set bm (b - c')" and "c' \<le> n"
    and "c' < n \<Longrightarrow> scan_inv bm s n (Suc b) b c'"
proof -
  show 1: "s + c' \<le> Suc b"
    using inv b c' unfolding scan_inv_def by (auto split: if_splits)
  show 2: "\<forall>k. Suc b \<le> k + c' \<and> k \<le> b \<longrightarrow> bit_set bm k"
  proof (intro allI impI)
    fix k assume k: "Suc b \<le> k + c' \<and> k \<le> b"
    show "bit_set bm k"
    proof (cases "k = b")
      case True
      with b show ?thesis by simp
    next
      case False
      with k inv c' show ?thesis unfolding scan_inv_def by (auto split: if_splits)
    qed
  qed
  show 3: "s + c' < Suc b \<longrightarrow> \<not> bit_set bm (b - c')"
    using scan_inv_gap [OF inv b(1) clear c'] by blast
  show 4: "c' \<le> n"
    using inv n c' unfolding scan_inv_def by auto
  show "scan_inv bm s n (Suc b) b c'" if lt: "c' < n"
  proof -
    have "\<not> (\<forall>k. a \<le> k \<and> k < a + n \<longrightarrow> bit_set bm k)" if a: "s \<le> a" "a + n \<le> Suc b" for a
    proof (cases "a + n \<le> b")
      case True
      then show ?thesis using scan_inv_no_run [OF inv n a(1) _ clear] by blast
    next
      case False
      with a have ab: "a + n = Suc b" by simp
      with lt a have "s + c' < Suc b" by simp
      with 3 have "\<not> bit_set bm (b - c')" by simp
      moreover have "a \<le> b - c'" "b - c' < a + n" using ab lt by auto
      ultimately show ?thesis by blast
    qed
    with 1 2 3 lt c' show ?thesis unfolding scan_inv_def by auto
  qed
qed

lemma unat_run_start:
  assumes "n \<le> Suc b" and "Suc b < 2 ^ 32 + n" and "unat (len :: u32) = n"
  shows "unat (of_nat b - len + 1) = Suc b - n"
proof -
  have "of_nat n = len" using assms(3) by auto
  then have "of_nat b - len + 1 = (of_nat (Suc b - n) :: u32)"
    using assms(1) by (simp add: of_nat_diff)
  then have "unat (of_nat b - len + 1) = unat (of_nat (Suc b - n) :: u32)" by (rule arg_cong)
  also have "\<dots> = Suc b - n"
    using assms(1,2) by (subst unat_of_nat) simp
  finally show ?thesis .
qed

lemma scan_count_step:
  assumes inv: "scan_inv bm s n pos (unat (prev :: u32)) (unat (count :: u32))" and n: "unat (len :: u32) = n"
    and b: "pos \<le> b" "b < 2 ^ 32"
  shows "unat ((if prev \<noteq> of_nat b - 1 then 0 else count) + 1)
    = (if 0 < unat count \<and> Suc (unat prev) = b then Suc (unat count) else 1)"
proof (cases "count = 0")
  case True
  then show ?thesis by simp
next
  case False
  then have pos: "0 < unat count" by (simp add: unat_gt_0)
  with inv b have pb: "unat prev < b" and cn: "unat count < n" by (auto simp: scan_inv_def)
  have "unat (of_nat b - 1 :: u32) = b - 1"
    using b pb by (simp add: unat_sub_if' unat_of_nat)
  then have "prev = of_nat b - 1 \<longleftrightarrow> Suc (unat prev) = b"
    unfolding word_unat_eq_iff using pb by arith
  moreover have "unat (count + 1) = Suc (unat count)"
  proof -
    have "Suc (unat count) < 2 ^ 32" using cn n unat_u32_less [of len] by simp
    then show ?thesis by (simp add: unat_word_ariths)
  qed
  ultimately show ?thesis using pos by simp
qed

lemma scan_runs_correct:
  assumes "sz < 2 ^ 32" and "unat len = n" and "0 < n"
    and "scan_inv bm s n pos (unat prev) (unat count)"
  shows "case scan_runs bm sz len pos prev count of
      None \<Rightarrow> \<forall>a. s \<le> a \<longrightarrow> \<not> run_free bm sz a n
    | Some r \<Rightarrow> s \<le> unat r \<and> run_free bm sz (unat r) n
        \<and> (\<forall>a. s \<le> a \<and> a < unat r \<longrightarrow> \<not> run_free bm sz a n)"
  using assms
proof (induction bm sz len pos prev count rule: scan_runs.induct)
  case (1 bm sz len pos prev count)
  note inv = "1.prems"(4) and n = "1.prems"(3) and len = "1.prems"(2) and sz = "1.prems"(1)
  define b where "b = find_next_bit bm sz pos"
  define c where "c = (if prev \<noteq> of_nat b - 1 then 0 else count) + 1"
  have clear: "\<not> bit_set bm k" if "pos \<le> k" "k < b" for k
    using find_next_bit_skip [of pos k bm sz] that by (simp add: b_def)
  have unfold: "scan_runs bm sz len pos prev count =
      (if b < sz then (if c = len then Some (of_nat b - len + 1)
         else scan_runs bm sz len (Suc b) (of_nat b) c) else None)"
    by (subst scan_runs.simps) (simp add: Let_def b_def c_def)
  show ?case
  proof (cases "b < sz")
    case False
    then have "b = sz" using find_next_bit_le [of bm sz pos] by (simp add: b_def)
    with scan_inv_no_run [OF inv n _ _ clear] have "\<forall>a. s \<le> a \<longrightarrow> \<not> run_free bm sz a n"
      unfolding run_free_def by blast
    with False show ?thesis by (simp add: unfold)
  next
    case True
    then have pb: "pos \<le> b" and bs: "bit_set bm b"
      using find_next_bit_ge' [of bm sz pos] find_next_bit_set [of bm sz pos] by (auto simp: b_def)
    have ub: "unat (of_nat b :: u32) = b"
      using True sz by (simp add: unat_of_nat)
    have uc: "unat c = (if 0 < unat count \<and> Suc (unat prev) = b then Suc (unat count) else 1)"
      unfolding c_def by (rule scan_count_step [OF inv len pb]) (use True sz in simp)
    note step = scan_inv_step [OF inv n pb bs clear uc]
    show ?thesis
    proof (cases "c = len")
      case found: True
      with step(1) len have le: "s + n \<le> Suc b" by simp
      have r: "unat (of_nat b - len + 1) = Suc b - n"
        using le len True sz by (intro unat_run_start) auto
      have "run_free bm sz (Suc b - n) n"
        using step(2) found len le True unfolding run_free_def by auto
      moreover have "\<not> run_free bm sz a n" if "s \<le> a" "a < Suc b - n" for a
        using scan_inv_no_run [OF inv n that(1) _ clear, of b] that unfolding run_free_def by simp
      ultimately show ?thesis using found True le by (simp add: unfold r)
    next
      case False
      with step(4) len have "unat c < n" by (metis le_neq_implies_less word_unat_eq_iff)
      with step(5) ub have "scan_inv bm s n (Suc b) (unat (of_nat b :: u32)) (unat c)" by simp
      from "1.IH" [OF b_def refl c_def True False sz len n this] show ?thesis
        using True False by (simp add: unfold)
    qed
  qed
qed


lemma run_free_1: "run_free bm sz a (Suc 0) \<longleftrightarrow> a < sz \<and> bit_set bm a"
  unfolding run_free_def by (auto simp: less_Suc_eq_le dest: le_antisym)

lemma find_next_bit_found:
  "find_next_bit bm sz s < sz \<longleftrightarrow> (\<exists>a. s \<le> a \<and> a < sz \<and> bit_set bm a)"
proof
  assume "find_next_bit bm sz s < sz"
  then show "\<exists>a. s \<le> a \<and> a < sz \<and> bit_set bm a"
    using find_next_bit_ge' find_next_bit_set by blast
next
  assume "\<exists>a. s \<le> a \<and> a < sz \<and> bit_set bm a"
  then show "find_next_bit bm sz s < sz"
    using find_next_bit_skip by (meson leD leI order.trans)
qed

definition first_run :: "bool list \<Rightarrow> nat \<Rightarrow> nat \<Rightarrow> nat \<Rightarrow> nat \<Rightarrow> bool" where
  "first_run bm sz s n a \<longleftrightarrow> s \<le> a \<and> run_free bm sz a n
     \<and> (\<forall>a'. s \<le> a' \<and> a' < a \<longrightarrow> \<not> run_free bm sz a' n)"

lemma scan_from:
  assumes "sz < 2 ^ 32" and "0 < unat len"
  shows "case scan_runs bm sz len s 0 0 of
      None \<Rightarrow> \<forall>a. s \<le> a \<longrightarrow> \<not> run_free bm sz a (unat len)
    | Some r \<Rightarrow> first_run bm sz s (unat len) (unat r)"
  using scan_runs_correct [OF assms(1) refl assms(2), where bm = bm and s = s and pos = s and prev = 0 and count = 0]
  by (simp add: scan_inv_def first_run_def split: option.splits)

lemma find_from:
  assumes "sz < 2 ^ 32"
  shows "if find_next_bit bm sz s < sz then first_run bm sz s 1 (unat (of_nat (find_next_bit bm sz s) :: u32))
         else \<forall>a. s \<le> a \<longrightarrow> \<not> run_free bm sz a 1"
proof (cases "find_next_bit bm sz s < sz")
  case True
  then have "unat (of_nat (find_next_bit bm sz s) :: u32) = find_next_bit bm sz s"
    using assms by (simp add: unat_of_nat)
  with True show ?thesis
    using find_next_bit_ge' [OF True] find_next_bit_set [OF True] find_next_bit_skip [of s]
    by (auto simp: first_run_def run_free_1)
next
  case False
  then show ?thesis using find_next_bit_found [of bm sz s] by (auto simp: run_free_1)
qed

text \<open>Both searches probe a part of the bitmap for its first run, the single bit case included.\<close>

definition probe :: "bool list \<Rightarrow> nat \<Rightarrow> nat \<Rightarrow> u32 \<Rightarrow> u32 option" where
  "probe bm sz s len =
     (if len = 1 then
        (if find_next_bit bm sz s < sz then Some (of_nat (find_next_bit bm sz s)) else None)
      else scan_runs bm sz len s 0 0)"

lemma probe_correct:
  assumes "sz < 2 ^ 32" and "0 < unat len"
  shows "case probe bm sz s len of
      None \<Rightarrow> \<forall>a. s \<le> a \<longrightarrow> \<not> run_free bm sz a (unat len)
    | Some r \<Rightarrow> first_run bm sz s (unat len) (unat r)"
  using scan_from [OF assms, where bm = bm and s = s] find_from [OF assms(1), where bm = bm and s = s]
  by (auto simp: probe_def)

lemma get_first_free_bits_probe:
  assumes "sz < 2 ^ 32"
  shows "get_first_free_bits bm sz len =
    (case probe bm sz 0 len of
       Some b \<Rightarrow> (b, bitmap_clear bm (unat b) (unat len))
     | None \<Rightarrow> (0, bm))"
  using assms
  by (auto simp: get_first_free_bits_def probe_def find_first_bit_def clear_bit_eq Let_def
      unat_of_nat)

lemma get_free_bits_from_hint_probe:
  assumes "sz < 2 ^ 32"
  shows "get_free_bits_from_hint bm sz len hint =
    (let start = (if sz \<le> unat hint then 0 else unat hint)
     in case probe bm sz start len of
       Some b \<Rightarrow> (b, bitmap_clear bm (unat b) (unat len))
     | None \<Rightarrow>
         if 0 < start then
           (case probe bm start 0 len of
              Some b \<Rightarrow> (b, bitmap_clear bm (unat b) (unat len))
            | None \<Rightarrow> (0, bm))
         else (0, bm))"
  using assms
  by (auto simp: get_free_bits_from_hint_def probe_def find_first_bit_def clear_bit_eq Let_def
      unat_of_nat split: option.splits)

lemma get_first_free_bits_cases:
  assumes sz: "sz < 2 ^ 32" and len: "0 < unat len"
    and get: "get_first_free_bits bm sz len = (r, bm')"
  shows "(first_run bm sz 0 (unat len) (unat r) \<and> bm' = bitmap_clear bm (unat r) (unat len))
       \<or> ((\<forall>a. \<not> run_free bm sz a (unat len)) \<and> r = 0 \<and> bm' = bm)"
  using probe_correct [OF sz len, where bm = bm and s = 0] get
  by (auto simp: get_first_free_bits_probe [OF sz] split: option.splits)

lemma get_free_bits_from_hint_cases:
  assumes sz: "sz < 2 ^ 32" and len: "0 < unat len"
    and get: "get_free_bits_from_hint bm sz len hint = (r, bm')"
  shows "(run_free bm sz (unat r) (unat len) \<and> bm' = bitmap_clear bm (unat r) (unat len))
       \<or> (r = 0 \<and> bm' = bm
          \<and> (\<forall>a. unat hint \<le> a \<or> sz \<le> unat hint \<or> a + unat len \<le> unat hint
                \<longrightarrow> \<not> run_free bm sz a (unat len)))"
proof -
  define st where "st = (if sz \<le> unat hint then 0 else unat hint)"
  have st: "st < 2 ^ 32" "st \<le> sz" by (auto simp: st_def)
  note p1 = probe_correct [OF sz len, where bm = bm and s = st] and p2 = probe_correct [OF st(1) len, where bm = bm and s = 0]
  note get' = get [unfolded get_free_bits_from_hint_probe [OF sz] Let_def, folded st_def]
  show ?thesis
  proof (cases "probe bm sz st len")
    case (Some b)
    with p1 get' show ?thesis by (auto simp: first_run_def)
  next
    case none1: None
    show ?thesis
    proof (cases "0 < st \<and> probe bm st 0 len \<noteq> None")
      case True
      then obtain b where "probe bm st 0 len = Some b" by auto
      with none1 True p2 get' st show ?thesis by (auto simp: first_run_def run_free_def)
    next
      case False
      with none1 get' have "r = 0" "bm' = bm" by (auto split: if_splits)
      moreover have "\<not> run_free bm sz a (unat len)"
        if a: "unat hint \<le> a \<or> sz \<le> unat hint \<or> a + unat len \<le> unat hint" for a
      proof (cases "st \<le> a")
        case True
        with p1 none1 show ?thesis by simp
      next
        case below: False
        with a len have "0 < st" "a + unat len \<le> st" by (auto simp: st_def split: if_splits)
        with False p2 show ?thesis by (auto simp: run_free_def)
      qed
      ultimately show ?thesis by blast
    qed
  qed
qed

section \<open>The allocator's contract\<close>

text \<open>
  What the callers in \<^verbatim>\<open>inode.c\<close>, \<^verbatim>\<open>file.c\<close> and \<^verbatim>\<open>xattr.c\<close> rely on: a
  request either fails, and then no run of that length is free, or it returns a range that was
  free and is not free afterwards; returning a range that is not free makes it free again.
  \<open>lens\<close> are the lengths the allocator may be asked for.
\<close>

definition range_of :: "u32 \<Rightarrow> u32 \<Rightarrow> nat set" where
  "range_of a len = {unat a ..< unat a + unat len}"

locale allocator =
  fixes get :: "'s \<Rightarrow> u32 \<Rightarrow> u32 \<times> 's"
    and put :: "'s \<Rightarrow> u32 \<Rightarrow> u32 \<Rightarrow> 's"
    and free :: "'s \<Rightarrow> nat set"
    and limit :: "'s \<Rightarrow> nat"
    and inv :: "'s \<Rightarrow> bool"
    and lens :: "u32 set"
  assumes get_fail:
      "inv s \<Longrightarrow> len \<in> lens \<Longrightarrow> get s len = (0, s') \<Longrightarrow>
         s' = s \<and> (\<forall>a. \<not> {a ..< a + unat len} \<subseteq> free s)"
    and get_ok:
      "inv s \<Longrightarrow> len \<in> lens \<Longrightarrow> get s len = (r, s') \<Longrightarrow> r \<noteq> 0 \<Longrightarrow>
         inv s' \<and> limit s' = limit s \<and> range_of r len \<subseteq> free s \<and> free s' = free s - range_of r len"
    and put_ok:
      "inv s \<Longrightarrow> len \<in> lens \<Longrightarrow> a \<noteq> 0 \<Longrightarrow> unat a + unat len \<le> limit s \<Longrightarrow>
         range_of a len \<inter> free s = {} \<Longrightarrow>
         inv (put s a len) \<and> limit (put s a len) = limit s
         \<and> free (put s a len) = free s \<union> range_of a len"
    and free_limit: "inv s \<Longrightarrow> free s \<subseteq> {0 <..< limit s}"
    and lens_pos: "len \<in> lens \<Longrightarrow> 0 < unat len"
begin

lemma get_inv: "inv s \<Longrightarrow> len \<in> lens \<Longrightarrow> get s len = (r, s') \<Longrightarrow> inv s' \<and> limit s' = limit s"
  using get_fail [of s len s'] get_ok [of s len r s'] by (cases "r = 0") auto

lemma get_range:
  assumes "inv s" "len \<in> lens" "get s len = (r, s')" "r \<noteq> 0"
  shows "unat r + unat len \<le> limit s"
proof -
  have "range_of r len \<subseteq> {..< limit s}"
    using get_ok [OF assms] free_limit [OF assms(1)] by auto
  moreover have "unat r + unat len - 1 \<in> range_of r len"
    using lens_pos [OF assms(2)] by (auto simp: range_of_def)
  ultimately show ?thesis using lens_pos [OF assms(2)] by auto
qed

text \<open>A range is never handed out twice without being returned in between.\<close>

lemma get_get_disjoint:
  assumes "inv s" "l1 \<in> lens" "get s l1 = (a, s1)" "a \<noteq> 0"
    and "l2 \<in> lens" "get s1 l2 = (b, s2)" "b \<noteq> 0"
  shows "range_of a l1 \<inter> range_of b l2 = {}"
  using get_ok [OF assms(1-4)] get_ok [of s1 l2 b s2] assms(5-7) by auto

text \<open>Returning what was taken gives the free set back.\<close>

lemma put_get:
  assumes "inv s" "len \<in> lens" "get s len = (r, s')" "r \<noteq> 0"
  shows "free (put s' r len) = free s \<and> inv (put s' r len)"
proof -
  note ok = get_ok [OF assms]
  with get_range [OF assms] have "unat r + unat len \<le> limit s'" "range_of r len \<inter> free s' = {}"
    by auto
  with put_ok [of s' len r] ok assms(2,4) show ?thesis by auto
qed

end

section \<open>The two allocators of the file system\<close>

definition free_bits :: "bool list \<Rightarrow> nat \<Rightarrow> nat set" where
  "free_bits bm sz = set (filter (bit_set bm) [0..<sz])"

definition alloc_inv :: "bool list \<Rightarrow> u32 \<Rightarrow> u32 \<Rightarrow> bool" where
  "alloc_inv bm n nfree \<longleftrightarrow>
     unat n \<le> length bm \<and> \<not> bit_set bm 0 \<and> unat nfree = card (free_bits bm (unat n))"

definition free_blocks :: "sb_info \<Rightarrow> nat set" where
  "free_blocks sbi = free_bits (bfree_bitmap sbi) (unat (nr_blocks sbi))"

definition free_inodes :: "sb_info \<Rightarrow> nat set" where
  "free_inodes sbi = free_bits (ifree_bitmap sbi) (unat (nr_inodes sbi))"

definition blocks_inv :: "sb_info \<Rightarrow> bool" where
  "blocks_inv sbi \<longleftrightarrow> alloc_inv (bfree_bitmap sbi) (nr_blocks sbi) (nr_free_blocks sbi)"

definition inodes_inv :: "sb_info \<Rightarrow> bool" where
  "inodes_inv sbi \<longleftrightarrow> alloc_inv (ifree_bitmap sbi) (nr_inodes sbi) (nr_free_inodes sbi)"

lemma mem_free_bits: "i \<in> free_bits bm sz \<longleftrightarrow> i < sz \<and> bit_set bm i"
  by (auto simp: free_bits_def)

lemma finite_free_bits [simp]: "finite (free_bits bm sz)"
  by (simp add: free_bits_def)

lemma run_free_subset: "0 < n \<Longrightarrow> run_free bm sz a n \<longleftrightarrow> {a ..< a + n} \<subseteq> free_bits bm sz"
proof
  assume "0 < n" and sub: "{a ..< a + n} \<subseteq> free_bits bm sz"
  then have "a + n - 1 < sz"
    using subsetD [OF sub, of "a + n - 1"] by (simp add: mem_free_bits)
  moreover have "bit_set bm k" if "a \<le> k" "k < a + n" for k
    using subsetD [OF sub, of k] that by (simp add: mem_free_bits)
  ultimately show "run_free bm sz a n"
    using \<open>0 < n\<close> by (simp add: run_free_def)
qed (auto simp: run_free_def mem_free_bits)

lemma free_bits_clear: "free_bits (bitmap_clear bm a n) sz = free_bits bm sz - {a ..< a + n}"
  by (auto simp: mem_free_bits bit_set_fill split: if_splits)

lemma free_bits_set:
  "sz \<le> length bm \<Longrightarrow> a + n \<le> sz \<Longrightarrow>
   free_bits (bitmap_set bm a n) sz = free_bits bm sz \<union> {a ..< a + n}"
  by (auto simp: mem_free_bits bit_set_fill split: if_splits)

lemma get_bits_fail:
  assumes "alloc_inv bm n nfree" and "0 < unat len"
    and "get_first_free_bits bm (unat n) len = (0, bm')"
  shows "bm' = bm" and "\<not> {a ..< a + unat len} \<subseteq> free_bits bm (unat n)"
proof -
  have n: "unat n < 2 ^ 32" by simp
  have "\<not> run_free bm (unat n) 0 (unat len)"
    using assms(1,2) by (auto simp: run_free_def alloc_inv_def)
  with get_first_free_bits_cases [OF n assms(2,3)]
  show "bm' = bm" "\<not> {a ..< a + unat len} \<subseteq> free_bits bm (unat n)"
    using assms(2) by (auto simp: first_run_def run_free_subset)
qed

lemma get_bits_ok:
  assumes inv: "alloc_inv bm n nfree" and len: "0 < unat len"
    and get: "get_first_free_bits bm (unat n) len = (r, bm')" and r: "r \<noteq> 0"
  shows "range_of r len \<subseteq> free_bits bm (unat n)"
    and "free_bits bm' (unat n) = free_bits bm (unat n) - range_of r len"
    and "alloc_inv bm' n (nfree - len)"
proof -
  have n: "unat n < 2 ^ 32" by simp
  from get_first_free_bits_cases [OF n len get] r
  have run: "run_free bm (unat n) (unat r) (unat len)"
    and bm': "bm' = bitmap_clear bm (unat r) (unat len)" by (auto simp: first_run_def)
  show sub: "range_of r len \<subseteq> free_bits bm (unat n)"
    using run len by (simp add: run_free_subset range_of_def)
  show eq: "free_bits bm' (unat n) = free_bits bm (unat n) - range_of r len"
    by (simp add: bm' free_bits_clear range_of_def)
  have "card (range_of r len) = unat len" by (simp add: range_of_def)
  then have "card (free_bits bm' (unat n)) = unat nfree - unat len" "unat len \<le> unat nfree"
    using eq sub inv card_mono [OF finite_free_bits sub]
    by (simp_all add: card_Diff_subset finite_subset [OF sub] alloc_inv_def)
  then show "alloc_inv bm' n (nfree - len)"
    using inv bm' by (simp add: alloc_inv_def bit_set_fill unat_sub_u32)
qed

lemma put_bits_ok:
  assumes inv: "alloc_inv bm n nfree" and len: "0 < unat len" and a: "a \<noteq> 0"
    and bnd: "unat a + unat len \<le> unat n" and used: "range_of a len \<inter> free_bits bm (unat n) = {}"
  shows "put_free_bits bm (unat n) a len = Some (bitmap_set bm (unat a) (unat len))"
    and "free_bits (bitmap_set bm (unat a) (unat len)) (unat n) = free_bits bm (unat n) \<union> range_of a len"
    and "alloc_inv (bitmap_set bm (unat a) (unat len)) n (nfree + len)"
proof -
  have n: "unat n < 4294967296" by simp
  have "unat (a + len) = unat a + unat len" using bnd n by (intro unat_add_u32) linarith
  moreover have "unat (1 :: u32) \<le> unat (a + len)" using len calculation by simp
  ultimately have "unat (a + len - 1) = unat a + unat len - 1"
    using unat_sub_u32 [of 1 "a + len"] by simp
  then show "put_free_bits bm (unat n) a len = Some (bitmap_set bm (unat a) (unat len))"
    using bnd by (simp add: put_free_bits_def)
  show eq: "free_bits (bitmap_set bm (unat a) (unat len)) (unat n) = free_bits bm (unat n) \<union> range_of a len"
    using inv bnd by (simp add: free_bits_set range_of_def alloc_inv_def)
  have card: "card (free_bits bm (unat n) \<union> range_of a len) = unat nfree + unat len"
    using inv used by (subst card_Un_disjoint) (auto simp: alloc_inv_def range_of_def)
  have "free_bits bm (unat n) \<union> range_of a len \<subseteq> {..< unat n}"
    using bnd by (auto simp: mem_free_bits range_of_def)
  then have "unat nfree + unat len \<le> unat n"
    using card_mono [OF finite_lessThan, of "free_bits bm (unat n) \<union> range_of a len" "unat n"] card
    by simp
  then have "unat (nfree + len) = unat nfree + unat len"
    using n by (intro unat_add_u32) linarith
  moreover have "unat a \<noteq> 0" using a by (simp add: unat_eq_0)
  ultimately show "alloc_inv (bitmap_set bm (unat a) (unat len)) n (nfree + len)"
    using inv eq card by (simp add: alloc_inv_def bit_set_fill)
qed

lemma free_bits_limit: "alloc_inv bm n nfree \<Longrightarrow> free_bits bm (unat n) \<subseteq> {0 <..< unat n}"
proof
  fix i assume "alloc_inv bm n nfree" "i \<in> free_bits bm (unat n)"
  then have "i < unat n" "i \<noteq> 0" by (auto simp: alloc_inv_def mem_free_bits intro: ccontr)
  then show "i \<in> {0 <..< unat n}" by simp
qed

interpretation ba: allocator get_free_blocks put_blocks free_blocks
  "\<lambda>sbi. unat (nr_blocks sbi)" blocks_inv "{len. len \<noteq> 0}"
proof
  fix s s' :: sb_info and len r a :: u32
  assume inv: "blocks_inv s" and len: "len \<in> {len. len \<noteq> 0}"
  then have inv': "alloc_inv (bfree_bitmap s) (nr_blocks s) (nr_free_blocks s)" and len': "0 < unat len"
    by (auto simp: blocks_inv_def unat_gt_0)
  note defs = get_free_blocks_def free_blocks_def blocks_inv_def Let_def
  show "s' = s \<and> (\<forall>a. \<not> {a ..< a + unat len} \<subseteq> free_blocks s)" if "get_free_blocks s len = (0, s')"
    using that get_bits_fail [OF inv' len'] by (auto simp: defs split: prod.splits if_splits)
  show "blocks_inv s' \<and> unat (nr_blocks s') = unat (nr_blocks s) \<and> range_of r len \<subseteq> free_blocks s
      \<and> free_blocks s' = free_blocks s - range_of r len" if "get_free_blocks s len = (r, s')" "r \<noteq> 0"
    using that get_bits_ok [OF inv' len'] by (auto simp: defs split: prod.splits if_splits)
  show "blocks_inv (put_blocks s a len) \<and> unat (nr_blocks (put_blocks s a len)) = unat (nr_blocks s)
      \<and> free_blocks (put_blocks s a len) = free_blocks s \<union> range_of a len"
    if "a \<noteq> 0" "unat a + unat len \<le> unat (nr_blocks s)" "range_of a len \<inter> free_blocks s = {}"
    using put_bits_ok [OF inv' len' that(1,2)] that(3)
    by (simp add: put_blocks_def free_blocks_def blocks_inv_def)
next
  fix s assume "blocks_inv s"
  then show "free_blocks s \<subseteq> {0 <..< unat (nr_blocks s)}"
    unfolding blocks_inv_def free_blocks_def by (rule free_bits_limit)
qed (simp add: unat_gt_0)

interpretation ia: allocator "\<lambda>sbi len. get_free_inode sbi" "\<lambda>sbi ino len. put_inode sbi ino" free_inodes
  "\<lambda>sbi. unat (nr_inodes sbi)" inodes_inv "{1}"
proof
  fix s s' :: sb_info and len r a :: u32
  assume inv: "inodes_inv s" and len: "len \<in> {1}"
  then have inv': "alloc_inv (ifree_bitmap s) (nr_inodes s) (nr_free_inodes s)" and len': "0 < unat len"
    and [simp]: "len = 1"
    by (auto simp: inodes_inv_def)
  note defs = get_free_inode_def free_inodes_def inodes_inv_def Let_def
  show "s' = s \<and> (\<forall>a. \<not> {a ..< a + unat len} \<subseteq> free_inodes s)" if "get_free_inode s = (0, s')"
    using that get_bits_fail [OF inv' len'] by (auto simp: defs split: prod.splits if_splits)
  show "inodes_inv s' \<and> unat (nr_inodes s') = unat (nr_inodes s) \<and> range_of r len \<subseteq> free_inodes s
      \<and> free_inodes s' = free_inodes s - range_of r len" if "get_free_inode s = (r, s')" "r \<noteq> 0"
    using that get_bits_ok [OF inv' len'] by (auto simp: defs split: prod.splits if_splits)
  show "inodes_inv (put_inode s a) \<and> unat (nr_inodes (put_inode s a)) = unat (nr_inodes s)
      \<and> free_inodes (put_inode s a) = free_inodes s \<union> range_of a len"
    if "a \<noteq> 0" "unat a + unat len \<le> unat (nr_inodes s)" "range_of a len \<inter> free_inodes s = {}"
    using put_bits_ok [OF inv' len' that(1,2)] that(3)
    by (simp add: put_inode_def free_inodes_def inodes_inv_def)
next
  fix s assume "inodes_inv s"
  then show "free_inodes s \<subseteq> {0 <..< unat (nr_inodes s)}"
    unfolding inodes_inv_def free_inodes_def by (rule free_bits_limit)
qed simp


section \<open>Histories of the block allocator\<close>

text \<open>
  \<open>block_history s0 s held\<close>: from the superblock state \<open>s0\<close>, a sequence of successful
  \<open>get_free_blocks\<close> and of \<open>put_blocks\<close> of ranges that are held leads to \<open>s\<close> with the ranges
  \<open>held\<close> not yet returned.
\<close>

inductive block_history :: "sb_info \<Rightarrow> sb_info \<Rightarrow> (u32 \<times> u32) list \<Rightarrow> bool" where
  start: "block_history s0 s0 []"
| get: "block_history s0 s held \<Longrightarrow> len \<noteq> 0 \<Longrightarrow> get_free_blocks s len = (r, s') \<Longrightarrow> r \<noteq> 0 \<Longrightarrow>
     block_history s0 s' ((r, len) # held)"
| put: "block_history s0 s held \<Longrightarrow> (a, len) \<in> set held \<Longrightarrow>
     block_history s0 (put_blocks s a len) (remove1 (a, len) held)"

inductive_cases block_historyE: "block_history s0 s held"

definition ranges :: "(u32 \<times> u32) list \<Rightarrow> nat list" where
  "ranges held = concat (map (\<lambda>(a, len). [unat a ..< unat a + unat len]) held)"

definition history_inv :: "sb_info \<Rightarrow> sb_info \<Rightarrow> (u32 \<times> u32) list \<Rightarrow> bool" where
  "history_inv s0 s held \<longleftrightarrow> blocks_inv s \<and> nr_blocks s = nr_blocks s0
     \<and> distinct (ranges held) \<and> set (ranges held) \<inter> free_blocks s = {}
     \<and> set (ranges held) \<union> free_blocks s = free_blocks s0
     \<and> (\<forall>(a, len) \<in> set held. a \<noteq> 0 \<and> len \<noteq> 0)"

lemma set_ranges_Cons: "set (ranges ((a, len) # held)) = range_of a len \<union> set (ranges held)"
  by (simp add: ranges_def range_of_def)

lemma ranges_remove1:
  "(a, len) \<in> set held \<Longrightarrow> distinct (ranges held) \<Longrightarrow>
   distinct (ranges (remove1 (a, len) held)) \<and>
   set (ranges (remove1 (a, len) held)) = set (ranges held) - range_of a len \<and> range_of a len \<subseteq> set (ranges held)"
proof (induction held)
  case Nil
  then show ?case by simp
next
  case (Cons x held)
  show ?case
  proof (cases "x = (a, len)")
    case True
    with Cons.prems show ?thesis by (auto simp: ranges_def range_of_def)
  next
    case False
    with Cons have IH: "distinct (ranges (remove1 (a, len) held))"
      "set (ranges (remove1 (a, len) held)) = set (ranges held) - range_of a len"
      "range_of a len \<subseteq> set (ranges held)"
      by (auto simp: ranges_def)
    have "ranges (x # ys) = [unat (fst x) ..< unat (fst x) + unat (snd x)] @ ranges ys" for ys
      by (simp add: ranges_def split_beta)
    with IH False Cons.prems(2) show ?thesis by auto
  qed
qed

lemma nr_blocks_get: "get_free_blocks s len = (r, s') \<Longrightarrow> nr_blocks s' = nr_blocks s"
  by (auto simp: get_free_blocks_def Let_def split: prod.splits if_splits)

lemma nr_blocks_put [simp]: "nr_blocks (put_blocks s a len) = nr_blocks s"
  by (simp add: put_blocks_def split: option.splits)

lemma history_inv_get:
  assumes inv: "history_inv s0 s held" and len: "len \<noteq> 0"
    and get: "get_free_blocks s len = (r, s')" and r: "r \<noteq> 0"
  shows "history_inv s0 s' ((r, len) # held)"
proof -
  from inv have "blocks_inv s" by (simp add: history_inv_def)
  from ba.get_ok [OF this _ get r] len
  have ok: "blocks_inv s'" "range_of r len \<subseteq> free_blocks s" "free_blocks s' = free_blocks s - range_of r len"
    by auto
  have d: "ranges ((r, len) # held) = [unat r ..< unat r + unat len] @ ranges held"
    by (simp add: ranges_def)
  with inv ok have "distinct (ranges ((r, len) # held))"
    by (auto simp: history_inv_def range_of_def)
  with inv ok len r nr_blocks_get [OF get] show ?thesis
    unfolding history_inv_def set_ranges_Cons by auto
qed

lemma history_inv_put:
  assumes inv: "history_inv s0 s held" and mem: "(a, len) \<in> set held"
  shows "history_inv s0 (put_blocks s a len) (remove1 (a, len) held)"
proof -
  from inv mem have s: "blocks_inv s" and nz: "a \<noteq> 0" "len \<noteq> 0" and d: "distinct (ranges held)"
    and disj: "set (ranges held) \<inter> free_blocks s = {}" and sub0: "set (ranges held) \<subseteq> free_blocks s0"
    by (auto simp: history_inv_def)
  note rm = ranges_remove1 [OF mem d]
  have lim: "unat a + unat len \<le> unat (nr_blocks s)"
  proof -
    have "0 < unat len" using nz by (simp add: unat_gt_0)
    then have "unat a + unat len - 1 \<in> range_of a len" by (auto simp: range_of_def)
    with rm sub0 have "unat a + unat len - 1 \<in> free_blocks s0" by auto
    with inv nz show ?thesis
      by (auto simp: free_blocks_def mem_free_bits history_inv_def)
  qed
  have "range_of a len \<inter> free_blocks s = {}" using rm disj by auto
  from ba.put_ok [OF s _ nz(1) lim this] nz(2)
  have "blocks_inv (put_blocks s a len)" "free_blocks (put_blocks s a len) = free_blocks s \<union> range_of a len"
    by auto
  with inv rm show ?thesis
    by (auto simp: history_inv_def dest: set_remove1_subset [THEN subsetD])
qed

lemma block_history_inv: "block_history s0 s held \<Longrightarrow> blocks_inv s0 \<Longrightarrow> history_inv s0 s held"
proof (induction rule: block_history.induct)
  case (start s0)
  then show ?case by (simp add: history_inv_def ranges_def)
next
  case (get s0 s held len r s')
  then show ?case by (blast intro: history_inv_get)
next
  case (put s0 s held a len)
  then show ?case by (blast intro: history_inv_put)
qed


lemma get_free_blocks_lowest:
  assumes "len \<noteq> 0" "get_free_blocks b len = (r, b')" "r \<noteq> 0" "a < unat r"
  shows "\<not> {a ..< a + unat len} \<subseteq> free_blocks b"
proof -
  from assms(1) have len': "0 < unat len" by (simp add: unat_gt_0)
  from assms(2,3) obtain bm where g: "get_first_free_bits (bfree_bitmap b) (unat (nr_blocks b)) len = (r, bm)"
    by (auto simp: get_free_blocks_def Let_def split: prod.splits if_splits)
  from get_first_free_bits_cases [OF _ len' g] assms(3)
  have "first_run (bfree_bitmap b) (unat (nr_blocks b)) 0 (unat len) (unat r)" by auto
  with assms(4) show ?thesis by (simp add: first_run_def run_free_subset [OF len'] free_blocks_def)
qed


section \<open>What the allocator guarantees\<close>

text \<open>A small file system for the witnesses: eight blocks, of which 1, 2, 4, 5 and 6 are free.\<close>

definition tiny_sbi :: sb_info where
  "tiny_sbi = \<lparr>magic = 0, nr_blocks = 8, nr_inodes = 4, nr_istore_blocks = 1, nr_ifree_blocks = 1,
     nr_bfree_blocks = 1, nr_free_inodes = 2, nr_free_blocks = 5, version = 0, comp_default_algo = 0,
     comp_enabled = 0, comp_min_block_size = 0, comp_features = 0, max_extent_blocks = 0,
     max_extent_blocks_large = 0, enc_enabled = 0, enc_default_algo = 0, enc_kdf_algo = 0,
     enc_kdf_iterations = 0, enc_kdf_memory = 0, enc_kdf_parallelism = 0, enc_salt = [],
     enc_master_key = [], enc_features = 0, reserved = [],
     ifree_bitmap = [False, True, False, True],
     bfree_bitmap = [False, True, True, False, True, True, True, False],
     fs_offset = 0, enc_master_key_decrypted = [], enc_unlocked = False\<rparr>"


lemmas alloc_eval = get_first_free_bits_def find_first_bit_def find_next_bit.simps scan_runs.simps
  bit_set_def bitmap_fill_def clear_bit_def put_free_bits_def

lemma tiny_blocks_inv: "blocks_inv tiny_sbi"
  by code_simp

lemma tiny_inodes_inv: "inodes_inv tiny_sbi"
  by code_simp

lemma tiny_get_3: "get_free_blocks tiny_sbi 3 =
    (4, tiny_sbi\<lparr>bfree_bitmap := [False, True, True, False, False, False, False, False],
                 nr_free_blocks := 2\<rparr>)"
  by (simp add: get_free_blocks_def tiny_sbi_def alloc_eval Let_def)

lemma tiny_get_1: "get_free_inode tiny_sbi =
    (1, tiny_sbi\<lparr>ifree_bitmap := [False, False, False, True], nr_free_inodes := 1\<rparr>)"
  by (simp add: get_free_inode_def tiny_sbi_def alloc_eval Let_def)

text \<open>
  C1. \<open>get_free_blocks\<close> is exact: with a bitmap that agrees with the free counter and block 0 in
  use, a request for \<open>len\<close> blocks returns 0, leaving the superblock as it is, just when no \<open>len\<close>
  consecutive blocks are free; otherwise it returns the lowest start of such a run, takes exactly
  that run out of the free set, lowers the counter by \<open>len\<close> and keeps the invariant.
\<close>

theorem get_free_blocks_exact:
  assumes inv: "blocks_inv sbi" and len: "len \<noteq> 0" and get: "get_free_blocks sbi len = (r, sbi')"
  shows "(r = 0 \<longleftrightarrow> (\<forall>a. \<not> {a ..< a + unat len} \<subseteq> free_blocks sbi))
     \<and> (r = 0 \<longrightarrow> sbi' = sbi)
     \<and> (r \<noteq> 0 \<longrightarrow> range_of r len \<subseteq> free_blocks sbi
          \<and> (\<forall>a < unat r. \<not> {a ..< a + unat len} \<subseteq> free_blocks sbi)
          \<and> free_blocks sbi' = free_blocks sbi - range_of r len
          \<and> nr_free_blocks sbi' = nr_free_blocks sbi - len)
     \<and> blocks_inv sbi'"
proof (cases "r = 0")
  case True
  with ba.get_fail [OF inv _ get [unfolded True]] len inv show ?thesis by simp
next
  case False
  have "\<forall>a < unat r. \<not> {a ..< a + unat len} \<subseteq> free_blocks sbi"
    using get_free_blocks_lowest [OF len get False] by blast
  moreover have "nr_free_blocks sbi' = nr_free_blocks sbi - len"
    using get False by (auto simp: get_free_blocks_def Let_def split: prod.splits if_splits)
  ultimately show ?thesis using ba.get_ok [OF inv _ get False] len False by (auto simp: range_of_def)
qed

theorem get_free_blocks_exact_witness:
  "blocks_inv tiny_sbi \<and> fst (get_free_blocks tiny_sbi 3) = 4
   \<and> range_of 4 3 \<subseteq> free_blocks tiny_sbi \<and> blocks_inv (snd (get_free_blocks tiny_sbi 3))"
  using get_free_blocks_exact [OF tiny_blocks_inv _ tiny_get_3] tiny_blocks_inv by (simp add: tiny_get_3)

text \<open>
  C8. Over any sequence of allocations and of returns of ranges still held, no block is lost,
  invented or handed out twice: the ranges held are pairwise disjoint, none of their blocks is
  free, together with the free blocks they are the blocks that were free at the start, and the
  counter still is the number of set bits.
\<close>

theorem block_history_conserves:
  assumes "block_history s0 s held" and "blocks_inv s0"
  shows "distinct (ranges held) \<and> set (ranges held) \<inter> free_blocks s = {}
     \<and> set (ranges held) \<union> free_blocks s = free_blocks s0
     \<and> unat (nr_free_blocks s) + length (ranges held) = unat (nr_free_blocks s0)"
proof -
  have inv: "history_inv s0 s held" using block_history_inv [OF assms] .
  then have "card (free_blocks s0) = length (ranges held) + card (free_blocks s)"
    by (metis (no_types, lifting) List.finite_set card_Un_disjoint distinct_card finite_free_bits
        free_blocks_def history_inv_def)
  with inv assms(2) show ?thesis
    by (auto simp: history_inv_def blocks_inv_def alloc_inv_def free_blocks_def)
qed

theorem block_history_conserves_witness:
  "\<exists>s. block_history tiny_sbi s [(4, 3)]
     \<and> set (ranges [(4, 3)]) \<union> free_blocks s = free_blocks tiny_sbi \<and> unat (nr_free_blocks s) + 3 = 5"
proof -
  have h: "block_history tiny_sbi (snd (get_free_blocks tiny_sbi 3)) [(4, 3)]"
    using block_history.get [OF block_history.start _ tiny_get_3] by (simp add: tiny_get_3)
  from block_history_conserves [OF h tiny_blocks_inv] h show ?thesis
    by (auto simp: ranges_def tiny_sbi_def)
qed

text \<open>
  C33. \<open>get_free_inode\<close> returns 0 just when no inode is free; otherwise the lowest free inode
  number, which is within the file system and no longer free, and the inode counter goes down by
  one. \<open>put_inode\<close> gives it back: the free set is what it was.
\<close>

theorem get_free_inode_exact:
  assumes inv: "inodes_inv sbi" and get: "get_free_inode sbi = (ino, sbi')"
  shows "(ino = 0 \<longleftrightarrow> free_inodes sbi = {}) \<and> (ino = 0 \<longrightarrow> sbi' = sbi)
     \<and> (ino \<noteq> 0 \<longrightarrow> unat ino = Min (free_inodes sbi) \<and> ino < nr_inodes sbi
          \<and> free_inodes sbi' = free_inodes sbi - {unat ino}
          \<and> free_inodes (put_inode sbi' ino) = free_inodes sbi)
     \<and> inodes_inv sbi'"
proof (cases "ino = 0")
  case True
  have "free_inodes sbi = {}"
    using ia.get_fail [OF inv _ get [unfolded True]] by (force simp: subset_iff)
  with ia.get_fail [OF inv _ get [unfolded True]] inv True show ?thesis by simp
next
  case False
  then obtain bm where g: "get_first_free_bits (ifree_bitmap sbi) (unat (nr_inodes sbi)) 1 = (ino, bm)"
    using get by (auto simp: get_free_inode_def Let_def split: prod.splits if_splits)
  from get_first_free_bits_cases [OF _ _ g] False
  have "first_run (ifree_bitmap sbi) (unat (nr_inodes sbi)) 0 (Suc 0) (unat ino)" by auto
  then have mem: "unat ino \<in> free_inodes sbi" and "\<forall>a \<in> free_inodes sbi. unat ino \<le> a"
    by (auto simp: first_run_def run_free_1 free_inodes_def mem_free_bits not_less [symmetric])
  then have "unat ino = Min (free_inodes sbi)" by (simp add: Min_eqI [symmetric] free_inodes_def)
  moreover have "ino < nr_inodes sbi" using mem by (simp add: free_inodes_def mem_free_bits word_less_nat_alt)
  moreover have "range_of ino 1 = {unat ino}" by (auto simp: range_of_def)
  ultimately show ?thesis
    using ia.get_ok [OF inv _ get False] ia.put_get [OF inv _ get False] False mem by auto
qed

theorem get_free_inode_exact_witness:
  "inodes_inv tiny_sbi \<and> fst (get_free_inode tiny_sbi) = 1
   \<and> free_inodes (put_inode (snd (get_free_inode tiny_sbi)) 1) = free_inodes tiny_sbi"
  using get_free_inode_exact [OF tiny_inodes_inv tiny_get_1] tiny_inodes_inv by (simp add: tiny_get_1)


text \<open>
  Taking from a hint is sound, and complete up to runs that straddle the hint: a non-zero
  result is the start of a run of \<open>len\<close> free bits within the bitmap, exactly these bits are
  cleared; a failure clears nothing and means that no run of \<open>len\<close> free bits lies in the part
  from the hint on or in the part before it.
\<close>

theorem get_free_bits_from_hint_sound:
  assumes "sz < 2 ^ 32" and "len \<noteq> 0" and "\<not> bit_set freemap 0"
    and "get_free_bits_from_hint freemap sz len hint = (r, freemap')"
  shows "if r \<noteq> 0
     then range_of r len \<subseteq> free_bits freemap sz
          \<and> free_bits freemap' sz = free_bits freemap sz - range_of r len
     else freemap' = freemap
          \<and> (\<forall>a. {a ..< a + unat len} \<subseteq> free_bits freemap sz \<longrightarrow>
                a < unat hint \<and> unat hint < a + unat len \<and> unat hint < sz)"
proof -
  from assms(2) have len: "0 < unat len" by (simp add: unat_gt_0)
  from assms(3) len have "\<not> run_free freemap sz 0 (unat len)" by (auto simp: run_free_def)
  with get_free_bits_from_hint_cases [OF assms(1) len assms(4)] show ?thesis
    by (auto simp: run_free_subset [OF len] range_of_def free_bits_clear not_le)
qed

theorem get_free_bits_from_hint_sound_witness:
  "get_free_bits_from_hint (bfree_bitmap tiny_sbi) 8 2 5 =
     (5, [False, True, True, False, True, False, False, False])
   \<and> range_of 5 2 \<subseteq> free_bits (bfree_bitmap tiny_sbi) 8
   \<and> get_free_bits_from_hint (bfree_bitmap tiny_sbi) 8 3 5 = (0, bfree_bitmap tiny_sbi)
   \<and> {4 ..< 4 + 3} \<subseteq> free_bits (bfree_bitmap tiny_sbi) 8"
proof -
  have a: "get_free_bits_from_hint (bfree_bitmap tiny_sbi) 8 2 5 =
     (5, [False, True, True, False, True, False, False, False])"
    and b: "get_free_bits_from_hint (bfree_bitmap tiny_sbi) 8 3 5 = (0, bfree_bitmap tiny_sbi)"
    by (simp_all add: get_free_bits_from_hint_def tiny_sbi_def alloc_eval Let_def)
  from get_free_bits_from_hint_sound [OF _ _ _ a] have "range_of 5 2 \<subseteq> free_bits (bfree_bitmap tiny_sbi) 8"
    by (simp add: tiny_sbi_def bit_set_def)
  moreover have "{4 ..< 4 + 3} \<subseteq> free_bits (bfree_bitmap tiny_sbi) 8" by code_simp
  ultimately show ?thesis using a b by blast
qed

text \<open>
  C39. \<open>put_free_bits\<close> refuses a range whose last bit is beyond \<open>size\<close>, but accepts one whose last
  bit is \<open>size\<close> itself, one bit past the end: returning the block numbered \<open>nr_blocks\<close> raises the
  free counter without making any block free, and the bitmap and the counter disagree from then on.
\<close>

theorem put_blocks_past_end:
  assumes inv: "blocks_inv sbi"
  shows "free_blocks (put_blocks sbi (nr_blocks sbi) 1) = free_blocks sbi
     \<and> nr_free_blocks (put_blocks sbi (nr_blocks sbi) 1) = nr_free_blocks sbi + 1
     \<and> \<not> blocks_inv (put_blocks sbi (nr_blocks sbi) 1)"
proof -
  let ?s = "put_blocks sbi (nr_blocks sbi) 1"
  have bm: "?s = sbi\<lparr>bfree_bitmap := bitmap_set (bfree_bitmap sbi) (unat (nr_blocks sbi)) 1,
      nr_free_blocks := nr_free_blocks sbi + 1\<rparr>"
    by (simp add: put_blocks_def put_free_bits_def)
  have free: "free_blocks ?s = free_blocks sbi"
    by (auto simp: bm free_blocks_def mem_free_bits bit_set_fill)
  moreover have "nr_free_blocks sbi + 1 \<noteq> nr_free_blocks sbi" by simp
  then have "\<not> blocks_inv ?s"
    using inv free by (auto simp: blocks_inv_def alloc_inv_def free_blocks_def bm word_unat_eq_iff)
  ultimately show ?thesis by (simp add: bm)
qed

theorem put_blocks_past_end_witness:
  "blocks_inv tiny_sbi \<and> \<not> blocks_inv (put_blocks tiny_sbi (nr_blocks tiny_sbi) 1)"
  using put_blocks_past_end [OF tiny_blocks_inv] tiny_blocks_inv by blast




end
