(* ===== verification/Extent.thy ===== *)
theory Extent
  imports Ondisk
begin

text \<open>
  The extent index of a file, \<^verbatim>\<open>src/extent.c\<close>: counting and validating the used extents
  and the binary search for the extent that holds a block. The used extents are those before
  the first one with \<open>ee_start = 0\<close>. Positions in the index are natural numbers (there are 170
  of them); block numbers stay 32 bits wide and \<open>ee_block + ee_len\<close> wraps as in the code.
\<close>

section \<open>The operations\<close>

primrec count_used :: "lolelffs_extent list \<Rightarrow> nat" where
  "count_used [] = 0"
| "count_used (e # es) = (if ee_start e = 0 then 0 else Suc (count_used es))"

definition lolelffs_count_extents :: "lolelffs_file_ei_block \<Rightarrow> nat" where
  "lolelffs_count_extents index = count_used (take LOLELFFS_MAX_EXTENTS (extents index))"

text \<open>The loop of \<open>lolelffs_validate_extents\<close> over the counted extents.\<close>

primrec validate_loop :: "lolelffs_extent list \<Rightarrow> u32 \<Rightarrow> errno + unit" where
  "validate_loop [] expected_block = Inr ()"
| "validate_loop (ext # exts) expected_block =
     (let max_blocks = (if and (ee_flags ext) LOLELFFS_EXT_HAS_META \<noteq> 0
                        then LOLELFFS_MAX_BLOCKS_PER_EXTENT
                        else LOLELFFS_MAX_BLOCKS_PER_EXTENT_LARGE)
      in if ee_len ext = 0 \<or> max_blocks < ee_len ext then Inl EINVAL
         else if ee_block ext \<noteq> expected_block then Inl EINVAL
         else if ee_start ext = 0 then Inl EINVAL
         else validate_loop exts (expected_block + ee_len ext))"

definition lolelffs_validate_extents :: "lolelffs_file_ei_block \<Rightarrow> errno + unit" where
  "lolelffs_validate_extents index =
     validate_loop (take (lolelffs_count_extents index) (extents index)) 0"

primrec total_loop :: "lolelffs_extent list \<Rightarrow> u32 \<Rightarrow> u32" where
  "total_loop [] acc = acc"
| "total_loop (e # es) acc = (if ee_start e = 0 then acc else total_loop es (acc + ee_len e))"

definition lolelffs_extents_total_blocks :: "lolelffs_file_ei_block \<Rightarrow> u32" where
  "lolelffs_extents_total_blocks index = total_loop (take LOLELFFS_MAX_EXTENTS (extents index)) 0"

text \<open>The loop of the binary search; \<open>None\<close> when it ends without having found the block.\<close>

function bsearch :: "lolelffs_extent list \<Rightarrow> u32 \<Rightarrow> nat \<Rightarrow> nat \<Rightarrow> nat option" where
  "bsearch es iblock left right =
     (if left < right then
        (let mid = left + (right - left) div 2;
             block = ee_block (es ! mid);
             len = ee_len (es ! mid)
         in if iblock < block then bsearch es iblock left mid
            else if block + len \<le> iblock then bsearch es iblock (mid + 1) right
            else Some mid)
      else None)"
  by pat_completeness auto
termination
  by (relation "measure (\<lambda>(es, iblock, left, right). right - left)") auto

declare bsearch.simps [simp del]

definition lolelffs_ext_search :: "lolelffs_file_ei_block \<Rightarrow> u32 \<Rightarrow> u32" where
  "lolelffs_ext_search index iblock =
     (let nr_extents = lolelffs_count_extents index
      in if nr_extents = 0 then 0
         else
           (case bsearch (extents index) iblock 0 nr_extents of
              Some mid \<Rightarrow> of_nat mid
            | None \<Rightarrow> if nr_extents < LOLELFFS_MAX_EXTENTS then of_nat nr_extents else - 1))"

definition lolelffs_ext_search_with_hint :: "lolelffs_file_ei_block \<Rightarrow> u32 \<Rightarrow> u32 \<Rightarrow> u32" where
  "lolelffs_ext_search_with_hint index iblock hint =
     (let nr_extents = lolelffs_count_extents index;
          within = (\<lambda>i. ee_block (extents index ! i) \<le> iblock
                        \<and> iblock < ee_block (extents index ! i) + ee_len (extents index ! i))
      in if nr_extents = 0 then 0
         else if unat hint < nr_extents \<and> within (unat hint) then hint
         else if unat hint < nr_extents \<and> unat hint + 1 < nr_extents \<and> within (unat hint + 1) then hint + 1
         else lolelffs_ext_search index iblock)"

section \<open>Ordered extents\<close>

text \<open>
  \<open>covers e b\<close>: the extent holds the logical block \<open>b\<close>, in unbounded arithmetic.
  \<open>ordered es\<close>: the extents are in increasing order, do not overlap, and none wraps around.
\<close>

definition covers :: "lolelffs_extent \<Rightarrow> u32 \<Rightarrow> bool" where
  "covers e b \<longleftrightarrow> unat (ee_block e) \<le> unat b \<and> unat b < unat (ee_block e) + unat (ee_len e)"

definition ext_end :: "lolelffs_extent \<Rightarrow> nat" where
  "ext_end e = unat (ee_block e) + unat (ee_len e)"

fun ordered :: "lolelffs_extent list \<Rightarrow> bool" where
  "ordered [] = True"
| "ordered [e] = (ext_end e < 2 ^ 32)"
| "ordered (e # f # es) = (ext_end e \<le> unat (ee_block f) \<and> ext_end e < 2 ^ 32 \<and> ordered (f # es))"

definition used_extents :: "lolelffs_file_ei_block \<Rightarrow> lolelffs_extent list" where
  "used_extents index = take (lolelffs_count_extents index) (extents index)"

text \<open>What the search promises: the position of the extent that covers the block, if there is one.\<close>

definition search_spec :: "lolelffs_extent list \<Rightarrow> u32 \<Rightarrow> nat option" where
  "search_spec es b = find (\<lambda>i. covers (es ! i) b) [0..<length es]"

lemma count_used_le: "count_used es \<le> length es"
  by (induction es) auto

lemma count_used_nth: "i < count_used es \<Longrightarrow> ee_start (es ! i) \<noteq> 0"
  by (induction es arbitrary: i) (auto simp: nth_Cons split: if_splits nat.splits)

lemma count_used_stop: "count_used es < length es \<Longrightarrow> ee_start (es ! count_used es) = 0"
  by (induction es) auto

lemma count_extents_le: "lolelffs_count_extents index \<le> LOLELFFS_MAX_EXTENTS"
  using count_used_le [of "take LOLELFFS_MAX_EXTENTS (extents index)"]
  by (simp add: lolelffs_count_extents_def)

lemma count_extents_length: "lolelffs_count_extents index \<le> length (extents index)"
  using count_used_le [of "take LOLELFFS_MAX_EXTENTS (extents index)"]
  by (simp add: lolelffs_count_extents_def)

lemma length_used [simp]: "length (used_extents index) = lolelffs_count_extents index"
  by (simp add: used_extents_def count_extents_length min_absorb2)

lemma nth_used [simp]: "i < lolelffs_count_extents index \<Longrightarrow> used_extents index ! i = extents index ! i"
  by (simp add: used_extents_def)

lemma used_start: "i < lolelffs_count_extents index \<Longrightarrow> ee_start (extents index ! i) \<noteq> 0"
  using count_used_nth [of i "take LOLELFFS_MAX_EXTENTS (extents index)"]
    count_extents_le [of index]
  by (simp add: lolelffs_count_extents_def)

lemma used_start_mem: "e \<in> set (used_extents index) \<Longrightarrow> ee_start e \<noteq> 0"
  by (auto simp: in_set_conv_nth used_start)

lemma ordered_tl: "ordered (e # es) \<Longrightarrow> ordered es"
  by (cases es) auto

lemma ordered_hd: "ordered (e # es) \<Longrightarrow> ext_end e < 2 ^ 32"
  by (cases es) auto

lemma ordered_hd_le: "ordered (e # es) \<Longrightarrow> f \<in> set es \<Longrightarrow> ext_end e \<le> unat (ee_block f)"
proof (induction es arbitrary: e)
  case (Cons g es)
  then have "ext_end e \<le> unat (ee_block g)" "ordered (g # es)" by auto
  moreover have "unat (ee_block g) \<le> ext_end g" by (simp add: ext_end_def)
  ultimately show ?case using Cons.IH [of g] Cons.prems(2) by auto
qed simp

lemma ordered_nth: "ordered es \<Longrightarrow> i < j \<Longrightarrow> j < length es \<Longrightarrow> ext_end (es ! i) \<le> unat (ee_block (es ! j))"
proof (induction es arbitrary: i j)
  case (Cons e es)
  obtain j' where j: "j = Suc j'" using Cons.prems(2) by (cases j) auto
  show ?case
  proof (cases i)
    case 0
    with Cons.prems j show ?thesis by (auto intro: ordered_hd_le)
  next
    case (Suc i')
    with Cons j show ?thesis using ordered_tl [of e es] by auto
  qed
qed simp

lemma ordered_end: "ordered es \<Longrightarrow> e \<in> set es \<Longrightarrow> ext_end e < 2 ^ 32"
proof (induction es)
  case (Cons f es)
  then show ?case using ordered_hd [of f es] ordered_tl [of f es] by auto
qed simp

text \<open>The comparisons of the code, in machine arithmetic, decide \<open>covers\<close> for such extents.\<close>

lemma covers_word:
  assumes "ext_end e < 2 ^ 32"
  shows "covers e b \<longleftrightarrow> ee_block e \<le> b \<and> b < ee_block e + ee_len e"
    and "ee_block e + ee_len e \<le> b \<longleftrightarrow> ext_end e \<le> unat b"
  using assms by (simp_all add: covers_def ext_end_def word_le_nat_alt word_less_nat_alt unat_add_u32)

lemma covers_unique:
  "ordered es \<Longrightarrow> i < length es \<Longrightarrow> j < length es \<Longrightarrow> covers (es ! i) b \<Longrightarrow> covers (es ! j) b \<Longrightarrow> i = j"
proof (rule ccontr)
  assume *: "ordered es" "i < length es" "j < length es" "covers (es ! i) b" "covers (es ! j) b" "i \<noteq> j"
  then consider "i < j" | "j < i" by linarith
  then show False
    using * ordered_nth [of es i j] ordered_nth [of es j i]
    by cases (auto simp: covers_def ext_end_def)
qed

section \<open>The binary search finds the extent\<close>

lemma bsearch_correct:
  assumes ord: "ordered es" and "right \<le> length es"
    and "\<And>i. i < length es \<Longrightarrow> covers (es ! i) b \<Longrightarrow> left \<le> i \<and> i < right"
  shows "case bsearch es b left right of
      Some m \<Rightarrow> m < length es \<and> covers (es ! m) b
    | None \<Rightarrow> \<forall>i < length es. \<not> covers (es ! i) b"
  using assms
proof (induction es b left right rule: bsearch.induct)
  case (1 es b left right)
  define mid where "mid = left + (right - left) div 2"
  show ?case
  proof (cases "left < right")
    case False
    then have "\<not> covers (es ! i) b" if "i < length es" for i using 1(5) [OF that] by linarith
    with False show ?thesis by (simp add: bsearch.simps [of es b left right])
  next
    case True
    then have m: "left \<le> mid" "mid < right" "mid < length es" using 1(4) by (auto simp: mid_def)
    have ord: "ordered es" by (rule 1(3))
    have e: "ext_end (es ! mid) < 2 ^ 32" by (rule ordered_end [OF ord nth_mem [OF m(3)]])
    consider (low) "b < ee_block (es ! mid)" | (high) "ext_end (es ! mid) \<le> unat b"
      "\<not> b < ee_block (es ! mid)" | (hit) "covers (es ! mid) b"
      by (force simp: covers_def ext_end_def word_less_nat_alt)
    then show ?thesis
    proof cases
      case low
      have "left \<le> i \<and> i < mid" if "i < length es" "covers (es ! i) b" for i
        using 1(5) [OF that] that low ordered_nth [OF ord, of mid i]
        by (cases "mid < i"; cases "i = mid") (auto simp: covers_def ext_end_def word_less_nat_alt)
      moreover have "bsearch es b left right = bsearch es b left mid"
        using low True by (simp add: bsearch.simps [of es b left right] mid_def [symmetric] Let_def)
      ultimately show ?thesis using 1(1) [OF True mid_def refl refl low ord] m by simp
    next
      case high
      have "mid + 1 \<le> i \<and> i < right" if "i < length es" "covers (es ! i) b" for i
        using 1(5) [OF that] that high(1) ordered_nth [OF ord, of i mid] m
        by (cases "i < mid"; cases "i = mid") (auto simp: covers_def ext_end_def)
      moreover have w: "ee_block (es ! mid) + ee_len (es ! mid) \<le> b"
        using covers_word(2) [OF e] high(1) by simp
      then have "bsearch es b left right = bsearch es b (mid + 1) right"
        using high True by (simp add: bsearch.simps [of es b left right] mid_def [symmetric] Let_def)
      ultimately show ?thesis using 1(2) [OF True mid_def refl refl high(2) w ord 1(4)] by simp
    next
      case hit
      with covers_word [OF e, of b] have "\<not> b < ee_block (es ! mid)" "\<not> ee_block (es ! mid) + ee_len (es ! mid) \<le> b"
        by auto
      with True have "bsearch es b left right = Some mid"
        by (simp add: bsearch.simps [of es b left right] mid_def [symmetric] Let_def)
      with hit m show ?thesis by simp
    qed
  qed
qed

lemma search_spec_Some:
  "search_spec es b = Some m \<Longrightarrow> m < length es \<and> covers (es ! m) b"
  by (auto simp: search_spec_def find_Some_iff)

lemma search_spec_None: "search_spec es b = None \<longleftrightarrow> (\<forall>i < length es. \<not> covers (es ! i) b)"
  by (auto simp: search_spec_def find_None_iff)

lemma search_spec_unique:
  "ordered es \<Longrightarrow> m < length es \<Longrightarrow> covers (es ! m) b \<Longrightarrow> search_spec es b = Some m"
  by (cases "search_spec es b") (auto simp: search_spec_None dest: search_spec_Some covers_unique)

lemma bsearch_spec:
  assumes "ordered es"
  shows "bsearch es b 0 (length es) = search_spec es b"
proof (cases "bsearch es b 0 (length es)")
  case None
  then show ?thesis using bsearch_correct [OF assms, of "length es" b 0] by (simp add: search_spec_None [symmetric])
next
  case (Some m)
  then show ?thesis
    using bsearch_correct [OF assms, of "length es" b 0] search_spec_unique [OF assms, of m b] by simp
qed

lemma bsearch_cong:
  assumes "\<And>i. i < n \<Longrightarrow> es ! i = es' ! i" and "right \<le> n"
  shows "bsearch es b left right = bsearch es' b left right"
  using assms
proof (induction es b left right rule: bsearch.induct)
  case (1 es b left right)
  define mid where "mid = left + (right - left) div 2"
  show ?case
  proof (cases "left < right")
    case True
    then have m: "mid < n" using 1(4) by (simp add: mid_def)
    then have "es ! mid = es' ! mid" "mid \<le> n" using 1(3) by simp_all
    with True 1(1) [OF True mid_def refl refl _ 1(3)] 1(2) [OF True mid_def refl refl _ _ 1(3) 1(4)]
    show ?thesis
      by (simp add: bsearch.simps [of es b left right] bsearch.simps [of es' b left right]
          mid_def [symmetric] Let_def)
  qed (simp add: bsearch.simps [of es b left right] bsearch.simps [of es' b left right])
qed

lemma bsearch_used:
  "bsearch (extents index) b 0 (lolelffs_count_extents index) =
   bsearch (used_extents index) b 0 (lolelffs_count_extents index)"
  by (rule bsearch_cong [where n = "lolelffs_count_extents index"]) simp_all

lemma ext_search_ordered:
  assumes "ordered (used_extents index)"
  shows "lolelffs_ext_search index b =
    (case search_spec (used_extents index) b of
       Some m \<Rightarrow> of_nat m
     | None \<Rightarrow> if lolelffs_count_extents index < LOLELFFS_MAX_EXTENTS
              then of_nat (lolelffs_count_extents index) else - 1)"
proof (cases "lolelffs_count_extents index = 0")
  case True
  then have "search_spec (used_extents index) b = None" by (simp add: search_spec_None)
  with True show ?thesis by (simp add: lolelffs_ext_search_def max_extents)
next
  case False
  with bsearch_spec [OF assms, of b] show ?thesis
    by (simp add: lolelffs_ext_search_def bsearch_used Let_def)
qed

section \<open>Validated indexes\<close>

definition ext_max :: "lolelffs_extent \<Rightarrow> u32" where
  "ext_max e = (if and (ee_flags e) LOLELFFS_EXT_HAS_META \<noteq> 0
     then LOLELFFS_MAX_BLOCKS_PER_EXTENT else LOLELFFS_MAX_BLOCKS_PER_EXTENT_LARGE)"

text \<open>
  The specification: starting at \<open>n\<close>, the extents follow one another without a gap, and each has
  a length between 1 and the limit of its kind.
\<close>

fun laid_out :: "nat \<Rightarrow> lolelffs_extent list \<Rightarrow> bool" where
  "laid_out n [] = True"
| "laid_out n (e # es) \<longleftrightarrow> unat (ee_block e) = n \<and> 1 \<le> unat (ee_len e) \<and> ee_len e \<le> ext_max e
     \<and> laid_out (n + unat (ee_len e)) es"

definition total_len :: "lolelffs_extent list \<Rightarrow> nat" where
  "total_len es = sum_list (map (\<lambda>e. unat (ee_len e)) es)"

lemma ext_max_le: "unat (ext_max e) \<le> 524288"
  by (simp add: ext_max_def LOLELFFS_MAX_BLOCKS_PER_EXTENT_def LOLELFFS_MAX_BLOCKS_PER_EXTENT_LARGE_def)

lemma laid_out_len: "laid_out n es \<Longrightarrow> e \<in> set es \<Longrightarrow> unat (ee_len e) \<le> 524288"
proof (induction es arbitrary: n)
  case (Cons f es)
  then show ?case using ext_max_le [of f] by (auto simp: word_le_nat_alt)
qed simp

lemma validate_loop_iff:
  assumes "unat n + 524288 * length es < 2 ^ 32" and "\<And>e. e \<in> set es \<Longrightarrow> ee_start e \<noteq> 0"
  shows "validate_loop es n = (if laid_out (unat n) es then Inr () else Inl EINVAL)"
  using assms
proof (induction es arbitrary: n)
  case (Cons e es)
  have fold: "(if and (ee_flags e) LOLELFFS_EXT_HAS_META \<noteq> 0 then LOLELFFS_MAX_BLOCKS_PER_EXTENT
      else LOLELFFS_MAX_BLOCKS_PER_EXTENT_LARGE) = ext_max e"
    by (simp add: ext_max_def)
  have pos: "ee_len e = 0 \<longleftrightarrow> \<not> 1 \<le> unat (ee_len e)" by (auto simp: unat_eq_zero not_less_eq_eq Suc_le_eq)
  show ?case
  proof (cases "ee_len e \<le> ext_max e")
    case True
    then have "unat (ee_len e) \<le> 524288" using ext_max_le [of e] by (simp add: word_le_nat_alt)
    with Cons.prems(1) have "unat (n + ee_len e) = unat n + unat (ee_len e)"
      and "unat (n + ee_len e) + 524288 * length es < 2 ^ 32"
      by (simp_all add: unat_add_u32)
    moreover from True have "(ext_max e < ee_len e) = False" by simp
    ultimately show ?thesis
      using Cons True by (simp add: fold Let_def pos not_le word_unat_eq_iff [of "ee_block e"])
  next
    case False
    then show ?thesis by (simp add: fold Let_def not_le)
  qed
qed simp

lemma laid_out_ordered:
  "laid_out n es \<Longrightarrow> n + 524288 * length es < 2 ^ 32 \<Longrightarrow> ordered es"
proof (induction es arbitrary: n rule: ordered.induct)
  case (2 e)
  then show ?case using laid_out_len [of n "[e]" e] by (simp add: ext_end_def)
next
  case (3 e f es)
  have "unat (ee_len e) \<le> 524288" using laid_out_len [OF 3(2)] by simp
  with 3 show ?case by (auto simp: ext_end_def)
qed simp

lemma laid_out_covers:
  "laid_out n es \<Longrightarrow> (\<exists>i < length es. covers (es ! i) b) \<longleftrightarrow> n \<le> unat b \<and> unat b < n + total_len es"
proof (induction es arbitrary: n)
  case (Cons e es)
  have "(\<exists>i < length (e # es). covers ((e # es) ! i) b) \<longleftrightarrow> covers e b \<or> (\<exists>i < length es. covers (es ! i) b)"
    by (auto simp: less_Suc_eq_0_disj)
  moreover have "covers e b \<longleftrightarrow> n \<le> unat b \<and> unat b < n + unat (ee_len e)"
    using Cons.prems by (simp add: covers_def)
  moreover have "total_len (e # es) = unat (ee_len e) + total_len es" by (simp add: total_len_def)
  ultimately show ?case using Cons.IH [of "n + unat (ee_len e)"] Cons.prems by auto
qed (simp add: total_len_def)

lemma total_loop_eq:
  "total_loop es acc = acc + of_nat (total_len (take (count_used es) es))"
  by (induction es arbitrary: acc) (auto simp: total_len_def)

lemma used_extents_eq: "used_extents index =
    take (count_used (take LOLELFFS_MAX_EXTENTS (extents index))) (take LOLELFFS_MAX_EXTENTS (extents index))"
  using count_extents_le [of index] by (simp add: used_extents_def lolelffs_count_extents_def min_absorb1)

lemma total_len_le: "(\<And>e. e \<in> set es \<Longrightarrow> unat (ee_len e) \<le> m) \<Longrightarrow> total_len es \<le> m * length es"
  by (induction es) (auto simp: total_len_def add_mono)

lemma used_bound: "524288 * length (used_extents index) < 2 ^ 32"
  using count_extents_le [of index] by (simp add: max_extents)



lemma validate_iff:
  "lolelffs_validate_extents index = (if laid_out 0 (used_extents index) then Inr () else Inl EINVAL)"
proof -
  have "lolelffs_validate_extents index = validate_loop (used_extents index) 0"
    by (simp add: lolelffs_validate_extents_def used_extents_def)
  also have "\<dots> = (if laid_out (unat (0 :: u32)) (used_extents index) then Inr () else Inl EINVAL)"
    by (rule validate_loop_iff) (use used_bound [of index] in \<open>auto dest: used_start_mem\<close>)
  finally show ?thesis by simp
qed

lemma validated_ordered: "laid_out 0 (used_extents index) \<Longrightarrow> ordered (used_extents index)"
  using laid_out_ordered [of 0 "used_extents index"] used_bound [of index] by simp


section \<open>What the extent index guarantees\<close>

text \<open>An index of two extents, blocks 0-7 at 100 and 8-11 at 300, for the witnesses.\<close>

definition tiny_index :: lolelffs_file_ei_block where
  "tiny_index = \<lparr>nr_files = 0,
     extents = [zero_extent\<lparr>ee_len := 8, ee_start := 100\<rparr>,
                zero_extent\<lparr>ee_block := 8, ee_len := 4, ee_start := 300\<rparr>] @ replicate 168 zero_extent,
     ei_tail = replicate 12 0\<rparr>"

lemma count_used_replicate: "ee_start e = 0 \<Longrightarrow> count_used (replicate n e) = 0"
  by (cases n) auto

lemma tiny_count: "lolelffs_count_extents tiny_index = 2"
  by (simp add: lolelffs_count_extents_def tiny_index_def max_extents zero_extent_def count_used_replicate)

lemma tiny_used: "used_extents tiny_index =
    [zero_extent\<lparr>ee_len := 8, ee_start := 100\<rparr>, zero_extent\<lparr>ee_block := 8, ee_len := 4, ee_start := 300\<rparr>]"
  by (simp add: used_extents_def tiny_count) (simp add: tiny_index_def)

lemma tiny_ordered: "ordered (used_extents tiny_index)"
  by (simp add: tiny_used ext_end_def zero_extent_def)

lemma tiny_search: "search_spec (used_extents tiny_index) 9 = Some 1"
  by (simp add: tiny_used search_spec_def covers_def zero_extent_def upt_rec)

text \<open>
  C2. The binary search agrees with the linear specification: on an index whose used extents are
  in order and do not overlap, \<open>lolelffs_ext_search\<close> returns the position of the one extent that
  covers the block; if there is none, the first unused position, or -1 when all are used.
\<close>

theorem ext_search_correct:
  assumes "ordered (used_extents index)"
  shows "lolelffs_ext_search index iblock =
    (case search_spec (used_extents index) iblock of
       Some m \<Rightarrow> of_nat m
     | None \<Rightarrow> if lolelffs_count_extents index < LOLELFFS_MAX_EXTENTS
              then of_nat (lolelffs_count_extents index) else - 1)"
  by (rule ext_search_ordered [OF assms])

theorem ext_search_correct_witness:
  "ordered (used_extents tiny_index) \<and> lolelffs_ext_search tiny_index 9 = 1"
  using ext_search_correct [OF tiny_ordered, of 9] tiny_ordered by (simp add: tiny_search)

text \<open>
  C34. The search with a locality hint is an optimisation: on an ordered index it returns what the
  plain search returns, whatever the hint.
\<close>

theorem ext_search_with_hint_eq:
  assumes ord: "ordered (used_extents index)"
  shows "lolelffs_ext_search_with_hint index iblock hint = lolelffs_ext_search index iblock"
proof -
  have hit: "lolelffs_ext_search index iblock = of_nat i"
    if "i < lolelffs_count_extents index" "ee_block (extents index ! i) \<le> iblock"
      "iblock < ee_block (extents index ! i) + ee_len (extents index ! i)" for i
  proof -
    have "ext_end (used_extents index ! i) < 2 ^ 32"
      using ordered_end [OF ord nth_mem, of i] that(1) by simp
    with that have "covers (used_extents index ! i) iblock" by (simp add: covers_word)
    with search_spec_unique [OF ord] that(1) ext_search_ordered [OF ord] show ?thesis by simp
  qed
  show ?thesis
    using hit [of "unat hint"] hit [of "unat hint + 1"]
    by (auto simp: lolelffs_ext_search_with_hint_def Let_def lolelffs_ext_search_def [of index iblock])
qed

theorem ext_search_with_hint_eq_witness:
  "lolelffs_ext_search_with_hint tiny_index 9 0 = 1 \<and> ordered (used_extents tiny_index)"
  using ext_search_with_hint_eq [OF tiny_ordered, of 9 0] ext_search_ordered [OF tiny_ordered, of 9] tiny_ordered
  by (simp add: tiny_search)

text \<open>
  \<open>lolelffs_validate_extents\<close> accepts exactly the indexes whose used extents are laid out from
  logical block 0 without gaps, each of a length between 1 and the limit of its kind, and it
  refuses every other index with EINVAL. The 32-bit running block number does not wrap.
\<close>

theorem validate_extents_iff:
  "lolelffs_validate_extents index = (if laid_out 0 (used_extents index) then Inr () else Inl EINVAL)"
  by (rule validate_iff)




end
