(* ===== verification/Vfs.thy ===== *)
theory Vfs
  imports Bitmap Extent
begin

text \<open>
  The state the kernel module works on, and the way between an inode in memory and its entry in
  the inode store: \<open>LOLELFFS_SB_BREAD\<close> (\<^verbatim>\<open>src/lolelffs.h\<close>), \<open>lolelffs_iget\<close>
  (\<^verbatim>\<open>src/inode.c\<close>) and \<open>lolelffs_write_inode\<close> (\<^verbatim>\<open>src/super.c\<close>).

  \<open>blocks\<close> is the buffer cache: what a buffer of that sector holds, so a store to
  \<^verbatim>\<open>bh->b_data\<close> is a change of \<open>blocks\<close> seen by every later \<open>sb_bread\<close>, marked
  dirty or not. \<open>readable\<close> says which sectors \<open>sb_bread\<close> succeeds on. \<open>icache\<close> is the
  kernel's inode cache, \<open>mem\<close> the outcomes of the coming memory allocations (success when it has
  run out), \<open>slab_ei\<close> and \<open>slab_data\<close> what the memory of a new inode holds before the code
  sets it, \<open>now\<close> the current time in seconds. Pointers to inodes are inode numbers. Reference
  counts and the dentry cache are the kernel's and are not modelled.
\<close>

section \<open>Inodes in memory\<close>

datatype inode_ops = Inode_ops | Symlink_ops
datatype file_ops = No_fops | Dir_fops | File_fops

record vinode =
  vi_mode :: u16
  vi_uid :: u32
  vi_gid :: u32
  vi_size :: u64
  vi_ctime :: u64
  vi_atime :: u64
  vi_mtime :: u64
  vi_blocks :: u64
  vi_nlink :: u32
  vi_op :: inode_ops
  vi_fop :: file_ops
  vi_link :: bool
  vi_dirty :: bool
  ci_ei_block :: u32
  ci_xattr_block :: u32
  ci_i_data :: bytes

definition S_IFMT :: u16 where "S_IFMT = 0xF000"
definition S_IFDIR :: u16 where "S_IFDIR = 0x4000"
definition S_IFREG :: u16 where "S_IFREG = 0x8000"
definition S_IFLNK :: u16 where "S_IFLNK = 0xA000"
definition S_IRWXUGO :: u16 where "S_IRWXUGO = 0x01FF"

definition S_ISDIR :: "u16 \<Rightarrow> bool" where "S_ISDIR m \<longleftrightarrow> m AND S_IFMT = S_IFDIR"
definition S_ISREG :: "u16 \<Rightarrow> bool" where "S_ISREG m \<longleftrightarrow> m AND S_IFMT = S_IFREG"
definition S_ISLNK :: "u16 \<Rightarrow> bool" where "S_ISLNK m \<longleftrightarrow> m AND S_IFMT = S_IFLNK"

lemma S_IS_exclusive: "S_ISDIR m \<Longrightarrow> \<not> S_ISREG m" "S_ISDIR m \<Longrightarrow> \<not> S_ISLNK m" "S_ISREG m \<Longrightarrow> \<not> S_ISLNK m"
  by (simp_all add: S_ISDIR_def S_ISREG_def S_ISLNK_def S_IFDIR_def S_IFREG_def S_IFLNK_def)

section \<open>The state\<close>

record fs =
  blocks :: "nat \<Rightarrow> bytes"
  readable :: "nat \<Rightarrow> bool"
  sbi :: sb_info
  icache :: "u32 \<Rightarrow> vinode option"
  mem :: "bool list"
  slab_ei :: u32
  slab_data :: bytes
  now :: u64

text \<open>
  The sector of a block number: the block offset of the file system is added. In \<open>sync_fs\<close>
  and \<open>fill_super\<close> the number goes through an \<open>int\<close>, which sign-extends from \<open>2 ^ 31\<close> on.
\<close>

definition sector :: "fs \<Rightarrow> u32 \<Rightarrow> nat" where
  "sector s b = unat b + fs_offset (sbi s)"

definition int_sector :: "fs \<Rightarrow> u32 \<Rightarrow> nat" where
  "int_sector s b = (if unat b < 2 ^ 31 then sector s b
     else unat (signed b + of_nat (fs_offset (sbi s)) :: u64))"

definition store :: "fs \<Rightarrow> nat \<Rightarrow> bytes \<Rightarrow> fs" where
  "store s k bs = s\<lparr>blocks := (blocks s)(k := bs)\<rparr>"

text \<open>The structures the code casts a buffer to.\<close>

definition ei_at :: "fs \<Rightarrow> nat \<Rightarrow> lolelffs_file_ei_block" where
  "ei_at s k = dec_ei (blocks s k)"

definition put_ei :: "fs \<Rightarrow> nat \<Rightarrow> lolelffs_file_ei_block \<Rightarrow> fs" where
  "put_ei s k x = store s k (enc_ei x)"

definition dir_at :: "fs \<Rightarrow> nat \<Rightarrow> lolelffs_dir_block" where
  "dir_at s k = dec_dir (blocks s k)"

definition put_dir :: "fs \<Rightarrow> nat \<Rightarrow> lolelffs_dir_block \<Rightarrow> fs" where
  "put_dir s k x = store s k (enc_dir x)"

definition zero_block :: bytes where
  "zero_block = replicate LOLELFFS_BLOCK_SIZE 0"

definition zero_ei :: lolelffs_file_ei_block where
  "zero_ei = \<lparr>nr_files = 0, extents = replicate LOLELFFS_MAX_EXTENTS zero_extent, ei_tail = replicate 12 0\<rparr>"

definition zero_dir :: lolelffs_dir_block where
  "zero_dir = \<lparr>files = replicate LOLELFFS_FILES_PER_BLOCK zero_file, dir_tail = replicate 196 0\<rparr>"

lemma enc_zero_extent: "enc_extent zero_extent = replicate 24 0"
  by (simp add: enc_extent_def zero_extent_def enc_word_0 numeral_eq_Suc)

lemma enc_zero_ei: "enc_ei zero_ei = zero_block"
  by (simp add: enc_ei_def zero_ei_def enc_word_0 enc_array_zero [where enc = enc_extent, OF enc_zero_extent] zero_block_def const_values
      flip: replicate_add)

lemma enc_zero_file: "enc_file zero_file = replicate 260 0"
  by (simp only: enc_file_def zero_file_def lolelffs_file.simps enc_word_0 size_defs replicate_add [symmetric]) simp

lemma enc_zero_dir: "enc_dir zero_dir = zero_block"
  by (simp add: enc_dir_def zero_dir_def enc_array_zero [where enc = enc_file, OF enc_zero_file] zero_block_def const_values
      flip: replicate_add)

lemma dec_zero_dir: "dec_dir zero_block = zero_dir"
  unfolding enc_zero_dir [symmetric]
  by (rule dic.dec_enc) (simp add: wf_dir_def zero_dir_def list_all_iff wf_file_def zero_file_def)

lemma dec_zero_ei: "dec_ei zero_block = zero_ei"
  unfolding enc_zero_ei [symmetric] by (rule eic.dec_enc) (simp add: wf_ei_def zero_ei_def)


definition inode_of :: "fs \<Rightarrow> u32 \<Rightarrow> vinode" where
  "inode_of s ino = the (icache s ino)"

definition put_vinode :: "fs \<Rightarrow> u32 \<Rightarrow> vinode \<Rightarrow> fs" where
  "put_vinode s ino i = s\<lparr>icache := (icache s)(ino := Some i)\<rparr>"

text \<open>One memory allocation: whether it succeeds.\<close>

definition kmalloc :: "fs \<Rightarrow> bool \<times> fs" where
  "kmalloc s = (case mem s of [] \<Rightarrow> (True, s) | ok # rest \<Rightarrow> (ok, s\<lparr>mem := rest\<rparr>))"

section \<open>Reading an inode\<close>

definition istore_sector :: "fs \<Rightarrow> u32 \<Rightarrow> nat" where
  "istore_sector s ino = unat ino div LOLELFFS_INODES_PER_BLOCK + 1 + fs_offset (sbi s)"

definition istore_slot :: "u32 \<Rightarrow> nat" where
  "istore_slot ino = unat ino mod LOLELFFS_INODES_PER_BLOCK"

definition disk_inode :: "fs \<Rightarrow> u32 \<Rightarrow> lolelffs_inode" where
  "disk_inode s ino = inodes (dec_istore (blocks s (istore_sector s ino))) ! istore_slot ino"

text \<open>
  What \<open>lolelffs_iget\<close> makes of an inode in the store. \<open>ei_block\<close> is read for directories and
  regular files only, \<open>i_data\<close> for symbolic links only: the other keeps what the new memory holds.
\<close>

definition vinode_of_disk :: "fs \<Rightarrow> lolelffs_inode \<Rightarrow> vinode" where
  "vinode_of_disk s c =
     (let m = ucast (i_mode c) :: u16
      in \<lparr>vi_mode = m, vi_uid = i_uid c, vi_gid = i_gid c, vi_size = ucast (i_size c),
          vi_ctime = ucast (i_ctime c), vi_atime = ucast (i_atime c), vi_mtime = ucast (i_mtime c),
          vi_blocks = ucast (i_blocks c), vi_nlink = i_nlink c,
          vi_op = (if S_ISLNK m then Symlink_ops else Inode_ops),
          vi_fop = (if S_ISDIR m then Dir_fops else if S_ISREG m then File_fops else No_fops),
          vi_link = S_ISLNK m, vi_dirty = False,
          ci_ei_block = (if S_ISDIR m \<or> S_ISREG m then ei_block c else slab_ei s),
          ci_xattr_block = xattr_block c,
          ci_i_data = (if S_ISLNK m then strncpy (cstr (i_data c)) 28 else slab_data s)\<rparr>)"

definition lolelffs_iget :: "fs \<Rightarrow> u32 \<Rightarrow> (errno + u32) \<times> fs" where
  "lolelffs_iget s ino =
     (if nr_inodes (sbi s) \<le> ino then (Inl EINVAL, s)
      else
        (case icache s ino of
           Some _ \<Rightarrow> (Inr ino, s)
         | None \<Rightarrow>
             (let (ok, s) = kmalloc s
              in if \<not> ok then (Inl ENOMEM, s)
                 else if \<not> readable s (istore_sector s ino) then (Inl EIO, s)
                 else (Inr ino, put_vinode s ino (vinode_of_disk s (disk_inode s ino))))))"

section \<open>Writing an inode\<close>

definition disk_of_vinode :: "vinode \<Rightarrow> lolelffs_inode" where
  "disk_of_vinode i = \<lparr>i_mode = ucast (vi_mode i), i_uid = vi_uid i, i_gid = vi_gid i,
     i_size = ucast (vi_size i), i_ctime = ucast (vi_ctime i), i_atime = ucast (vi_atime i),
     i_mtime = ucast (vi_mtime i), i_blocks = ucast (vi_blocks i), i_nlink = vi_nlink i,
     ei_block = ci_ei_block i, xattr_block = ci_xattr_block i,
     i_data = strncpy (cstr (ci_i_data i)) 28\<rparr>"

definition put_disk_inode :: "fs \<Rightarrow> u32 \<Rightarrow> lolelffs_inode \<Rightarrow> fs" where
  "put_disk_inode s ino d =
     (let k = istore_sector s ino; b = dec_istore (blocks s k)
      in store s k (enc_istore (b\<lparr>inodes := (inodes b)[istore_slot ino := d]\<rparr>)))"

definition lolelffs_write_inode :: "fs \<Rightarrow> u32 \<Rightarrow> (errno + unit) \<times> fs" where
  "lolelffs_write_inode s ino =
     (if nr_inodes (sbi s) \<le> ino then (Inr (), s)
      else if \<not> readable s (istore_sector s ino) then (Inl EIO, s)
      else (Inr (), put_disk_inode s ino (disk_of_vinode (inode_of s ino))))"

section \<open>Reading back what was stored\<close>

text \<open>Every buffer has the size of a block.\<close>

definition wf_dev :: "fs \<Rightarrow> bool" where
  "wf_dev s \<longleftrightarrow> (\<forall>k. length (blocks s k) = LOLELFFS_BLOCK_SIZE)"

lemma wf_devD: "wf_dev s \<Longrightarrow> length (blocks s k) = LOLELFFS_BLOCK_SIZE"
  by (simp add: wf_dev_def)

lemma blocks_store [simp]: "blocks (store s k bs) j = (if j = k then bs else blocks s j)"
  by (simp add: store_def)

lemma store_frame [simp]:
  "readable (store s k bs) = readable s" "sbi (store s k bs) = sbi s" "icache (store s k bs) = icache s"
  "mem (store s k bs) = mem s" "slab_ei (store s k bs) = slab_ei s" "slab_data (store s k bs) = slab_data s"
  "now (store s k bs) = now s"
  by (simp_all add: store_def)

lemma put_vinode_frame [simp]:
  "blocks (put_vinode s ino i) = blocks s" "readable (put_vinode s ino i) = readable s"
  "sbi (put_vinode s ino i) = sbi s" "mem (put_vinode s ino i) = mem s"
  "slab_ei (put_vinode s ino i) = slab_ei s" "slab_data (put_vinode s ino i) = slab_data s"
  "now (put_vinode s ino i) = now s"
  by (simp_all add: put_vinode_def)

lemma icache_put_vinode [simp]:
  "icache (put_vinode s ino i) j = (if j = ino then Some i else icache s j)"
  by (simp add: put_vinode_def)

lemma inode_of_put [simp]: "inode_of (put_vinode s ino i) j = (if j = ino then i else inode_of s j)"
  by (simp add: inode_of_def)

lemma kmalloc_frame:
  "kmalloc s = (ok, s') \<Longrightarrow> blocks s' = blocks s \<and> readable s' = readable s \<and> sbi s' = sbi s
     \<and> icache s' = icache s \<and> slab_ei s' = slab_ei s \<and> slab_data s' = slab_data s \<and> now s' = now s"
  by (auto simp: kmalloc_def split: list.splits)

lemma wf_dev_store [simp]: "wf_dev s \<Longrightarrow> length bs = LOLELFFS_BLOCK_SIZE \<Longrightarrow> wf_dev (store s k bs)"
  by (simp add: wf_dev_def)

lemma length_zero_block [simp]: "length zero_block = LOLELFFS_BLOCK_SIZE"
  by (simp add: zero_block_def)

lemma ei_at_wf: "wf_dev s \<Longrightarrow> wf_ei (ei_at s k)"
  by (simp add: ei_at_def wf_devD eic.ok_dec)

lemma dir_at_wf: "wf_dev s \<Longrightarrow> wf_dir (dir_at s k)"
  by (simp add: dir_at_def wf_devD dic.ok_dec)

lemma ei_at_put: "wf_ei x \<Longrightarrow> ei_at (put_ei s k x) j = (if j = k then x else ei_at s j)"
  by (simp add: ei_at_def put_ei_def eic.dec_enc)

lemma dir_at_put: "wf_dir x \<Longrightarrow> dir_at (put_dir s k x) j = (if j = k then x else dir_at s j)"
  by (simp add: dir_at_def put_dir_def dic.dec_enc)

lemma ei_at_put_dir: "j \<noteq> k \<Longrightarrow> ei_at (put_dir s k x) j = ei_at s j"
  by (simp add: ei_at_def put_dir_def)

lemma dir_at_put_ei: "j \<noteq> k \<Longrightarrow> dir_at (put_ei s k x) j = dir_at s j"
  by (simp add: dir_at_def put_ei_def)

lemma put_ei_frame [simp]:
  "readable (put_ei s k x) = readable s" "sbi (put_ei s k x) = sbi s" "icache (put_ei s k x) = icache s"
  "mem (put_ei s k x) = mem s" "now (put_ei s k x) = now s"
  "slab_ei (put_ei s k x) = slab_ei s" "slab_data (put_ei s k x) = slab_data s"
  by (simp_all add: put_ei_def)

lemma put_dir_frame [simp]:
  "readable (put_dir s k x) = readable s" "sbi (put_dir s k x) = sbi s" "icache (put_dir s k x) = icache s"
  "mem (put_dir s k x) = mem s" "now (put_dir s k x) = now s"
  "slab_ei (put_dir s k x) = slab_ei s" "slab_data (put_dir s k x) = slab_data s"
  by (simp_all add: put_dir_def)

lemma wf_dev_put_ei [simp]: "wf_dev s \<Longrightarrow> wf_ei x \<Longrightarrow> wf_dev (put_ei s k x)"
  by (simp add: put_ei_def eic.length_enc)

lemma wf_dev_put_dir [simp]: "wf_dev s \<Longrightarrow> wf_dir x \<Longrightarrow> wf_dev (put_dir s k x)"
  by (simp add: put_dir_def dic.length_enc)

lemma wf_dev_blocks: "wf_dev s \<Longrightarrow> blocks s' = blocks s \<Longrightarrow> wf_dev s'"
  by (simp add: wf_dev_def)

lemma wf_dev_put_vinode [simp]: "wf_dev (put_vinode s ino i) \<longleftrightarrow> wf_dev s"
  by (simp add: wf_dev_def)

section \<open>The inode store\<close>

lemma istore_slot_less: "istore_slot ino < LOLELFFS_INODES_PER_BLOCK"
  by (simp add: istore_slot_def inodes_per_block)

lemma istore_position_inj: "istore_sector s i = istore_sector s j \<Longrightarrow> istore_slot i = istore_slot j \<Longrightarrow> i = j"
  by (simp add: istore_sector_def istore_slot_def word_unat_eq_iff)
    (metis div_mult_mod_eq)

lemma wf_disk_of_vinode: "wf_inode (disk_of_vinode i)"
  by (simp add: wf_inode_def disk_of_vinode_def)

lemma put_disk_inode_frame [simp]:
  "readable (put_disk_inode s ino d) = readable s" "sbi (put_disk_inode s ino d) = sbi s"
  "icache (put_disk_inode s ino d) = icache s" "mem (put_disk_inode s ino d) = mem s"
  "slab_ei (put_disk_inode s ino d) = slab_ei s" "slab_data (put_disk_inode s ino d) = slab_data s"
  "now (put_disk_inode s ino d) = now s"
  by (simp_all add: put_disk_inode_def Let_def)

lemma wf_istore_update:
  "length bs = LOLELFFS_BLOCK_SIZE \<Longrightarrow> wf_inode d \<Longrightarrow>
   wf_istore ((dec_istore bs)\<lparr>inodes := (inodes (dec_istore bs))[n := d]\<rparr>)"
  using isc.ok_dec [of bs] by (simp add: wf_istore_def list_all_update)

lemma wf_dev_put_disk_inode [simp]: "wf_dev s \<Longrightarrow> wf_inode d \<Longrightarrow> wf_dev (put_disk_inode s ino d)"
  by (simp add: put_disk_inode_def Let_def isc.length_enc wf_istore_update wf_devD)

lemma blocks_put_disk_inode: "k \<noteq> istore_sector s ino \<Longrightarrow> blocks (put_disk_inode s ino d) k = blocks s k"
  by (simp add: put_disk_inode_def Let_def)

lemma disk_inode_put:
  assumes "wf_dev s" and "wf_inode d"
  shows "disk_inode (put_disk_inode s ino d) j = (if j = ino then d else disk_inode s j)"
proof -
  let ?k = "istore_sector s ino"
  define b where "b = dec_istore (blocks s ?k)"
  define b' where "b' = b\<lparr>inodes := (inodes b)[istore_slot ino := d]\<rparr>"
  have len: "length (inodes b) = LOLELFFS_INODES_PER_BLOCK"
    using isc.ok_dec [OF wf_devD [OF assms(1), of ?k]] by (simp add: wf_istore_def b_def)
  then have nb: "inodes b' = (inodes b)[istore_slot ino := d]" by (simp add: b'_def)
  have dec: "dec_istore (enc_istore b') = b'"
    unfolding b'_def b_def by (intro isc.dec_enc wf_istore_update wf_devD assms)
  have put: "put_disk_inode s ino d = store s ?k (enc_istore b')"
    by (simp add: put_disk_inode_def Let_def b_def b'_def)
  have sec: "istore_sector (store s ?k (enc_istore b')) j = istore_sector s j"
    by (simp add: istore_sector_def)
  show ?thesis
  proof (cases "istore_sector s j = ?k")
    case True
    then have "istore_slot j = istore_slot ino \<longleftrightarrow> j = ino" using istore_position_inj [of s j ino] by auto
    with True show ?thesis
      using len istore_slot_less [of ino]
      by (auto simp: disk_inode_def put sec dec nb b_def [symmetric])
  next
    case False
    then show ?thesis by (auto simp: disk_inode_def put sec)
  qed
qed

lemma write_inode_cases:
  "lolelffs_write_inode s ino =
     (if nr_inodes (sbi s) \<le> ino then (Inr (), s)
      else if readable s (istore_sector s ino)
      then (Inr (), put_disk_inode s ino (disk_of_vinode (inode_of s ino))) else (Inl EIO, s))"
  by (simp add: lolelffs_write_inode_def)

lemma ucast_mode: "(ucast (ucast (m :: u16) :: u32) :: u16) = m"
  by (rule bit_word_eqI) (simp add: bit_unsigned_iff)

lemma strncpy_cstr: "length d = 28 \<Longrightarrow> cstr (strncpy (cstr d) 28) = cstr d"
proof (rule cstr_strncpy)
  show "is_cstr (cstr d)" by (auto simp: is_cstr_def cstr_def dest: set_takeWhileD)
  show "length d = 28 \<Longrightarrow> length (cstr d) \<le> 28" by (simp add: cstr_def) (metis length_takeWhile_le)
qed

section \<open>What survives on disk\<close>



text \<open>A state for the witnesses: an empty device, and a regular file as inode 1 in the cache.\<close>

definition tiny_inode :: vinode where
  "tiny_inode = \<lparr>vi_mode = 0x81A4, vi_uid = 1000, vi_gid = 100, vi_size = 5, vi_ctime = 7, vi_atime = 7,
     vi_mtime = 7, vi_blocks = 1, vi_nlink = 1, vi_op = Inode_ops, vi_fop = File_fops, vi_link = False,
     vi_dirty = True, ci_ei_block = 4, ci_xattr_block = 0, ci_i_data = replicate 28 0\<rparr>"

definition tiny_fs :: fs where
  "tiny_fs = \<lparr>blocks = (\<lambda>_. zero_block), readable = (\<lambda>_. True), sbi = tiny_sbi,
     icache = (\<lambda>_. None)(1 := Some tiny_inode), mem = [], slab_ei = 0, slab_data = replicate 28 0,
     now = 9\<rparr>"

lemma tiny_wf_dev: "wf_dev tiny_fs"
  by (simp add: wf_dev_def tiny_fs_def)



end
