(* ===== verification/Elf.thy ===== *)
theory Elf
  imports Prelude
begin

text \<open>
  Finding the file system inside an ELF binary, \<^verbatim>\<open>src/elf.h\<close>: the section
  \<^verbatim>\<open>.lolfs.super\<close> through the section header table and its string table, once with
  \<open>kernel_read\<close> on a file and once sector by sector from the block device.

  \<open>kread off n\<close> stands for \<open>kernel_read\<close>: the bytes it delivers, fewer than \<open>n\<close> at the end of
  the file or on an error. \<open>bread k\<close> stands for \<open>__bread_gfp\<close> with 512-byte sectors.
  \<open>alloc n\<close> says whether \<open>kmalloc\<close> delivers \<open>n\<close> bytes, and \<open>heap\<close> is what lies in memory
  behind the string table, which \<open>strcmp\<close> reads when the table does not end in a NUL.
\<close>

section \<open>The ELF structures\<close>

definition ELFMAG :: bytes where "ELFMAG = [0x7f, 0x45, 0x4c, 0x46]"
definition ELFCLASS64 :: u8 where "ELFCLASS64 = 2"
definition SHN_UNDEF :: u16 where "SHN_UNDEF = 0"
definition sizeof_Ehdr :: nat where "sizeof_Ehdr = 64"
definition sizeof_Shdr :: nat where "sizeof_Shdr = 64"

definition LOLELFFS_SECTION :: bytes where
  "LOLELFFS_SECTION = [0x2e, 0x6c, 0x6f, 0x6c, 0x66, 0x73, 0x2e, 0x73, 0x75, 0x70, 0x65, 0x72]"

record Elf64_Ehdr =
  e_ident :: bytes
  e_shoff :: u64
  e_shnum :: u16
  e_shstrndx :: u16

record Elf64_Shdr =
  sh_name :: u32
  sh_offset :: u64
  sh_size :: u64

definition dec_ehdr :: "bytes \<Rightarrow> Elf64_Ehdr" where
  "dec_ehdr bs = \<lparr>e_ident = bytes_at 0 16 bs, e_shoff = get64 40 bs, e_shnum = get16 60 bs,
     e_shstrndx = get16 62 bs\<rparr>"

definition dec_shdr :: "bytes \<Rightarrow> Elf64_Shdr" where
  "dec_shdr bs = \<lparr>sh_name = get32 0 bs, sh_offset = get64 24 bs, sh_size = get64 32 bs\<rparr>"

text \<open>The file offset of section header \<open>i\<close>, in the 64-bit arithmetic of the code.\<close>

definition shdr_pos :: "Elf64_Ehdr \<Rightarrow> nat \<Rightarrow> u64" where
  "shdr_pos eh i = e_shoff eh + of_nat i * of_nat sizeof_Shdr"

definition section_named :: "bytes \<Rightarrow> bytes \<Rightarrow> Elf64_Shdr \<Rightarrow> bool" where
  "section_named tab heap sh \<longleftrightarrow> cstr (drop (unat (sh_name sh)) (tab @ heap)) = LOLELFFS_SECTION"

definition valid_ehdr :: "Elf64_Ehdr \<Rightarrow> bool" where
  "valid_ehdr eh \<longleftrightarrow> take 4 (e_ident eh) = ELFMAG \<and> e_ident eh ! 4 = ELFCLASS64
     \<and> \<not> (e_shstrndx eh = SHN_UNDEF \<or> e_shnum eh \<le> e_shstrndx eh)"

section \<open>The search through a file\<close>

text \<open>The loop over the section headers; a header that cannot be read is skipped.\<close>

fun find_section :: "(u64 \<Rightarrow> nat \<Rightarrow> bytes) \<Rightarrow> Elf64_Ehdr \<Rightarrow> Elf64_Shdr \<Rightarrow> bytes \<Rightarrow> bytes \<Rightarrow> nat list \<Rightarrow> u64" where
  "find_section kread eh str tab heap [] = 0"
| "find_section kread eh str tab heap (i # is) =
     (let bs = kread (shdr_pos eh i) sizeof_Shdr; sh = dec_shdr bs
      in if length bs \<noteq> sizeof_Shdr then find_section kread eh str tab heap is
         else if ucast (sh_name sh) < sh_size str \<and> section_named tab heap sh then sh_offset sh
         else find_section kread eh str tab heap is)"

definition find_lolelffs_section :: "(u64 \<Rightarrow> nat \<Rightarrow> bytes) \<Rightarrow> (nat \<Rightarrow> bool) \<Rightarrow> bytes \<Rightarrow> u64" where
  "find_lolelffs_section kread alloc heap =
     (let hb = kread 0 sizeof_Ehdr; eh = dec_ehdr hb
      in if length hb \<noteq> sizeof_Ehdr then 0
         else if \<not> valid_ehdr eh then 0
         else
           (let sb = kread (shdr_pos eh (unat (e_shstrndx eh))) sizeof_Shdr; str = dec_shdr sb
            in if length sb \<noteq> sizeof_Shdr then 0
               else if \<not> alloc (unat (sh_size str)) then 0
               else
                 (let tab = kread (sh_offset str) (unat (sh_size str))
                  in if length tab \<noteq> unat (sh_size str) then 0
                     else find_section kread eh str tab heap [0..<unat (e_shnum eh)])))"

section \<open>The search through the block device\<close>

text \<open>
  \<open>read_from_bdev\<close>: \<open>buf\<close> is what has been read so far, \<open>iterations\<close> the number of sectors read;
  \<open>None\<close> is the return value -1.
\<close>

function read_loop :: "(nat \<Rightarrow> bytes option) \<Rightarrow> u64 \<Rightarrow> nat \<Rightarrow> nat \<Rightarrow> bytes \<Rightarrow> bytes option" where
  "read_loop bread offset sz iterations buf =
     (if length buf < sz then
        (let sec = unat offset div 512; sec_off = unat offset mod 512;
             to_read = min (sz - length buf) (512 - sec_off)
         in if 10000 < iterations + 1 then None
            else
              (case bread sec of
                 None \<Rightarrow> None
               | Some bs \<Rightarrow> read_loop bread (offset + of_nat to_read) sz (iterations + 1)
                             (buf @ bytes_at sec_off to_read bs)))
      else Some buf)"
  by pat_completeness auto
termination
  by (relation "measure (\<lambda>(bread, offset, sz, iterations, buf). 10000 - iterations)") auto

declare read_loop.simps [simp del]

definition read_from_bdev :: "(nat \<Rightarrow> bytes option) \<Rightarrow> u64 \<Rightarrow> nat \<Rightarrow> bytes option" where
  "read_from_bdev bread offset sz = read_loop bread offset sz 0 []"

fun find_section_bdev :: "(nat \<Rightarrow> bytes option) \<Rightarrow> Elf64_Ehdr \<Rightarrow> Elf64_Shdr \<Rightarrow> bytes \<Rightarrow> bytes \<Rightarrow> nat list \<Rightarrow> u64" where
  "find_section_bdev bread eh str tab heap [] = 0"
| "find_section_bdev bread eh str tab heap (i # is) =
     (case read_from_bdev bread (shdr_pos eh i) sizeof_Shdr of
        None \<Rightarrow> find_section_bdev bread eh str tab heap is
      | Some bs \<Rightarrow>
          (let sh = dec_shdr bs
           in if ucast (sh_name sh) < sh_size str \<and> section_named tab heap sh then sh_offset sh
              else find_section_bdev bread eh str tab heap is))"

definition find_lolelffs_section_from_bdev :: "(nat \<Rightarrow> bytes option) \<Rightarrow> (nat \<Rightarrow> bool) \<Rightarrow> bytes \<Rightarrow> u64" where
  "find_lolelffs_section_from_bdev bread alloc heap =
     (case read_from_bdev bread 0 sizeof_Ehdr of
        None \<Rightarrow> 0
      | Some hb \<Rightarrow>
          (let eh = dec_ehdr hb
           in if \<not> valid_ehdr eh then 0
              else
                (case read_from_bdev bread (shdr_pos eh (unat (e_shstrndx eh))) sizeof_Shdr of
                   None \<Rightarrow> 0
                 | Some sb \<Rightarrow>
                     (let str = dec_shdr sb
                      in if 1024 * 1024 < sh_size str then 0
                         else if \<not> alloc (unat (sh_size str)) then 0
                         else
                           (case read_from_bdev bread (sh_offset str) (unat (sh_size str)) of
                              None \<Rightarrow> 0
                            | Some tab \<Rightarrow>
                                find_section_bdev bread eh str tab heap [0..<unat (e_shnum eh)])))))"

section \<open>Reading sector by sector\<close>

text \<open>
  A device that holds \<open>img\<close>: every sector up to its end can be read and is 512 bytes of it.
\<close>

definition holds :: "(nat \<Rightarrow> bytes option) \<Rightarrow> bytes \<Rightarrow> bool" where
  "holds bread img \<longleftrightarrow> 512 dvd length img \<and> length img < 2 ^ 63
     \<and> (\<forall>k. bread k = (if 512 * k < length img then Some (bytes_at (512 * k) 512 img) else None))"

text \<open>The number of sectors the range \<open>[off, off + n)\<close> touches.\<close>

definition sectors_of :: "nat \<Rightarrow> nat \<Rightarrow> nat" where
  "sectors_of off n = (if n = 0 then 0 else (off + n - 1) div 512 - off div 512 + 1)"

lemma unat_ucast_u64: "unat (ucast (w :: u32) :: u64) = unat w"
proof -
  have "unat w < 2 ^ 64" by (rule order.strict_trans [OF unat_u32_less]) simp
  then show ?thesis by (simp add: unsigned_ucast_eq take_bit_eq_mod)
qed

lemma unat_u64_add: "unat (a :: u64) + n < 2 ^ 64 \<Longrightarrow> unat (a + of_nat n) = unat a + n"
  by (simp add: unat_word_ariths unat_of_nat)

lemma sector_bytes:
  assumes "holds bread img" "off + n \<le> length img" "off mod 512 + n \<le> 512" "0 < n"
  shows "\<exists>bs. bread (off div 512) = Some bs \<and> bytes_at (off mod 512) n bs = bytes_at off n img"
proof -
  have "512 * (off div 512) \<le> off" by simp
  then have lt: "512 * (off div 512) < length img" using assms(2,4) by linarith
  have "bytes_at (off mod 512) n (bytes_at (512 * (off div 512)) 512 img) = bytes_at off n img"
    using assms(3) by (simp add: bytes_at_def drop_take min_absorb1)
  with lt assms(1) show ?thesis by (simp add: holds_def)
qed

lemma div_512: "r < 512 \<Longrightarrow> (512 * q + r) div 512 = q" for q r :: nat
  by simp

lemma sectors_of_step:
  assumes "0 < n" "t = min n (512 - off mod 512)"
  shows "sectors_of off n = Suc (sectors_of (off + t) (n - t))"
proof -
  obtain q r where off: "off = 512 * q + r" "r < 512" by (metis mod_less_divisor mult_div_mod_eq zero_less_numeral)
  then have m: "off mod 512 = r" "off div 512 = q" by simp_all
  show ?thesis
  proof (cases "n \<le> 512 - r")
    case True
    then have "off + n - 1 = 512 * q + (r + n - 1)" "r + n - 1 < 512" using off assms(1) by auto
    then have "(off + n - 1) div 512 = q" using div_512 by metis
    with True assms m show ?thesis by (simp add: sectors_of_def min_def)
  next
    case False
    with assms m have t: "t = 512 - r" "t < n" by auto
    then have e: "(off + t) div 512 = q + 1" using off by simp
    have "off + t \<le> off + n - 1" using t by auto
    then have "(off + t) div 512 \<le> (off + n - 1) div 512" by (rule div_le_mono)
    then have "(off + n - 1) div 512 - q = Suc ((off + n - 1) div 512 - (q + 1))" using e by simp
    with e m t(2) assms(1) show ?thesis by (simp add: sectors_of_def)
  qed
qed

lemma read_loop_done: "sz \<le> length buf \<Longrightarrow> read_loop bread off sz it buf = Some buf"
  by (simp add: read_loop.simps [of bread off sz it buf])

lemma read_loop_stop:
  "length buf < sz \<Longrightarrow> 10000 \<le> it \<or> bread (unat off div 512) = None \<Longrightarrow> read_loop bread off sz it buf = None"
  by (auto simp: read_loop.simps [of bread off sz it buf] Let_def)

lemma read_loop_step:
  "length buf < sz \<Longrightarrow> it < 10000 \<Longrightarrow> bread (unat off div 512) = Some bs \<Longrightarrow>
   t = min (sz - length buf) (512 - unat off mod 512) \<Longrightarrow>
   read_loop bread off sz it buf = read_loop bread (off + of_nat t) sz (it + 1) (buf @ bytes_at (unat off mod 512) t bs)"
  by (simp add: read_loop.simps [of bread off sz it buf] Let_def)

lemma read_loop_correct:
  assumes "holds bread img" "unat off + n \<le> length img" "sz = length buf + n"
    and "it + sectors_of (unat off) n \<le> 10000"
  shows "read_loop bread off sz it buf = Some (buf @ bytes_at (unat off) n img)"
  using assms
proof (induction "sectors_of (unat off) n" arbitrary: off n it buf)
  case 0
  then have "n = 0" by (simp add: sectors_of_def split: if_splits)
  with 0 show ?case by (simp add: read_loop_done bytes_at_def)
next
  case (Suc m)
  then have n: "0 < n" by (auto simp: sectors_of_def split: if_splits)
  define t where "t = min n (512 - unat off mod 512)"
  have t: "0 < t" "t \<le> n" "unat off mod 512 + t \<le> 512" using n by (auto simp: t_def)
  obtain bs where bs: "bread (unat off div 512) = Some bs" "bytes_at (unat off mod 512) t bs = bytes_at (unat off) t img"
    using sector_bytes [OF Suc.prems(1) _ t(3) t(1)] Suc.prems(2) t(2) by auto
  have lt: "length img < 2 ^ 63" using Suc.prems(1) by (simp add: holds_def)
  have off: "unat (off + of_nat t) = unat off + t"
    using Suc.prems(2) t(2) lt by (intro unat_u64_add) simp
  have step: "sectors_of (unat off) n = Suc (sectors_of (unat off + t) (n - t))"
    by (rule sectors_of_step [OF n t_def])
  have len: "length (bytes_at (unat off) t img) = t" using Suc.prems(2) t(2) by simp
  have "read_loop bread off sz it buf = read_loop bread (off + of_nat t) sz (it + 1) (buf @ bytes_at (unat off) t img)"
    unfolding bs(2) [symmetric]
    by (rule read_loop_step) (use n Suc.prems(3,4) step bs(1) in \<open>simp_all add: t_def\<close>)
  also have "\<dots> = Some ((buf @ bytes_at (unat off) t img) @ bytes_at (unat (off + of_nat t)) (n - t) img)"
    using Suc step off len t by (intro Suc.hyps(1)) simp_all
  finally show ?case using t off by (simp add: bytes_at_join)
qed


lemma read_loop_fails:
  assumes "holds bread img" "length img < unat off + n" "sz = length buf + n" "0 < n"
  shows "read_loop bread off sz it buf = None"
  using assms
proof (induction "10000 - it" arbitrary: off n it buf)
  case 0
  then show ?case by (simp add: read_loop_stop)
next
  case (Suc m)
  define t where "t = min n (512 - unat off mod 512)"
  show ?case
  proof (cases "512 * (unat off div 512) < length img")
    case False
    then have "bread (unat off div 512) = None" using Suc.prems(1) by (simp add: holds_def)
    with Suc.prems(3,4) show ?thesis by (simp add: read_loop_stop)
  next
    case True
    obtain q where q: "length img = 512 * q" using Suc.prems(1) by (auto simp: holds_def)
    obtain a r where ar: "unat off = 512 * a + r" "r < 512"
      by (metis mod_less_divisor mult_div_mod_eq zero_less_numeral)
    then have m: "unat off mod 512 = r" "unat off div 512 = a" by simp_all
    with True q have "a < q" by simp
    then have "unat off + (512 - unat off mod 512) \<le> length img" using ar m(1) q by simp
    then have le: "unat off + t \<le> length img" and t: "t < n" using Suc.prems(2) by (auto simp: t_def)
    have "length img < 2 ^ 63" using Suc.prems(1) by (simp add: holds_def)
    then have off: "unat (off + of_nat t) = unat off + t" using le by (intro unat_u64_add) simp
    have "0 < t" using t by (auto simp: t_def)
    moreover have "unat off mod 512 + t \<le> 512" using ar(2) m(1) by (simp add: t_def)
    ultimately obtain bs where bs: "bread (unat off div 512) = Some bs" "bytes_at (unat off mod 512) t bs = bytes_at (unat off) t img"
      using sector_bytes [OF Suc.prems(1) le] by blast
    have "read_loop bread off sz it buf = read_loop bread (off + of_nat t) sz (it + 1) (buf @ bytes_at (unat off) t img)"
      unfolding bs(2) [symmetric]
      by (rule read_loop_step) (use t Suc.hyps(2) Suc.prems(3) bs(1) in \<open>simp_all add: t_def\<close>)
    also have "\<dots> = None"
      using Suc.hyps(2) Suc.prems off t le by (intro Suc.hyps(1) [where n = "n - t"]) simp_all
    finally show ?thesis .
  qed
qed

lemma sectors_of_le: "sectors_of off n \<le> n div 512 + 2"
proof -
  obtain q r p u where "off = 512 * q + r" "r < 512" "n = 512 * p + u" "u < 512"
    by (metis mod_less_divisor mult_div_mod_eq zero_less_numeral)
  moreover from this have "off + n - 1 < (q + p + 2) * 512" by auto
  then have "(off + n - 1) div 512 < q + p + 2" by (rule less_mult_imp_div_less)
  ultimately show ?thesis by (auto simp: sectors_of_def)
qed

lemma read_from_bdev_eq:
  assumes "holds bread img" "n \<le> 1024 * 1024"
  shows "read_from_bdev bread off n =
    (let bs = bytes_at (unat off) n img in if length bs = n then Some bs else None)"
proof (cases "unat off + n \<le> length img \<or> n = 0")
  case True
  have "sectors_of (unat off) n \<le> 10000"
    using sectors_of_le [of "unat off" n] div_le_mono [OF assms(2), of 512] by simp
  with True show ?thesis
    using read_loop_correct [OF assms(1), of off n n "[]" 0]
    by (auto simp: read_from_bdev_def bytes_at_def read_loop_done)
next
  case False
  then show ?thesis
    using read_loop_fails [OF assms(1), of off n n "[]" 0] by (auto simp: read_from_bdev_def Let_def)
qed

section \<open>What the search finds\<close>

text \<open>Reading from a file with the contents \<open>img\<close>.\<close>

definition file_read :: "bytes \<Rightarrow> u64 \<Rightarrow> nat \<Rightarrow> bytes" where
  "file_read img off n = bytes_at (unat off) n img"

definition elf_header :: "bytes \<Rightarrow> Elf64_Ehdr" where
  "elf_header img = dec_ehdr (bytes_at 0 sizeof_Ehdr img)"

definition elf_shdr :: "bytes \<Rightarrow> nat \<Rightarrow> Elf64_Shdr" where
  "elf_shdr img i = dec_shdr (file_read img (shdr_pos (elf_header img) i) sizeof_Shdr)"

definition elf_strtab :: "bytes \<Rightarrow> bytes" where
  "elf_strtab img =
     (let str = elf_shdr img (unat (e_shstrndx (elf_header img)))
      in file_read img (sh_offset str) (unat (sh_size str)))"

lemma find_section_bdev_eq:
  "holds bread img \<Longrightarrow> find_section_bdev bread eh str tab heap is = find_section (file_read img) eh str tab heap is"
  by (induction "is") (simp_all add: read_from_bdev_eq Let_def file_read_def sizeof_Shdr_def)

lemma find_section_first:
  assumes "\<forall>i \<in> set is. length (kread (shdr_pos eh i) sizeof_Shdr) = sizeof_Shdr"
  shows "find_section kread eh str tab heap is =
    (case find (\<lambda>i. let sh = dec_shdr (kread (shdr_pos eh i) sizeof_Shdr)
                    in ucast (sh_name sh) < sh_size str \<and> section_named tab heap sh) is of
       None \<Rightarrow> 0 | Some i \<Rightarrow> sh_offset (dec_shdr (kread (shdr_pos eh i) sizeof_Shdr)))"
  using assms by (induction "is") (auto simp: Let_def)

text \<open>
  An ELF image for the witnesses, of one sector: the header, two section headers (the second is
  \<^verbatim>\<open>.lolfs.super\<close> at offset 8192) and the string table at offset 192.
\<close>

definition tiny_shdr :: "u32 \<Rightarrow> u64 \<Rightarrow> u64 \<Rightarrow> bytes" where
  "tiny_shdr nm off sz = enc32 nm @ replicate 20 0 @ enc64 off @ enc64 sz @ replicate 24 0"

definition tiny_elf :: bytes where
  "tiny_elf = ELFMAG @ [ELFCLASS64] @ replicate 35 0 @ enc64 64 @ replicate 12 0 @ enc16 3 @ enc16 1
     @ tiny_shdr 0 0 0 @ tiny_shdr 0 256 14 @ tiny_shdr 1 8192 4096 @ [0] @ LOLELFFS_SECTION @ [0] @ replicate 242 0"

definition tiny_bread :: "nat \<Rightarrow> bytes option" where
  "tiny_bread k = (if 512 * k < length tiny_elf then Some (bytes_at (512 * k) 512 tiny_elf) else None)"


lemma tiny_len: "length tiny_elf = 512"
  by (simp add: tiny_elf_def tiny_shdr_def ELFMAG_def LOLELFFS_SECTION_def)

lemma tiny_header: "elf_header tiny_elf =
    \<lparr>e_ident = ELFMAG @ [ELFCLASS64] @ replicate 11 0, e_shoff = 64, e_shnum = 3, e_shstrndx = 1\<rparr>"
  by code_simp

lemma tiny_shdrs_raw:
  "dec_shdr (bytes_at 64 64 tiny_elf) = \<lparr>sh_name = 0, sh_offset = 0, sh_size = 0\<rparr>"
  "dec_shdr (bytes_at 128 64 tiny_elf) = \<lparr>sh_name = 0, sh_offset = 256, sh_size = 14\<rparr>"
  "dec_shdr (bytes_at 192 64 tiny_elf) = \<lparr>sh_name = 1, sh_offset = 8192, sh_size = 4096\<rparr>"
  by code_simp+

lemma tiny_shdrs:
  "elf_shdr tiny_elf 0 = \<lparr>sh_name = 0, sh_offset = 0, sh_size = 0\<rparr>"
  "elf_shdr tiny_elf (Suc 0) = \<lparr>sh_name = 0, sh_offset = 256, sh_size = 14\<rparr>"
  "elf_shdr tiny_elf 2 = \<lparr>sh_name = 1, sh_offset = 8192, sh_size = 4096\<rparr>"
  by (simp_all add: elf_shdr_def shdr_pos_def tiny_header file_read_def sizeof_Shdr_def tiny_shdrs_raw)

lemma tiny_strtab_raw: "bytes_at 256 14 tiny_elf = 0 # LOLELFFS_SECTION @ [0]"
  by code_simp

lemma tiny_strtab: "elf_strtab tiny_elf = 0 # LOLELFFS_SECTION @ [0]"
  by (simp add: elf_strtab_def tiny_header tiny_shdrs Let_def file_read_def tiny_strtab_raw)

lemma tiny_wf: "64 \<le> length tiny_elf" "valid_ehdr (elf_header tiny_elf)"
    "\<forall>i < unat (e_shnum (elf_header tiny_elf)). unat (shdr_pos (elf_header tiny_elf) i) + 64 \<le> length tiny_elf"
    "length (elf_strtab tiny_elf) = unat (sh_size (elf_shdr tiny_elf (unat (e_shstrndx (elf_header tiny_elf)))))"
    "elf_strtab tiny_elf \<noteq> []" "last (elf_strtab tiny_elf) = 0"
proof -
  have "i = 0 \<or> i = 1 \<or> i = 2" if "i < 3" for i :: nat using that by auto
  then show "\<forall>i < unat (e_shnum (elf_header tiny_elf)). unat (shdr_pos (elf_header tiny_elf) i) + 64 \<le> length tiny_elf"
    by (fastforce simp: tiny_len tiny_header shdr_pos_def sizeof_Shdr_def)
qed (simp_all add: word_le_nat_alt tiny_len tiny_header tiny_shdrs tiny_strtab valid_ehdr_def ELFMAG_def SHN_UNDEF_def
      LOLELFFS_SECTION_def)

lemma tiny_holds: "holds tiny_bread tiny_elf"
  by (simp add: holds_def tiny_bread_def tiny_len)

text \<open>
  C20. Both searches give the same answer: on a device that holds the image, in 512-byte sectors,
  the sector-wise search returns what the search through the file returns, as long as the section
  name table has at most a megabyte (the sector-wise search gives up on a larger one).
\<close>

theorem find_section_bdev_equiv:
  assumes dev: "holds bread img"
    and small: "sh_size (elf_shdr img (unat (e_shstrndx (elf_header img)))) \<le> 1024 * 1024"
  shows "find_lolelffs_section_from_bdev bread alloc heap = find_lolelffs_section (file_read img) alloc heap"
proof -
  let ?kr = "file_read img"
  let ?eh = "dec_ehdr (?kr 0 64)"
  let ?str = "dec_shdr (?kr (shdr_pos ?eh (unat (e_shstrndx ?eh))) 64)"
  have rd: "read_from_bdev bread off n = (if length (?kr off n) = n then Some (?kr off n) else None)"
    if "n \<le> 1024 * 1024" for off n
    using read_from_bdev_eq [OF dev that, of off] by (simp only: file_read_def Let_def)
  have s: "\<not> 1024 * 1024 < sh_size ?str"
    using small by (simp add: elf_shdr_def elf_header_def file_read_def sizeof_Shdr_def sizeof_Ehdr_def not_less)
  then have u: "unat (sh_size ?str) \<le> 1024 * 1024" by (simp add: word_le_nat_alt not_less)
  show ?thesis
    unfolding find_lolelffs_section_from_bdev_def find_lolelffs_section_def sizeof_Ehdr_def sizeof_Shdr_def
      Let_def find_section_bdev_eq [OF dev]
    using s u by (simp add: rd)
qed


theorem find_section_bdev_equiv_witness:
  "holds tiny_bread tiny_elf \<and> find_lolelffs_section_from_bdev tiny_bread (\<lambda>_. True) [] = 8192"
proof -
  have "find_lolelffs_section (file_read tiny_elf) (\<lambda>_. True) [] = 8192" by code_simp
  then show ?thesis
    using find_section_bdev_equiv [OF tiny_holds, of "\<lambda>_. True" "[]"] tiny_holds
    by (simp add: tiny_header tiny_shdrs)
qed

text \<open>
  C19. In a well-formed 64-bit ELF image (header, section headers and section name table within
  the image, the table ending in a NUL) the search returns the offset of the first section whose
  name is \<^verbatim>\<open>.lolfs.super\<close>, and 0 if there is none, whatever lies in memory behind the table.
\<close>

theorem find_lolelffs_section_first:
  assumes hdr: "64 \<le> length img" and valid: "valid_ehdr (elf_header img)"
    and heads: "\<forall>i < unat (e_shnum (elf_header img)). unat (shdr_pos (elf_header img) i) + 64 \<le> length img"
    and tab: "length (elf_strtab img) = unat (sh_size (elf_shdr img (unat (e_shstrndx (elf_header img)))))"
      "elf_strtab img \<noteq> []" "last (elf_strtab img) = 0"
    and mem: "alloc (length (elf_strtab img))"
  shows "find_lolelffs_section (file_read img) alloc heap =
    (case find (\<lambda>i. unat (sh_name (elf_shdr img i)) < length (elf_strtab img)
                 \<and> cstr (drop (unat (sh_name (elf_shdr img i))) (elf_strtab img)) = LOLELFFS_SECTION)
            [0..<unat (e_shnum (elf_header img))] of
       None \<Rightarrow> 0 | Some i \<Rightarrow> sh_offset (elf_shdr img i))"
proof -
  let ?eh = "elf_header img" let ?kr = "file_read img"
  let ?n = "unat (e_shnum ?eh)" let ?x = "unat (e_shstrndx ?eh)" let ?tab = "elf_strtab img"
  have x: "?x < ?n" using valid by (auto simp: valid_ehdr_def word_le_nat_alt)
  have eh: "dec_ehdr (?kr 0 sizeof_Ehdr) = ?eh" "length (?kr 0 sizeof_Ehdr) = sizeof_Ehdr"
    using hdr by (simp_all add: elf_header_def file_read_def sizeof_Ehdr_def)
  have rd: "\<forall>i \<in> set [0..<?n]. length (?kr (shdr_pos ?eh i) sizeof_Shdr) = sizeof_Shdr"
    using heads by (auto simp: file_read_def sizeof_Shdr_def)
  have str: "dec_shdr (?kr (shdr_pos ?eh i) sizeof_Shdr) = elf_shdr img i" for i
    by (simp add: elf_shdr_def)
  have t: "?kr (sh_offset (elf_shdr img ?x)) (unat (sh_size (elf_shdr img ?x))) = ?tab"
    by (simp add: elf_strtab_def Let_def)
  have z: "\<exists>b \<in> set (drop k ?tab). b = 0" if "k < length ?tab" for k
    using that tab(2,3) last_in_set [of "drop k ?tab"] by (auto simp: last_drop)
  have nm: "unat (sh_name sh) < length ?tab \<and> section_named ?tab heap sh \<longleftrightarrow>
      unat (sh_name sh) < length ?tab \<and> cstr (drop (unat (sh_name sh)) ?tab) = LOLELFFS_SECTION" for sh
    using z [of "unat (sh_name sh)"] by (auto simp: section_named_def cstr_def takeWhile_append1)
  have "find_lolelffs_section ?kr alloc heap = find_section ?kr ?eh (elf_shdr img ?x) ?tab heap [0..<?n]"
    using rd x valid mem tab(1) by (simp add: find_lolelffs_section_def eh str t Let_def)
  then show ?thesis
    using nm tab(1) by (simp add: find_section_first [where kread = ?kr and eh = ?eh, OF rd] str Let_def word_less_nat_alt unat_ucast_u64
        cong: option.case_cong)
qed

theorem find_lolelffs_section_first_witness:
  "valid_ehdr (elf_header tiny_elf) \<and> find_lolelffs_section (file_read tiny_elf) (\<lambda>_. True) [1, 2] = 8192"
proof -
  have "[0..<3] = [0, Suc 0, 2]" by (simp add: upt_rec)
  then show ?thesis
    using find_lolelffs_section_first [OF tiny_wf, of "\<lambda>_. True" "[1, 2]"] tiny_wf(2)
    by (simp add: tiny_header tiny_shdrs tiny_strtab cstr_def LOLELFFS_SECTION_def)
qed


end
