(* ===== verification/Super.thy ===== *)
theory Super
  imports Vfs Elf
begin

text \<open>
  The superblock operations of \<^verbatim>\<open>src/super.c\<close>: flushing the superblock and the two
  bitmaps (\<open>lolelffs_sync_fs\<close>), file system statistics, and mounting (\<open>lolelffs_fill_super\<close>)
  with the search for the file system's section. In memory a bitmap is an array of
  \<^verbatim>\<open>unsigned long\<close>; on the little-endian machines the module supports, bit \<open>i\<close> of it is
  bit \<open>i mod 8\<close> of byte \<open>i div 8\<close>.

  Releasing memory on the error paths and the two registrations with the kernel's dentry cache
  and operation tables have no counterpart; after a failed mount the state is the one reached.
\<close>

section \<open>Bitmaps as bytes\<close>

definition BITS_PER_BLOCK :: nat where "BITS_PER_BLOCK = 8 * LOLELFFS_BLOCK_SIZE"

definition bits_of_bytes :: "bytes \<Rightarrow> bool list" where
  "bits_of_bytes bs = concat (map (\<lambda>b. map (bit b) [0..<8]) bs)"

fun bytes_of_bits :: "bool list \<Rightarrow> bytes" where
  "bytes_of_bits [] = []"
| "bytes_of_bits (x # xs) = horner_sum of_bool 2 (take 8 (x # xs)) # bytes_of_bits (drop 7 xs)"

section \<open>Flushing\<close>

text \<open>The two loops over the bitmap blocks; \<open>base\<close> is the block number of the first one.\<close>

fun sync_bitmap :: "bool list \<Rightarrow> u32 \<Rightarrow> nat list \<Rightarrow> fs \<Rightarrow> (errno + unit) \<times> fs" where
  "sync_bitmap bm base [] s = (Inr (), s)"
| "sync_bitmap bm base (i # is) s =
     (let k = int_sector s (base + of_nat i)
      in if \<not> readable s k then (Inl EIO, s)
         else if length bm < (i + 1) * BITS_PER_BLOCK \<or> 2 ^ 31 \<le> i * LOLELFFS_BLOCK_SIZE then (Inl OOPS, s)
         else sync_bitmap bm base is
                (store s k (bytes_of_bits (bytes_at (i * BITS_PER_BLOCK) BITS_PER_BLOCK bm))))"

definition flush_counters :: "sb_info \<Rightarrow> superblock \<Rightarrow> superblock" where
  "flush_counters b d = d\<lparr>info := (info d)\<lparr>nr_blocks := nr_blocks b, nr_inodes := nr_inodes b,
     nr_istore_blocks := nr_istore_blocks b, nr_ifree_blocks := nr_ifree_blocks b,
     nr_bfree_blocks := nr_bfree_blocks b, nr_free_inodes := nr_free_inodes b,
     nr_free_blocks := nr_free_blocks b\<rparr>\<rparr>"

definition lolelffs_sync_fs :: "fs \<Rightarrow> (errno + unit) \<times> fs" where
  "lolelffs_sync_fs s =
     (let b = sbi s; k = sector s 0
      in if \<not> readable s k then (Inl EIO, s)
         else
           (let s = store s k (enc_super (flush_counters b (dec_super (blocks s k))))
            in case sync_bitmap (ifree_bitmap b) (nr_istore_blocks b + 1) [0..<unat (nr_ifree_blocks b)] s of
                 (Inl e, s) \<Rightarrow> (Inl e, s)
               | (Inr _, s) \<Rightarrow>
                   sync_bitmap (bfree_bitmap b) (nr_istore_blocks b + nr_ifree_blocks b + 1)
                     [0..<unat (nr_bfree_blocks b)] s))"

record kstatfs =
  f_type :: u32
  f_bsize :: nat
  f_blocks :: u32
  f_bfree :: u32
  f_bavail :: u32
  f_files :: u32
  f_ffree :: u32
  f_namelen :: nat

definition lolelffs_statfs :: "fs \<Rightarrow> kstatfs" where
  "lolelffs_statfs s = \<lparr>f_type = LOLELFFS_MAGIC, f_bsize = LOLELFFS_BLOCK_SIZE,
     f_blocks = nr_blocks (sbi s), f_bfree = nr_free_blocks (sbi s), f_bavail = nr_free_blocks (sbi s),
     f_files = nr_inodes (sbi s) - nr_free_inodes (sbi s), f_ffree = nr_free_inodes (sbi s),
     f_namelen = LOLELFFS_FILENAME_LEN\<rparr>"

section \<open>Mounting\<close>

definition zero_sbi :: sb_info where
  "zero_sbi = \<lparr>magic = 0, nr_blocks = 0, nr_inodes = 0, nr_istore_blocks = 0, nr_ifree_blocks = 0,
     nr_bfree_blocks = 0, nr_free_inodes = 0, nr_free_blocks = 0, version = 0, comp_default_algo = 0,
     comp_enabled = 0, comp_min_block_size = 0, comp_features = 0, max_extent_blocks = 0,
     max_extent_blocks_large = 0, enc_enabled = 0, enc_default_algo = 0, enc_kdf_algo = 0,
     enc_kdf_iterations = 0, enc_kdf_memory = 0, enc_kdf_parallelism = 0, enc_salt = replicate 32 0,
     enc_master_key = replicate 32 0, enc_features = 0, reserved = replicate 12 0,
     ifree_bitmap = [], bfree_bitmap = [], fs_offset = 0,
     enc_master_key_decrypted = replicate 32 0, enc_unlocked = False\<rparr>"

definition sbi_of_disk :: "lolelffs_sb_info \<Rightarrow> nat \<Rightarrow> sb_info" where
  "sbi_of_disk csb off = zero_sbi\<lparr>nr_blocks := nr_blocks csb, nr_inodes := nr_inodes csb,
     nr_istore_blocks := nr_istore_blocks csb, nr_ifree_blocks := nr_ifree_blocks csb,
     nr_bfree_blocks := nr_bfree_blocks csb, nr_free_inodes := nr_free_inodes csb,
     nr_free_blocks := nr_free_blocks csb, fs_offset := off\<rparr>"

text \<open>
  The loops that copy a bitmap into \<open>kzalloc\<close>ed memory of \<open>alloc\<close> bytes; the size is computed
  in 32 bits, and a copy beyond it is undefined.
\<close>

fun load_bitmap :: "fs \<Rightarrow> u32 \<Rightarrow> nat \<Rightarrow> nat list \<Rightarrow> bytes \<Rightarrow> errno + bytes" where
  "load_bitmap s base alloc [] acc = Inr acc"
| "load_bitmap s base alloc (i # is) acc =
     (let k = int_sector s (base + of_nat i)
      in if \<not> readable s k then Inl EIO
         else if alloc < (i + 1) * LOLELFFS_BLOCK_SIZE \<or> 2 ^ 31 \<le> i * LOLELFFS_BLOCK_SIZE then Inl OOPS
         else load_bitmap s base alloc is (acc @ blocks s k))"

text \<open>
  \<open>bdev\<close> is the block device opened as a file, if that succeeds; \<open>heap\<close> the memory behind the
  section name table; \<open>init_owner\<close> the kernel's \<open>inode_init_owner\<close>.
\<close>

type_synonym owner = "vinode \<Rightarrow> vinode option \<Rightarrow> u16 \<Rightarrow> vinode"

definition mount_root :: "owner \<Rightarrow> fs \<Rightarrow> (errno + unit) \<times> fs" where
  "mount_root init_owner s =
     (case lolelffs_iget s 0 of
        (Inl e, s) \<Rightarrow> (Inl e, s)
      | (Inr _, s) \<Rightarrow>
          (let root = inode_of s 0;
               s = put_vinode s 0 (init_owner root None (vi_mode root));
               (ok, s) = kmalloc s
           in if ok then (Inr (), s) else (Inl ENOMEM, s)))"

definition lolelffs_fill_super ::
    "owner \<Rightarrow> (u64 \<Rightarrow> nat \<Rightarrow> bytes) option \<Rightarrow> bytes \<Rightarrow> fs \<Rightarrow> (errno + unit) \<times> fs" where
  "lolelffs_fill_super init_owner bdev heap s =
     (let (elf_ok, s) = kmalloc s;
          offset = (case bdev of None \<Rightarrow> 0
                    | Some kread \<Rightarrow> find_lolelffs_section kread (\<lambda>_. elf_ok) heap);
          off = unat offset div LOLELFFS_BLOCK_SIZE
      in if \<not> readable s off then (Inl EIO, s)
         else
           (let csb = info (dec_super (blocks s off))
            in if magic csb \<noteq> LOLELFFS_MAGIC then (Inl EINVAL, s)
               else
                 (let (ok, s) = kmalloc s
                  in if \<not> ok then (Inl ENOMEM, s)
                     else
                       (let s = s\<lparr>sbi := sbi_of_disk csb off\<rparr>; b = sbi s; (ok, s) = kmalloc s
                        in if \<not> ok then (Inl ENOMEM, s)
                           else
                             (case load_bitmap s (nr_istore_blocks b + 1)
                                     (unat (nr_ifree_blocks b * of_nat LOLELFFS_BLOCK_SIZE))
                                     [0..<unat (nr_ifree_blocks b)] [] of
                                Inl e \<Rightarrow> (Inl e, s)
                              | Inr ibs \<Rightarrow>
                                  (let s = s\<lparr>sbi := (sbi s)\<lparr>ifree_bitmap := bits_of_bytes ibs\<rparr>\<rparr>;
                                       (ok, s) = kmalloc s
                                   in if \<not> ok then (Inl ENOMEM, s)
                                      else
                                        (case load_bitmap s (nr_istore_blocks b + nr_ifree_blocks b + 1)
                                                (unat (nr_bfree_blocks b * of_nat LOLELFFS_BLOCK_SIZE))
                                                [0..<unat (nr_bfree_blocks b)] [] of
                                           Inl e \<Rightarrow> (Inl e, s)
                                         | Inr bbs \<Rightarrow>
                                             mount_root init_owner
                                               (s\<lparr>sbi := (sbi s)\<lparr>bfree_bitmap := bits_of_bytes bbs\<rparr>\<rparr>))))))))"

section \<open>Bits and bytes\<close>

lemma length_bits_of_bytes [simp]: "length (bits_of_bytes bs) = 8 * length bs"
  by (induction bs) (simp_all add: bits_of_bytes_def)

lemma bits_of_bytes_Cons: "bits_of_bytes (b # bs) = map (bit b) [0..<8] @ bits_of_bytes bs"
  by (simp add: bits_of_bytes_def)

lemma bits_of_bytes_append: "bits_of_bytes (as @ bs) = bits_of_bytes as @ bits_of_bytes bs"
  by (simp add: bits_of_bytes_def)

lemma bytes_of_bits_step:
  "xs \<noteq> [] \<Longrightarrow> bytes_of_bits xs = horner_sum of_bool 2 (take 8 xs) # bytes_of_bits (drop 8 xs)"
  by (cases xs) auto

lemma byte_of_bits: "horner_sum of_bool 2 (map (bit (b :: u8)) [0..<8]) = b"
  using horner_sum_bit_eq_take_bit [of b 8] by (simp add: take_bit_word_eq_self)

lemma bits_of_byte: "length xs = 8 \<Longrightarrow> map (bit (horner_sum of_bool 2 xs :: u8)) [0..<8] = xs"
  by (rule nth_equalityI) (simp_all add: bit_horner_sum_bit_word_iff)

lemma bytes_of_bits_of_bytes [simp]: "bytes_of_bits (bits_of_bytes bs) = bs"
proof (induction bs)
  case Nil
  then show ?case by (simp add: bits_of_bytes_def)
next
  case (Cons b bs)
  have "bits_of_bytes (b # bs) \<noteq> []" by (simp add: bits_of_bytes_Cons)
  from bytes_of_bits_step [OF this] show ?case
    by (simp add: bits_of_bytes_Cons byte_of_bits Cons)
qed

lemma bits_of_bytes_of_bits: "8 dvd length xs \<Longrightarrow> bits_of_bytes (bytes_of_bits xs) = xs"
proof (induction xs rule: length_induct)
  case (1 xs)
  show ?case
  proof (cases "xs = []")
    case False
    with 1(2) have "8 \<le> length xs" by (intro dvd_imp_le) simp_all
    moreover from this 1(2) have "8 dvd length (drop 8 xs)" by (simp add: dvd_minus_self)
    ultimately show ?thesis
      using 1(1) [rule_format, of "drop 8 xs"] False
      by (simp add: bytes_of_bits_step bits_of_bytes_Cons bits_of_byte)
  qed (simp add: bits_of_bytes_def)
qed

lemma length_bytes_of_bits: "8 dvd length xs \<Longrightarrow> length (bytes_of_bits xs) = length xs div 8"
  using length_bits_of_bytes [of "bytes_of_bits xs"] bits_of_bytes_of_bits [of xs] by simp

lemma nth_bits_of_bytes:
  "i < 8 * length bs \<Longrightarrow> bits_of_bytes bs ! i = bit (bs ! (i div 8)) (i mod 8)"
proof (induction bs arbitrary: i)
  case (Cons b bs)
  show ?case
  proof (cases "i < 8")
    case False
    then have "i = 8 + (i - 8)" by simp
    then obtain j where j: "i = 8 + j" by blast
    with Cons.prems have "j < 8 * length bs" by simp
    with j Cons.IH [of j] show ?thesis by (simp add: bits_of_bytes_Cons nth_append div_add_self1)
  qed (simp add: bits_of_bytes_Cons nth_append)
qed simp

text \<open>A bitmap block and the 32768 bits it holds.\<close>

interpretation bmc: codec bytes_of_bits bits_of_bytes "\<lambda>xs. length xs = BITS_PER_BLOCK" LOLELFFS_BLOCK_SIZE
  by unfold_locales (simp_all add: BITS_PER_BLOCK_def length_bytes_of_bits bits_of_bytes_of_bits)

section \<open>Flushing a bitmap\<close>

text \<open>
  Where the superblock's counters put things: the bitmaps follow the inode store, and the number
  of blocks stays below \<open>2 ^ 19\<close>, so that neither the \<open>int\<close> block number nor the 32-bit size of
  the memory overflows.
\<close>

lemma int_sector_run:
  assumes "unat base + n < 2 ^ 31" "i < n"
  shows "int_sector s (base + of_nat i) = unat base + i + fs_offset (sbi s)"
proof -
  have "unat (of_nat i :: u32) = i" using assms by (intro unat_of_nat_u32) simp
  then have "unat (base + of_nat i) = unat base + i" using assms by (subst unat_add_u32) simp_all
  then show ?thesis using assms by (simp add: int_sector_def sector_def)
qed

definition chunk :: "bool list \<Rightarrow> nat \<Rightarrow> bytes" where
  "chunk bm i = bytes_of_bits (bytes_at (i * BITS_PER_BLOCK) BITS_PER_BLOCK bm)"

lemma sync_bitmap_run:
  assumes base: "unat base + n < 2 ^ 31" and small: "n < 2 ^ 19" and len: "n * BITS_PER_BLOCK \<le> length bm"
    and "set is \<subseteq> {..<n}" and "\<And>i. i < n \<Longrightarrow> readable s (unat base + i + fs_offset (sbi s))"
  shows "\<exists>s'. sync_bitmap bm base is s = (Inr (), s') \<and> readable s' = readable s \<and> sbi s' = sbi s
     \<and> icache s' = icache s \<and> mem s' = mem s \<and> slab_ei s' = slab_ei s \<and> slab_data s' = slab_data s \<and> now s' = now s
     \<and> (\<forall>k. blocks s' k = (if \<exists>i \<in> set is. k = unat base + i + fs_offset (sbi s)
                           then chunk bm (k - fs_offset (sbi s) - unat base) else blocks s k))"
  using assms(4,5)
proof (induction "is" arbitrary: s)
  case (Cons i "is")
  then have i: "i < n" by simp
  have k: "int_sector s (base + of_nat i) = unat base + i + fs_offset (sbi s)"
    by (rule int_sector_run [OF base i])
  have "(i + 1) * BITS_PER_BLOCK \<le> n * BITS_PER_BLOCK" using i by (intro mult_le_mono1) simp
  with len have "\<not> length bm < (i + 1) * BITS_PER_BLOCK" by linarith
  moreover have "\<not> 2 ^ 31 \<le> i * LOLELFFS_BLOCK_SIZE" using i small by (simp add: size_defs)
  ultimately have "sync_bitmap bm base (i # is) s =
      sync_bitmap bm base is (store s (unat base + i + fs_offset (sbi s)) (chunk bm i))"
    using Cons.prems(2) [OF i] by (simp add: k Let_def chunk_def)
  moreover note Cons.IH [of "store s (unat base + i + fs_offset (sbi s)) (chunk bm i)"]
  ultimately show ?case using Cons.prems by auto
qed simp

lemma load_bitmap_run:
  assumes base: "unat base + n < 2 ^ 31" and small: "n < 2 ^ 19"
    and "is = [j..<n]" and "\<And>i. i < n \<Longrightarrow> readable s (unat base + i + fs_offset (sbi s))"
  shows "load_bitmap s base (n * LOLELFFS_BLOCK_SIZE) is acc =
     Inr (acc @ concat (map (\<lambda>i. blocks s (unat base + i + fs_offset (sbi s))) is))"
  using assms(3)
proof (induction "is" arbitrary: j acc)
  case (Cons i "is")
  have i: "i < n" "i = j" "is = [Suc j..<n]" using Cons.prems [symmetric] by (auto simp: upt_eq_Cons_conv)
  have k: "int_sector s (base + of_nat i) = unat base + i + fs_offset (sbi s)"
    by (rule int_sector_run [OF base i(1)])
  have "(i + 1) * LOLELFFS_BLOCK_SIZE \<le> n * LOLELFFS_BLOCK_SIZE" using i(1) by (intro mult_le_mono1) simp
  moreover have "\<not> 2 ^ 31 \<le> i * LOLELFFS_BLOCK_SIZE" using i(1) small by (simp add: size_defs)
  ultimately show ?case
    using assms(4) [OF i(1)] Cons.IH [OF i(3)] by (simp add: k Let_def not_less)
qed simp


lemma bits_of_chunk:
  "(i + 1) * BITS_PER_BLOCK \<le> length bm \<Longrightarrow>
   bits_of_bytes (chunk bm i) = bytes_at (i * BITS_PER_BLOCK) BITS_PER_BLOCK bm"
  unfolding chunk_def by (intro bmc.dec_enc) simp

lemma bits_of_chunks:
  "n * BITS_PER_BLOCK \<le> length bm \<Longrightarrow>
   bits_of_bytes (concat (map (chunk bm) [0..<n])) = take (n * BITS_PER_BLOCK) bm"
proof (induction n)
  case 0
  then show ?case by (simp add: bits_of_bytes_def)
next
  case (Suc n)
  then have "(n + 1) * BITS_PER_BLOCK \<le> length bm" by simp
  moreover have "take (Suc n * BITS_PER_BLOCK) bm =
      take (n * BITS_PER_BLOCK) bm @ take BITS_PER_BLOCK (drop (n * BITS_PER_BLOCK) bm)"
    using take_add [of "n * BITS_PER_BLOCK" BITS_PER_BLOCK bm] by (simp add: add.commute)
  ultimately show ?case
    using Suc by (simp add: bits_of_bytes_append bits_of_chunk bytes_at_def)
qed

section \<open>The layout of a mounted file system\<close>

definition first_ifree :: "fs \<Rightarrow> nat" where
  "first_ifree s = unat (nr_istore_blocks (sbi s)) + 1 + fs_offset (sbi s)"

definition first_bfree :: "fs \<Rightarrow> nat" where
  "first_bfree s = first_ifree s + unat (nr_ifree_blocks (sbi s))"

definition first_data :: "fs \<Rightarrow> nat" where
  "first_data s = first_bfree s + unat (nr_bfree_blocks (sbi s))"

text \<open>
  \<open>mounted s\<close>: the bitmaps in memory have the size the superblock gives them, there is an inode 0,
  the numbers are small enough for the code's arithmetic, and the metadata blocks can be read.
\<close>

definition mounted :: "fs \<Rightarrow> bool" where
  "mounted s \<longleftrightarrow>
     length (ifree_bitmap (sbi s)) = unat (nr_ifree_blocks (sbi s)) * BITS_PER_BLOCK
     \<and> length (bfree_bitmap (sbi s)) = unat (nr_bfree_blocks (sbi s)) * BITS_PER_BLOCK
     \<and> unat (nr_ifree_blocks (sbi s)) < 2 ^ 19 \<and> unat (nr_bfree_blocks (sbi s)) < 2 ^ 19
     \<and> unat (nr_istore_blocks (sbi s)) < 2 ^ 30 \<and> 0 < nr_inodes (sbi s) \<and> 0 < nr_istore_blocks (sbi s)
     \<and> (\<forall>k. fs_offset (sbi s) \<le> k \<and> k < first_data s \<longrightarrow> readable s k)"

definition disk_super :: "fs \<Rightarrow> superblock" where
  "disk_super s = dec_super (blocks s (sector s 0))"

lemma sector_0: "sector s 0 = fs_offset (sbi s)"
  by (simp add: sector_def)

lemma base_ifree:
  assumes "mounted s"
  shows "unat (nr_istore_blocks (sbi s) + 1) = unat (nr_istore_blocks (sbi s)) + 1"
    and "unat (nr_istore_blocks (sbi s) + nr_ifree_blocks (sbi s) + 1)
         = unat (nr_istore_blocks (sbi s)) + unat (nr_ifree_blocks (sbi s)) + 1"
proof -
  have "unat (nr_istore_blocks (sbi s)) < 2 ^ 30" "unat (nr_ifree_blocks (sbi s)) < 2 ^ 19"
    using assms by (simp_all add: mounted_def)
  then show "unat (nr_istore_blocks (sbi s) + 1) = unat (nr_istore_blocks (sbi s)) + 1"
    "unat (nr_istore_blocks (sbi s) + nr_ifree_blocks (sbi s) + 1)
         = unat (nr_istore_blocks (sbi s)) + unat (nr_ifree_blocks (sbi s)) + 1"
    by (simp_all add: unat_add_u32)
qed

lemma bitmap_sectors:
  assumes m: "mounted s"
  shows "(\<exists>i \<in> set [0..<unat (nr_ifree_blocks (sbi s))]. k = unat (nr_istore_blocks (sbi s) + 1) + i + fs_offset (sbi s))
      \<longleftrightarrow> first_ifree s \<le> k \<and> k < first_bfree s"
    and "(\<exists>i \<in> set [0..<unat (nr_bfree_blocks (sbi s))].
        k = unat (nr_istore_blocks (sbi s) + nr_ifree_blocks (sbi s) + 1) + i + fs_offset (sbi s))
      \<longleftrightarrow> first_bfree s \<le> k \<and> k < first_data s"
    and "k - fs_offset (sbi s) - unat (nr_istore_blocks (sbi s) + 1) = k - first_ifree s"
    and "k - fs_offset (sbi s) - unat (nr_istore_blocks (sbi s) + nr_ifree_blocks (sbi s) + 1) = k - first_bfree s"
  using base_ifree [OF m]
  by (auto simp: first_data_def first_bfree_def first_ifree_def
      intro: bexI [of _ "k - first_ifree s"] bexI [of _ "k - first_bfree s"])

lemma sync_fs_effect:
  assumes m: "mounted s"
  shows "\<exists>s'. lolelffs_sync_fs s = (Inr (), s') \<and> readable s' = readable s \<and> sbi s' = sbi s
     \<and> icache s' = icache s \<and> mem s' = mem s \<and> slab_ei s' = slab_ei s \<and> slab_data s' = slab_data s \<and> now s' = now s
     \<and> (\<forall>k. blocks s' k =
          (if k = fs_offset (sbi s) then enc_super (flush_counters (sbi s) (disk_super s))
           else if first_ifree s \<le> k \<and> k < first_bfree s then chunk (ifree_bitmap (sbi s)) (k - first_ifree s)
           else if first_bfree s \<le> k \<and> k < first_data s then chunk (bfree_bitmap (sbi s)) (k - first_bfree s)
           else blocks s k))"
proof -
  let ?b = "sbi s" let ?ni = "unat (nr_ifree_blocks ?b)" let ?nb = "unat (nr_bfree_blocks ?b)"
  let ?bi = "nr_istore_blocks ?b + 1" let ?bb = "nr_istore_blocks ?b + nr_ifree_blocks ?b + 1"
  note bases = base_ifree [OF m]
  have lim: "?ni < 2 ^ 19" "?nb < 2 ^ 19" "unat (nr_istore_blocks ?b) < 2 ^ 30"
    and li: "?ni * BITS_PER_BLOCK \<le> length (ifree_bitmap ?b)" and lb: "?nb * BITS_PER_BLOCK \<le> length (bfree_bitmap ?b)"
    using m by (simp_all add: mounted_def)
  have rd: "readable s k" if "fs_offset ?b \<le> k" "k < first_data s" for k
    using m that by (simp add: mounted_def)
  define s1 where "s1 = store s (sector s 0) (enc_super (flush_counters ?b (dec_super (blocks s (sector s 0)))))"
  have f1: "sbi s1 = ?b" "readable s1 = readable s" "icache s1 = icache s" "mem s1 = mem s"
    "slab_ei s1 = slab_ei s" "slab_data s1 = slab_data s" "now s1 = now s"
    by (simp_all add: s1_def)
  note first = first_data_def first_bfree_def first_ifree_def
  have r1: "readable s1 (unat ?bi + i + fs_offset (sbi s1))" if "i < ?ni" for i
    using rd [of "unat ?bi + i + fs_offset ?b"] that by (simp add: f1 bases first)
  have b1: "unat ?bi + ?ni < 2 ^ 31" "unat ?bb + ?nb < 2 ^ 31" using lim by (simp_all add: bases)
  have sub: "set [0..<n] \<subseteq> {..<n}" for n by auto
  from sync_bitmap_run [OF b1(1) lim(1) li sub r1] obtain s2
    where s2: "sync_bitmap (ifree_bitmap ?b) ?bi [0..<?ni] s1 = (Inr (), s2)"
    and f2: "readable s2 = readable s" "sbi s2 = ?b" "icache s2 = icache s" "mem s2 = mem s" "slab_ei s2 = slab_ei s"
      "slab_data s2 = slab_data s" "now s2 = now s"
      "\<And>k. blocks s2 k = (if \<exists>i \<in> set [0..<?ni]. k = unat ?bi + i + fs_offset ?b
              then chunk (ifree_bitmap ?b) (k - fs_offset ?b - unat ?bi) else blocks s1 k)"
    unfolding f1 by auto
  have r2: "readable s2 (unat ?bb + i + fs_offset (sbi s2))" if "i < ?nb" for i
    using rd [of "unat ?bb + i + fs_offset ?b"] that by (simp add: f2 bases first)
  from sync_bitmap_run [OF b1(2) lim(2) lb sub r2] obtain s3
    where s3: "sync_bitmap (bfree_bitmap ?b) ?bb [0..<?nb] s2 = (Inr (), s3)"
    and f3: "readable s3 = readable s" "sbi s3 = ?b" "icache s3 = icache s" "mem s3 = mem s" "slab_ei s3 = slab_ei s"
      "slab_data s3 = slab_data s" "now s3 = now s"
      "\<And>k. blocks s3 k = (if \<exists>i \<in> set [0..<?nb]. k = unat ?bb + i + fs_offset ?b
              then chunk (bfree_bitmap ?b) (k - fs_offset ?b - unat ?bb) else blocks s2 k)"
    unfolding f2 by auto
  have sync: "lolelffs_sync_fs s = (Inr (), s3)"
    using rd [of "fs_offset ?b"] s2 s3
    by (simp add: lolelffs_sync_fs_def Let_def s1_def [unfolded sector_0, symmetric] sector_0 first)
  have "blocks s3 k =
      (if k = fs_offset ?b then enc_super (flush_counters ?b (disk_super s))
       else if first_ifree s \<le> k \<and> k < first_bfree s then chunk (ifree_bitmap ?b) (k - first_ifree s)
       else if first_bfree s \<le> k \<and> k < first_data s then chunk (bfree_bitmap ?b) (k - first_bfree s)
       else blocks s k)" for k
    unfolding f3(8) f2(8) bitmap_sectors [OF m]
    by (simp add: s1_def sector_0 disk_super_def first_bfree_def first_ifree_def)
  with sync f3 show ?thesis by auto
qed


section \<open>Mounting what was flushed\<close>

definition mount_offset :: "(u64 \<Rightarrow> nat \<Rightarrow> bytes) option \<Rightarrow> bytes \<Rightarrow> nat" where
  "mount_offset bdev heap =
     unat (case bdev of None \<Rightarrow> 0 | Some kread \<Rightarrow> find_lolelffs_section kread (\<lambda>_. True) heap) div LOLELFFS_BLOCK_SIZE"

text \<open>The run of \<open>n\<close> blocks from \<open>k\<close>, as one string of bytes.\<close>

definition run_bytes :: "fs \<Rightarrow> nat \<Rightarrow> nat \<Rightarrow> bytes" where
  "run_bytes s k n = concat (map (\<lambda>i. blocks s (k + i)) [0..<n])"

lemma load_bitmap_bytes:
  assumes "unat base + n < 2 ^ 31" "n < 2 ^ 19" "\<And>i. i < n \<Longrightarrow> readable s (unat base + i + fs_offset (sbi s))"
  shows "load_bitmap s base (n * LOLELFFS_BLOCK_SIZE) [0..<n] [] = Inr (run_bytes s (unat base + fs_offset (sbi s)) n)"
  using load_bitmap_run [OF assms(1,2) refl assms(3), of 0 "[]"]
  by (simp add: run_bytes_def add.assoc add.commute [of "fs_offset (sbi s)"])

definition loaded_sbi :: "fs \<Rightarrow> nat \<Rightarrow> sb_info" where
  "loaded_sbi s off =
     (let b = sbi_of_disk (info (dec_super (blocks s off))) off;
          ki = unat (nr_istore_blocks b) + 1 + off; kb = ki + unat (nr_ifree_blocks b)
      in b\<lparr>ifree_bitmap := bits_of_bytes (run_bytes s ki (unat (nr_ifree_blocks b))),
           bfree_bitmap := bits_of_bytes (run_bytes s kb (unat (nr_bfree_blocks b)))\<rparr>)"

lemma kmalloc_succeeds [simp]: "mem s = [] \<Longrightarrow> kmalloc s = (True, s)"
  by (simp add: kmalloc_def)

lemma alloc_size: "unat n < 2 ^ 19 \<Longrightarrow> unat (n * of_nat LOLELFFS_BLOCK_SIZE :: u32) = unat n * LOLELFFS_BLOCK_SIZE"
  by (simp add: size_defs unat_word_ariths)

lemma fill_super_ok:
  assumes mem: "mem s = []" and off: "mount_offset bdev heap = off"
    and magic: "magic (info (dec_super (blocks s off))) = LOLELFFS_MAGIC"
    and m: "mounted (s\<lparr>sbi := loaded_sbi s off\<rparr>)"
  shows "lolelffs_fill_super own bdev heap s = mount_root own (s\<lparr>sbi := loaded_sbi s off\<rparr>)"
proof -
  let ?b = "sbi_of_disk (info (dec_super (blocks s off))) off"
  let ?ni = "unat (nr_ifree_blocks ?b)" let ?nb = "unat (nr_bfree_blocks ?b)"
  let ?bi = "nr_istore_blocks ?b + 1" let ?bb = "nr_istore_blocks ?b + nr_ifree_blocks ?b + 1"
  have b: "fs_offset ?b = off" "fs_offset (loaded_sbi s off) = off" "nr_istore_blocks (loaded_sbi s off) = nr_istore_blocks ?b"
    "nr_ifree_blocks (loaded_sbi s off) = nr_ifree_blocks ?b" "nr_bfree_blocks (loaded_sbi s off) = nr_bfree_blocks ?b"
    by (simp_all add: loaded_sbi_def Let_def sbi_of_disk_def)
  note bases = base_ifree [OF m, simplified, unfolded b]
  have lim: "?ni < 2 ^ 19" "?nb < 2 ^ 19" "unat (nr_istore_blocks ?b) < 2 ^ 30" using m by (simp_all add: mounted_def b)
  have rd: "readable s k" if "off \<le> k" "k < unat (nr_istore_blocks ?b) + 1 + off + ?ni + ?nb" for k
    using m that by (simp add: mounted_def b first_data_def first_bfree_def first_ifree_def)
  have b1: "unat ?bi + ?ni < 2 ^ 31" "unat ?bb + ?nb < 2 ^ 31" using lim by (simp_all add: bases)
  have k: "unat ?bi + off = unat (nr_istore_blocks ?b) + 1 + off"
    "unat ?bb + off = unat (nr_istore_blocks ?b) + 1 + off + ?ni"
    by (simp_all add: bases)
  have r: "readable s (unat ?bi + i + off)" if "i < ?ni" for i
    using rd [of "unat ?bi + i + off"] that by (simp add: bases)
  have r': "readable s (unat ?bb + i + off)" if "i < ?nb" for i
    using rd [of "unat ?bb + i + off"] that by (simp add: bases)
  have li: "load_bitmap t ?bi (unat (nr_ifree_blocks ?b * of_nat LOLELFFS_BLOCK_SIZE)) [0..<?ni] [] =
      Inr (run_bytes s (unat (nr_istore_blocks ?b) + 1 + off) ?ni)"
    if "blocks t = blocks s" "readable t = readable s" "fs_offset (sbi t) = off" for t
    using load_bitmap_bytes [OF b1(1) lim(1), of t] r that
    unfolding alloc_size [OF lim(1)] k(1) [symmetric] by (simp add: run_bytes_def)
  have lb: "load_bitmap t ?bb (unat (nr_bfree_blocks ?b * of_nat LOLELFFS_BLOCK_SIZE)) [0..<?nb] [] =
      Inr (run_bytes s (unat (nr_istore_blocks ?b) + 1 + off + ?ni) ?nb)"
    if "blocks t = blocks s" "readable t = readable s" "fs_offset (sbi t) = off" for t
    using load_bitmap_bytes [OF b1(2) lim(2), of t] r' that
    unfolding alloc_size [OF lim(2)] k(2) [symmetric] by (simp add: run_bytes_def)
  have off': "unat (case bdev of None \<Rightarrow> 0 | Some kread \<Rightarrow> find_lolelffs_section kread (\<lambda>_. True) heap)
      div LOLELFFS_BLOCK_SIZE = off"
    using off by (simp add: mount_offset_def)
  show ?thesis
    using mem magic rd [of off]
    by (simp add: lolelffs_fill_super_def off' Let_def li lb b(1) loaded_sbi_def)
qed

lemma vi_mode_of_disk [simp]: "vi_mode (vinode_of_disk s c) = ucast (i_mode c)"
  by (simp add: vinode_of_disk_def Let_def)

lemma mount_root_ok:
  assumes "mem s = []" "icache s 0 = None" "0 < nr_inodes (sbi s)" "readable s (fs_offset (sbi s) + 1)"
  shows "\<exists>s'. mount_root own s = (Inr (), s') \<and> sbi s' = sbi s \<and> blocks s' = blocks s \<and> readable s' = readable s \<and> mem s' = mem s
     \<and> icache s' = (icache s)(0 := Some (own (vinode_of_disk s (disk_inode s 0)) None (ucast (i_mode (disk_inode s 0)))))"
proof -
  have "istore_sector s 0 = fs_offset (sbi s) + 1" by (simp add: istore_sector_def)
  moreover have "\<not> nr_inodes (sbi s) \<le> 0" using assms(3) by (simp add: not_le)
  ultimately have "lolelffs_iget s 0 = (Inr 0, put_vinode s 0 (vinode_of_disk s (disk_inode s 0)))"
    using assms(1,2,4) by (simp add: lolelffs_iget_def)
  then show ?thesis
    using assms(1) by (auto simp: mount_root_def Let_def kmalloc_def fun_eq_iff vi_mode_of_disk)
qed


lemma run_bytes_chunks:
  assumes "\<And>i. i < n \<Longrightarrow> blocks s (k + i) = chunk bm i" "length bm = n * BITS_PER_BLOCK"
  shows "bits_of_bytes (run_bytes s k n) = bm"
proof -
  have "run_bytes s k n = concat (map (chunk bm) [0..<n])"
    unfolding run_bytes_def by (intro arg_cong [where f = concat] map_cong) (simp_all add: assms(1))
  then show ?thesis using bits_of_chunks [of n bm] assms(2) by simp
qed

text \<open>
  What survives an unmount: the counters, the bitmaps and the offset. Everything else in the
  superblock in memory is zero after the mount.
\<close>

definition remounted_sbi :: "sb_info \<Rightarrow> sb_info" where
  "remounted_sbi b = zero_sbi\<lparr>nr_blocks := nr_blocks b, nr_inodes := nr_inodes b,
     nr_istore_blocks := nr_istore_blocks b, nr_ifree_blocks := nr_ifree_blocks b,
     nr_bfree_blocks := nr_bfree_blocks b, nr_free_inodes := nr_free_inodes b,
     nr_free_blocks := nr_free_blocks b, fs_offset := fs_offset b,
     ifree_bitmap := ifree_bitmap b, bfree_bitmap := bfree_bitmap b\<rparr>"

lemma wf_super_flush: "wf_super d \<Longrightarrow> wf_super (flush_counters b d)"
  by (simp add: wf_super_def flush_counters_def wf_sb_def)

lemma dec_super_flush:
  assumes "wf_dev s"
  shows "dec_super (enc_super (flush_counters b (disk_super s))) = flush_counters b (disk_super s)"
  unfolding disk_super_def by (intro suc.dec_enc wf_super_flush suc.ok_dec wf_devD assms)

lemma loaded_after_sync:
  assumes m: "mounted s" and wf: "wf_dev s" and sync: "lolelffs_sync_fs s = (Inr (), s')"
    and t: "blocks t = blocks s'"
  shows "loaded_sbi t (fs_offset (sbi s)) = remounted_sbi (sbi s)"
proof -
  let ?b = "sbi s" let ?off = "fs_offset ?b"
  have bl: "blocks t k =
          (if k = ?off then enc_super (flush_counters ?b (disk_super s))
           else if first_ifree s \<le> k \<and> k < first_bfree s then chunk (ifree_bitmap ?b) (k - first_ifree s)
           else if first_bfree s \<le> k \<and> k < first_data s then chunk (bfree_bitmap ?b) (k - first_bfree s)
           else blocks s k)" for k
    using sync_fs_effect [OF m] sync t by auto
  have d: "sbi_of_disk (info (dec_super (blocks t ?off))) ?off = sbi_of_disk (info (flush_counters ?b (disk_super s))) ?off"
    by (simp add: bl dec_super_flush [OF wf])
  have n: "nr_istore_blocks (sbi_of_disk (info (flush_counters ?b d)) x) = nr_istore_blocks ?b"
    "nr_ifree_blocks (sbi_of_disk (info (flush_counters ?b d)) x) = nr_ifree_blocks ?b"
    "nr_bfree_blocks (sbi_of_disk (info (flush_counters ?b d)) x) = nr_bfree_blocks ?b" for d x
    by (simp_all add: sbi_of_disk_def flush_counters_def)
  have "bits_of_bytes (run_bytes t (first_ifree s) (unat (nr_ifree_blocks ?b))) = ifree_bitmap ?b"
    by (rule run_bytes_chunks) (use m in \<open>auto simp: bl mounted_def first_ifree_def first_bfree_def\<close>)
  moreover have "bits_of_bytes (run_bytes t (first_bfree s) (unat (nr_bfree_blocks ?b))) = bfree_bitmap ?b"
    by (rule run_bytes_chunks) (use m in \<open>auto simp: bl mounted_def first_ifree_def first_bfree_def first_data_def\<close>)
  ultimately show ?thesis
    unfolding loaded_sbi_def Let_def d n first_ifree_def first_bfree_def
    by (simp add: sbi_of_disk_def flush_counters_def remounted_sbi_def)
qed

lemma mounted_remounted: "mounted s \<Longrightarrow> readable t = readable s \<Longrightarrow> mounted (t\<lparr>sbi := remounted_sbi (sbi s)\<rparr>)"
  by (simp add: mounted_def remounted_sbi_def first_data_def first_bfree_def first_ifree_def zero_sbi_def)


lemma iget_sbi: "lolelffs_iget s ino = (r, s') \<Longrightarrow> sbi s' = sbi s"
  by (auto simp: lolelffs_iget_def Let_def split: if_splits option.splits prod.splits dest: kmalloc_frame)

lemma mount_root_sbi: "mount_root own s = (r, s') \<Longrightarrow> sbi s' = sbi s"
  by (auto simp: mount_root_def Let_def split: if_splits sum.splits prod.splits
      dest!: kmalloc_frame iget_sbi)

section \<open>What flushing and mounting guarantee\<close>

lemma mount_after_sync:
  assumes m: "mounted s" and wf: "wf_dev s" and magic: "magic (info (disk_super s)) = LOLELFFS_MAGIC"
    and mem: "mem s = []" and sync: "lolelffs_sync_fs s = (r, s')"
    and t: "t = s'\<lparr>sbi := zero_sbi, icache := (\<lambda>_. None)\<rparr>"
    and off: "mount_offset bdev heap = fs_offset (sbi s)"
    and fill: "lolelffs_fill_super own bdev heap t = (r', t')"
  shows "r = Inr () \<and> r' = Inr () \<and> sbi t' = remounted_sbi (sbi s)"
proof -
  obtain s1 where s1: "lolelffs_sync_fs s = (Inr (), s1)" "readable s1 = readable s" "mem s1 = mem s"
    "blocks s1 (fs_offset (sbi s)) = enc_super (flush_counters (sbi s) (disk_super s))"
    using sync_fs_effect [OF m] by auto
  with sync have r: "r = Inr ()" "s1 = s'" by auto
  have b: "loaded_sbi t (fs_offset (sbi s)) = remounted_sbi (sbi s)"
    using loaded_after_sync [OF m wf] s1 r by (simp add: t)
  have "magic (info (dec_super (blocks t (fs_offset (sbi s))))) = LOLELFFS_MAGIC"
    using s1 r magic by (simp add: t dec_super_flush [OF wf]) (simp add: flush_counters_def)
  moreover have m': "mounted (t\<lparr>sbi := remounted_sbi (sbi s)\<rparr>)"
    using mounted_remounted [OF m, of t] s1 r by (simp add: t)
  ultimately have f: "lolelffs_fill_super own bdev heap t = mount_root own (t\<lparr>sbi := remounted_sbi (sbi s)\<rparr>)"
    using fill_super_ok [OF _ off, of t own] b mem s1 r by (simp add: t)
  have "0 < nr_inodes (sbi s)" "readable s (fs_offset (sbi s) + 1)"
    using m by (auto simp: mounted_def first_data_def first_bfree_def first_ifree_def word_less_nat_alt)
  then obtain t1 where "mount_root own (t\<lparr>sbi := remounted_sbi (sbi s)\<rparr>) = (Inr (), t1)" "sbi t1 = remounted_sbi (sbi s)"
    using mount_root_ok [of "t\<lparr>sbi := remounted_sbi (sbi s)\<rparr>" own] mem s1 r
    by (auto simp: t remounted_sbi_def)
  with fill f r show ?thesis by auto
qed

text \<open>A mounted file system for the witnesses: a superblock with compression on, full-size bitmaps.\<close>

definition demo_super :: superblock where
  "demo_super = \<lparr>info = (lolelffs_sb_info.truncate zero_sbi)\<lparr>magic := LOLELFFS_MAGIC, comp_enabled := 1\<rparr>,
     padding = replicate (LOLELFFS_BLOCK_SIZE - sizeof_sb_info) 0\<rparr>"

definition demo_fs :: fs where
  "demo_fs = tiny_fs\<lparr>blocks := (\<lambda>_. zero_block)(0 := enc_super demo_super),
     sbi := tiny_sbi\<lparr>ifree_bitmap := ifree_bitmap tiny_sbi @ replicate (BITS_PER_BLOCK - 4) False,
                    bfree_bitmap := bfree_bitmap tiny_sbi @ replicate (BITS_PER_BLOCK - 8) False\<rparr>\<rparr>"

lemma demo_wf_super: "wf_super demo_super"
  by (simp add: wf_super_def demo_super_def wf_sb_def zero_sbi_def lolelffs_sb_info.truncate_def)

lemma demo_wf_dev: "wf_dev demo_fs"
  by (simp add: wf_dev_def demo_fs_def suc.length_enc demo_wf_super)

lemma demo_mounted: "mounted demo_fs"
  by (simp add: mounted_def demo_fs_def tiny_fs_def tiny_sbi_def BITS_PER_BLOCK_def size_defs)

lemma demo_magic: "magic (info (disk_super demo_fs)) = LOLELFFS_MAGIC" "mem demo_fs = []"
  by (simp_all add: disk_super_def demo_fs_def sector_def tiny_fs_def tiny_sbi_def suc.dec_enc demo_wf_super)
    (simp add: demo_super_def)

text \<open>
  C3. Flushing and mounting again loses nothing of the allocation state: after a successful
  \<open>sync_fs\<close>, mounting the device gives the block and inode counters, both free counters and both
  bitmaps back as they were in memory; all other fields of the in-memory superblock are zero.
\<close>

theorem sync_then_mount:
  assumes m: "mounted s" and wf: "wf_dev s" and magic: "magic (info (disk_super s)) = LOLELFFS_MAGIC"
    and mem: "mem s = []" and sync: "lolelffs_sync_fs s = (r, s')"
    and t: "t = s'\<lparr>sbi := zero_sbi, icache := (\<lambda>_. None)\<rparr>"
    and off: "mount_offset bdev heap = fs_offset (sbi s)"
    and fill: "lolelffs_fill_super own bdev heap t = (r', t')"
  shows "r = Inr () \<and> r' = Inr () \<and> sbi t' = remounted_sbi (sbi s)"
  using mount_after_sync [OF m wf magic mem sync t off fill] .

theorem sync_then_mount_witness:
  "\<exists>s' t'. lolelffs_sync_fs demo_fs = (Inr (), s')
     \<and> lolelffs_fill_super (\<lambda>i d m. i) None [] (s'\<lparr>sbi := zero_sbi, icache := (\<lambda>_. None)\<rparr>) = (Inr (), t')
     \<and> nr_free_blocks (sbi t') = 5"
proof -
  obtain r s' where s: "lolelffs_sync_fs demo_fs = (r, s')" by fastforce
  obtain r' t' where t: "lolelffs_fill_super (\<lambda>i d m. i) None [] (s'\<lparr>sbi := zero_sbi, icache := (\<lambda>_. None)\<rparr>) = (r', t')"
    by fastforce
  have "mount_offset None [] = fs_offset (sbi demo_fs)"
    by (simp add: mount_offset_def demo_fs_def tiny_sbi_def size_defs)
  from sync_then_mount [OF demo_mounted demo_wf_dev demo_magic s refl this t] s t show ?thesis
    by (simp add: remounted_sbi_def demo_fs_def tiny_sbi_def)
qed

text \<open>
  Flushing changes nothing else: on disk the magic number, the version and the compression
  and encryption settings of the superblock stay as they were, and so does every block that is
  neither the superblock nor a bitmap block.
\<close>

theorem sync_fs_frame:
  assumes m: "mounted s" and wf: "wf_dev s" and sync: "lolelffs_sync_fs s = (r, s')"
  shows "r = Inr () \<and> sbi s' = sbi s \<and> icache s' = icache s
    \<and> (let d = info (disk_super s); d' = info (disk_super s')
       in magic d' = magic d \<and> version d' = version d \<and> comp_enabled d' = comp_enabled d
          \<and> comp_default_algo d' = comp_default_algo d \<and> enc_enabled d' = enc_enabled d
          \<and> enc_salt d' = enc_salt d \<and> enc_master_key d' = enc_master_key d
          \<and> nr_free_blocks d' = nr_free_blocks (sbi s) \<and> nr_free_inodes d' = nr_free_inodes (sbi s))
    \<and> (\<forall>k. k < fs_offset (sbi s) \<or> fs_offset (sbi s) < k \<and> k < first_ifree s \<or> first_data s \<le> k \<longrightarrow>
          blocks s' k = blocks s k)"
proof -
  obtain s1 where s1: "lolelffs_sync_fs s = (Inr (), s1)" "sbi s1 = sbi s" "icache s1 = icache s"
    "\<And>k. blocks s1 k =
          (if k = fs_offset (sbi s) then enc_super (flush_counters (sbi s) (disk_super s))
           else if first_ifree s \<le> k \<and> k < first_bfree s then chunk (ifree_bitmap (sbi s)) (k - first_ifree s)
           else if first_bfree s \<le> k \<and> k < first_data s then chunk (bfree_bitmap (sbi s)) (k - first_bfree s)
           else blocks s k)"
    using sync_fs_effect [OF m] by auto
  with sync have r: "r = Inr ()" "s' = s1" by auto
  have d: "disk_super s' = flush_counters (sbi s) (disk_super s)"
    unfolding disk_super_def [of s'] using s1 by (simp add: r sector_0 dec_super_flush [OF wf])
  have "first_ifree s \<le> first_bfree s" "first_bfree s \<le> first_data s" "fs_offset (sbi s) < first_ifree s"
    by (simp_all add: first_data_def first_bfree_def first_ifree_def)
  with s1 r d show ?thesis by (auto simp: Let_def flush_counters_def)
qed

theorem sync_fs_frame_witness:
  "mounted demo_fs \<and> comp_enabled (info (disk_super (snd (lolelffs_sync_fs demo_fs)))) = 1"
proof -
  obtain r s' where s: "lolelffs_sync_fs demo_fs = (r, s')" by fastforce
  have "comp_enabled (info (disk_super demo_fs)) = 1"
    by (simp add: disk_super_def demo_fs_def sector_def tiny_sbi_def suc.dec_enc demo_wf_super)
      (simp add: demo_super_def)
  with sync_fs_frame [OF demo_mounted demo_wf_dev s] s demo_mounted show ?thesis by (simp add: Let_def)
qed

text \<open>
  Mounting reads only the counters and bitmaps: whatever the superblock on disk says, after a
  successful mount compression and encryption are off, the large extent limit is zero and the file
  system is locked, so no block written through the mount is compressed or encrypted.
\<close>

theorem mount_forgets_settings:
  assumes "lolelffs_fill_super own bdev heap s = (Inr (), s')"
  shows "comp_enabled (sbi s') = 0 \<and> comp_default_algo (sbi s') = 0 \<and> enc_enabled (sbi s') = 0
     \<and> max_extent_blocks_large (sbi s') = 0 \<and> \<not> enc_unlocked (sbi s')"
  using assms
  by (auto simp: lolelffs_fill_super_def Let_def sbi_of_disk_def zero_sbi_def
      split: if_splits sum.splits prod.splits dest!: kmalloc_frame mount_root_sbi)


theorem mount_forgets_settings_witness:
  "\<exists>s s'. comp_enabled (info (disk_super s)) = 1 \<and> lolelffs_fill_super (\<lambda>i d m. i) None [] s = (Inr (), s')
     \<and> comp_enabled (sbi s') = 0"
proof -
  obtain r s' where s: "lolelffs_sync_fs demo_fs = (r, s')" by fastforce
  let ?t = "s'\<lparr>sbi := zero_sbi, icache := (\<lambda>_. None)\<rparr>"
  obtain r' t' where t: "lolelffs_fill_super (\<lambda>i d m. i) None [] ?t = (r', t')" by fastforce
  have off: "fs_offset (sbi demo_fs) = 0" "mount_offset None [] = 0"
    by (simp_all add: mount_offset_def demo_fs_def tiny_sbi_def size_defs)
  then have "mount_offset None [] = fs_offset (sbi demo_fs)" by simp
  from mount_after_sync [OF demo_mounted demo_wf_dev demo_magic s refl this t] have r': "r' = Inr ()" by simp
  have "blocks s' 0 = enc_super (flush_counters (sbi demo_fs) (disk_super demo_fs))"
    using sync_fs_effect [OF demo_mounted] s off by auto
  then have "disk_super ?t = flush_counters (sbi demo_fs) demo_super"
    by (simp add: disk_super_def sector_def zero_sbi_def demo_fs_def tiny_sbi_def suc.dec_enc demo_wf_super wf_super_flush)
  then have "comp_enabled (info (disk_super ?t)) = 1" by (simp add: flush_counters_def demo_super_def)
  with t r' mount_forgets_settings [of "\<lambda>i d m. i" None "[]" ?t t'] show ?thesis by blast
qed


end
