(* ===== verification/Mkfs.thy ===== *)
theory Mkfs
  imports Super
begin

text \<open>
  The program that makes a file system, \<^verbatim>\<open>src/mkfs.c\<close>: the layout it chooses for an image
  of a given size, the blocks it writes, and what a mount loads from them.
\<close>

section \<open>The image being written\<close>

text \<open>
  Every \<open>write\<close> of the program is one block long. \<open>iblocks\<close> is the content of the file by
  blocks, \<open>ipos\<close> the file position in blocks. \<open>short im k\<close> says what happens to the write at
  block \<open>k\<close>: \<open>None\<close>, all of it is written; \<open>Some n\<close>, it stops after \<open>n\<close> bytes (\<open>0\<close> for an
  error). \<open>imem\<close> are the outcomes of the coming \<open>malloc\<close>s, success when it has run out.
\<close>

record image =
  iblocks :: "nat \<Rightarrow> bytes"
  ipos :: nat
  short :: "nat \<Rightarrow> nat option"
  imem :: "bool list"

definition write_block :: "bytes \<Rightarrow> image \<Rightarrow> bool \<times> image" where
  "write_block buf im =
     (let k = ipos im
      in case short im k of
           None \<Rightarrow> (True, im\<lparr>iblocks := (iblocks im)(k := buf), ipos := k + 1\<rparr>)
         | Some n \<Rightarrow> (False, im\<lparr>iblocks := (iblocks im)(k := take n buf @ drop n (iblocks im k))\<rparr>))"

fun write_times :: "nat \<Rightarrow> bytes \<Rightarrow> image \<Rightarrow> bool \<times> image" where
  "write_times 0 buf im = (True, im)"
| "write_times (Suc n) buf im =
     (let (ok, im) = write_block buf im in if ok then write_times n buf im else (False, im))"

definition img_malloc :: "image \<Rightarrow> bool \<times> image" where
  "img_malloc im = (case imem im of [] \<Rightarrow> (True, im) | ok # rest \<Rightarrow> (ok, im\<lparr>imem := rest\<rparr>))"

section \<open>The parts of the file system\<close>

definition idiv_ceil :: "u32 \<Rightarrow> u32 \<Rightarrow> u32" where
  "idiv_ceil a b = (if a mod b \<noteq> 0 then a div b + 1 else a div b)"

definition mkfs_info :: "nat \<Rightarrow> lolelffs_sb_info" where
  "mkfs_info sz =
     (let nb = of_nat (sz div LOLELFFS_BLOCK_SIZE) :: u32;
          per = of_nat LOLELFFS_INODES_PER_BLOCK :: u32;
          ni = (if nb mod per \<noteq> 0 then nb + (per - nb mod per) else nb);
          istore = idiv_ceil ni per;
          ifree = idiv_ceil ni (of_nat (LOLELFFS_BLOCK_SIZE * 8));
          bfree = idiv_ceil nb (of_nat (LOLELFFS_BLOCK_SIZE * 8));
          ndata = nb - 1 - istore - ifree - bfree
      in \<lparr>magic = LOLELFFS_MAGIC, nr_blocks = nb, nr_inodes = ni, nr_istore_blocks = istore,
          nr_ifree_blocks = ifree, nr_bfree_blocks = bfree, nr_free_inodes = ni - 1,
          nr_free_blocks = ndata - 1, version = LOLELFFS_VERSION, comp_default_algo = of_nat LOLELFFS_COMP_LZ4,
          comp_enabled = 1, comp_min_block_size = 128, comp_features = LOLELFFS_FEATURE_LARGE_EXTENTS,
          max_extent_blocks = LOLELFFS_MAX_BLOCKS_PER_EXTENT,
          max_extent_blocks_large = LOLELFFS_MAX_BLOCKS_PER_EXTENT_LARGE,
          enc_enabled = 0, enc_default_algo = of_nat LOLELFFS_ENC_NONE, enc_kdf_algo = of_nat LOLELFFS_KDF_ARGON2ID,
          enc_kdf_iterations = 3, enc_kdf_memory = 65536, enc_kdf_parallelism = 4,
          enc_salt = replicate 32 0, enc_master_key = replicate 32 0, enc_features = 0,
          reserved = replicate 12 0\<rparr>)"

definition write_superblock :: "nat \<Rightarrow> image \<Rightarrow> superblock option \<times> image" where
  "write_superblock sz im =
     (let (ok, im) = img_malloc im
      in if \<not> ok then (None, im)
         else
           (let sb = \<lparr>info = mkfs_info sz, padding = replicate (LOLELFFS_BLOCK_SIZE - sizeof_sb_info) 0\<rparr>;
                (ok, im) = write_block (enc_super sb) im
            in (if ok then Some sb else None, im)))"

definition zero_inode :: lolelffs_inode where
  "zero_inode = \<lparr>i_mode = 0, i_uid = 0, i_gid = 0, i_size = 0, i_ctime = 0, i_atime = 0, i_mtime = 0,
     i_blocks = 0, i_nlink = 0, ei_block = 0, xattr_block = 0, i_data = replicate 28 0\<rparr>"

definition zero_istore :: istore_block where
  "zero_istore = \<lparr>inodes = replicate LOLELFFS_INODES_PER_BLOCK zero_inode, is_tail = replicate 64 0\<rparr>"

definition mkfs_root :: "superblock \<Rightarrow> lolelffs_inode" where
  "mkfs_root sb = zero_inode\<lparr>i_mode := 0x41FD, i_size := of_nat LOLELFFS_BLOCK_SIZE, i_blocks := 1, i_nlink := 2,
     ei_block := 1 + nr_bfree_blocks (info sb) + nr_ifree_blocks (info sb) + nr_istore_blocks (info sb)\<rparr>"

definition write_inode_store :: "superblock \<Rightarrow> image \<Rightarrow> bool \<times> image" where
  "write_inode_store sb im =
     (let (ok, im) = img_malloc im
      in if \<not> ok then (False, im)
         else
           (let (ok, im) = write_block (enc_istore (zero_istore\<lparr>inodes := (inodes zero_istore)[0 := mkfs_root sb]\<rparr>)) im
            in if \<not> ok then (False, im)
               else write_times (unat (nr_istore_blocks (info sb)) - 1) zero_block im))"

definition ones_block :: bytes where
  "ones_block = replicate LOLELFFS_BLOCK_SIZE 0xFF"

definition write_ifree_blocks :: "superblock \<Rightarrow> image \<Rightarrow> bool \<times> image" where
  "write_ifree_blocks sb im =
     (let (ok, im) = img_malloc im
      in if \<not> ok then (False, im)
         else
           (let (ok, im) = write_block (enc64 0xFFFFFFFFFFFFFFFE @ drop 8 ones_block) im
            in if \<not> ok then (False, im)
               else write_times (unat (nr_ifree_blocks (info sb)) - 1) ones_block im))"

text \<open>
  The two loops that clear the bits of the used blocks: \<open>clear_line\<close> is the inner one, over the
  64 bits of a line from bit \<open>i\<close>; \<open>used_lines\<close> the outer one, which fills the lines of the block
  one after the other. The block has 512 lines; a further one would be written behind it.
\<close>

function clear_line :: "nat \<Rightarrow> u64 \<Rightarrow> u32 \<Rightarrow> u64 \<times> u32" where
  "clear_line i line n =
     (if 64 \<le> i then (line, n)
      else
        (let line = line AND NOT (push_bit i 1); n = n - 1
         in if n = 0 then (line, n) else clear_line (Suc i) line n))"
  by pat_completeness auto
termination by (relation "measure (\<lambda>(i, _). 64 - i)") auto

function used_lines :: "u32 \<Rightarrow> u64 list \<Rightarrow> u64 list option" where
  "used_lines n lines =
     (if n = 0 then Some lines
      else if LOLELFFS_BLOCK_SIZE \<le> 8 * length lines then None
      else (let (line, n) = clear_line 0 0xFFFFFFFFFFFFFFFF n in used_lines n (lines @ [line])))"
  by pat_completeness auto
termination by (relation "measure (\<lambda>(_, lines). LOLELFFS_BLOCK_SIZE - 8 * length lines)") auto

declare clear_line.simps [simp del] used_lines.simps [simp del]

definition write_bfree_blocks :: "superblock \<Rightarrow> image \<Rightarrow> bool option \<times> image" where
  "write_bfree_blocks sb im =
     (let nr_used = nr_istore_blocks (info sb) + nr_ifree_blocks (info sb) + nr_bfree_blocks (info sb) + 2;
          (ok, im) = img_malloc im
      in if \<not> ok then (Some False, im)
         else
           (case used_lines nr_used [] of
              None \<Rightarrow> (None, im)
            | Some lines \<Rightarrow>
                (let (ok, im) = write_block (enc_array enc64 lines @ drop (8 * length lines) ones_block) im
                 in if \<not> ok then (Some False, im)
                    else
                      (let (ok, im) = write_times (unat (nr_bfree_blocks (info sb)) - 1) ones_block im
                       in (Some ok, im)))))"

definition write_data_blocks :: "image \<Rightarrow> bool \<times> image" where
  "write_data_blocks im =
     (let (ok, im) = img_malloc im in if \<not> ok then (False, im) else write_block zero_block im)"

section \<open>The program\<close>

text \<open>
  What the program is given: the number of arguments, whether the image can be opened, the
  result of \<open>fstat\<close> (whether it is a block device, and the size) and of the \<open>ioctl\<close> that asks a
  block device for its size. The result is the exit status, \<open>None\<close> when a buffer is overrun.
  \<open>check_elf_file\<close> only prints, its result is not used, and the position is reset after it.
\<close>

record mkfs_env =
  argc :: nat
  opened :: bool
  fstat :: "(bool \<times> nat) option"
  blkgetsize :: "nat option"

definition EXIT_FAILURE :: nat where "EXIT_FAILURE = 1"

definition image_size :: "mkfs_env \<Rightarrow> nat option" where
  "image_size e = (case fstat e of None \<Rightarrow> None | Some (blk, sz) \<Rightarrow> if blk then blkgetsize e else Some sz)"

definition mkfs_main :: "mkfs_env \<Rightarrow> image \<Rightarrow> nat option \<times> image" where
  "mkfs_main e im =
     (if argc e \<noteq> 2 \<or> \<not> opened e then (Some EXIT_FAILURE, im)
      else
        (case image_size e of
           None \<Rightarrow> (Some EXIT_FAILURE, im)
         | Some sz \<Rightarrow>
             (if sz \<le> 100 * LOLELFFS_BLOCK_SIZE then (Some EXIT_FAILURE, im)
              else
                (case write_superblock sz (im\<lparr>ipos := 0\<rparr>) of
                   (None, im) \<Rightarrow> (Some EXIT_FAILURE, im)
                 | (Some sb, im) \<Rightarrow>
                     (let (ok, im) = write_inode_store sb im
                      in if \<not> ok then (Some EXIT_FAILURE, im)
                         else
                           (let (ok, im) = write_ifree_blocks sb im
                            in if \<not> ok then (Some EXIT_FAILURE, im)
                               else
                                 (case write_bfree_blocks sb im of
                                    (None, im) \<Rightarrow> (None, im)
                                  | (Some False, im) \<Rightarrow> (Some EXIT_FAILURE, im)
                                  | (Some True, im) \<Rightarrow>
                                      (let (ok, im) = write_data_blocks im
                                       in (Some (if ok then 0 else EXIT_FAILURE), im)))))))))"

section \<open>The numbers\<close>

definition mk_istore :: "nat \<Rightarrow> nat" where "mk_istore n = (n + 55) div 56"
definition mk_inodes :: "nat \<Rightarrow> nat" where "mk_inodes n = 56 * mk_istore n"
definition mk_ifree :: "nat \<Rightarrow> nat" where "mk_ifree n = (mk_inodes n + 32767) div 32768"
definition mk_bfree :: "nat \<Rightarrow> nat" where "mk_bfree n = (n + 32767) div 32768"
definition mk_used :: "nat \<Rightarrow> nat" where "mk_used n = mk_istore n + mk_ifree n + mk_bfree n + 2"

lemmas mk_defs = mk_istore_def mk_inodes_def mk_ifree_def mk_bfree_def mk_used_def

lemma unat_idiv_ceil:
  assumes "0 < unat b"
  shows "unat (idiv_ceil a b) = (unat a + (unat b - 1)) div unat b"
proof -
  have "a mod b = 0 \<longleftrightarrow> unat a mod unat b = 0" by (simp add: unat_mod word_unat_eq_iff)
  moreover have "unat (a div b + 1) = unat a div unat b + 1" if "unat a mod unat b \<noteq> 0"
  proof -
    have "unat b \<noteq> 1" using that by auto
    then have "unat a div unat b < unat a \<or> unat a = 0" using assms by (intro disjCI) (simp add: div_less_dividend)
    moreover have "unat a < 4294967296" by simp
    ultimately have "unat a div unat b + 1 < 4294967296" by (cases "unat a = 0") (simp, linarith)
    then have "unat (a div b) + 1 < 4294967296" by (simp add: unat_div)
    then show ?thesis using unat_add_u32 [of "a div b" 1] by (simp add: unat_div)
  qed
  ultimately show ?thesis using ceil_div [OF assms, of "unat a"] by (auto simp: idiv_ceil_def unat_div)
qed

lemma mk_bounds:
  assumes "100 \<le> n"
  shows "mk_used n \<le> n" "2 \<le> mk_istore n" "1 \<le> mk_ifree n" "1 \<le> mk_bfree n" "n \<le> mk_inodes n" "mk_inodes n < n + 56"
  using assms unfolding mk_defs by linarith+

lemma mk_inodes_eq: "(if n mod 56 \<noteq> 0 then n + (56 - n mod 56) else n) = mk_inodes n"
proof -
  have c: "mk_istore n = (if n mod 56 \<noteq> 0 then n div 56 + 1 else n div 56)" using ceil_div [of 56 n] by (simp add: mk_istore_def)
  have d: "n = 56 * (n div 56) + n mod 56" "n mod 56 < 56" by simp_all
  have "n + (56 - n mod 56) = 56 * mk_istore n" if "n mod 56 \<noteq> 0"
  proof -
    from that c have "mk_istore n = n div 56 + 1" by simp
    with d show ?thesis by linarith
  qed
  moreover have "n = 56 * mk_istore n" if "n mod 56 = 0" using that c d by simp
  ultimately show ?thesis unfolding mk_inodes_def by simp
qed

lemma unat_sub_chain:
  assumes "unat b + unat c + unat d + 2 \<le> unat (a :: u32)"
  shows "unat (a - 1 - b - c - d - 1) = unat a - (unat b + unat c + unat d + 2)"
proof -
  have 1: "unat (a - 1) = unat a - 1" using assms by (subst unat_sub_u32) simp_all
  have 2: "unat (a - 1 - b) = unat a - 1 - unat b" using assms by (subst unat_sub_u32) (simp_all add: 1)
  have 3: "unat (a - 1 - b - c) = unat a - 1 - unat b - unat c" using assms by (subst unat_sub_u32) (simp_all only: 2)
  have 4: "unat (a - 1 - b - c - d) = unat a - 1 - unat b - unat c - unat d" using assms by (subst unat_sub_u32) (simp_all only: 3)
  show ?thesis using assms by (subst unat_sub_u32) (simp_all only: 4 unat_1)
qed

lemma mkfs_info_nat:
  assumes "n = sz div LOLELFFS_BLOCK_SIZE" "100 \<le> n" "n + 56 < 2 ^ 32"
  shows "unat (nr_blocks (mkfs_info sz)) = n" "unat (nr_inodes (mkfs_info sz)) = mk_inodes n"
    "unat (nr_istore_blocks (mkfs_info sz)) = mk_istore n" "unat (nr_ifree_blocks (mkfs_info sz)) = mk_ifree n"
    "unat (nr_bfree_blocks (mkfs_info sz)) = mk_bfree n" "unat (nr_free_inodes (mkfs_info sz)) = mk_inodes n - 1"
    "unat (nr_free_blocks (mkfs_info sz)) = n - mk_used n" "magic (mkfs_info sz) = LOLELFFS_MAGIC"
proof -
  let ?nb = "of_nat n :: u32" let ?per = "of_nat LOLELFFS_INODES_PER_BLOCK :: u32"
  define ni where "ni = (if ?nb mod ?per \<noteq> 0 then ?nb + (?per - ?nb mod ?per) else ?nb)"
  have nb: "unat ?nb = n" using assms(3) by (intro unat_of_nat_u32) simp
  have per: "unat ?per = 56" by (simp add: inodes_per_block)
  have "unat ni = (if n mod 56 \<noteq> 0 then n + (56 - n mod 56) else n)"
    using assms(3) nb per unfolding ni_def
    by (auto simp: word_unat_eq_iff unat_mod unat_sub_u32 unat_add_u32)
  also have "\<dots> = mk_inodes n" by (rule mk_inodes_eq)
  finally have ni: "unat ni = mk_inodes n" .
  note f = mkfs_info_def assms(1) [symmetric] Let_def ni_def [symmetric]
  show "unat (nr_blocks (mkfs_info sz)) = n" "unat (nr_inodes (mkfs_info sz)) = mk_inodes n" "magic (mkfs_info sz) = LOLELFFS_MAGIC"
    using nb ni by (simp_all add: f)
  have "(mk_inodes n + 55) div 56 = mk_istore n" by (simp add: mk_inodes_def)
  then show ist: "unat (nr_istore_blocks (mkfs_info sz)) = mk_istore n"
    using ni per unat_idiv_ceil [of ?per ni] by (simp add: f)
  have p32: "unat (of_nat (LOLELFFS_BLOCK_SIZE * 8) :: u32) = 32768" by (simp add: size_defs)
  show ifr: "unat (nr_ifree_blocks (mkfs_info sz)) = mk_ifree n" and bf: "unat (nr_bfree_blocks (mkfs_info sz)) = mk_bfree n"
    using ni nb p32 unat_idiv_ceil [of "of_nat (LOLELFFS_BLOCK_SIZE * 8)"] by (simp_all add: f mk_ifree_def mk_bfree_def)
  note b = mk_bounds [OF assms(2)]
  have "unat (ni - 1) = mk_inodes n - 1" using ni b assms(2) by (subst unat_sub_u32) simp_all
  then show "unat (nr_free_inodes (mkfs_info sz)) = mk_inodes n - 1" by (simp add: f)
  have "nr_free_blocks (mkfs_info sz) = nr_blocks (mkfs_info sz) - 1 - nr_istore_blocks (mkfs_info sz) - nr_ifree_blocks (mkfs_info sz)
      - nr_bfree_blocks (mkfs_info sz) - 1"
    by (simp add: mkfs_info_def Let_def)
  moreover have "unat (nr_blocks (mkfs_info sz)) = n" using nb by (simp add: f)
  ultimately show "unat (nr_free_blocks (mkfs_info sz)) = n - mk_used n"
    using ist ifr bf b(1)
      unat_sub_chain [of "nr_istore_blocks (mkfs_info sz)" "nr_ifree_blocks (mkfs_info sz)" "nr_bfree_blocks (mkfs_info sz)" "nr_blocks (mkfs_info sz)"]
    by (simp only: mk_used_def)
qed

section \<open>Clearing the bits of the used blocks\<close>

lemma clear_line_correct:
  assumes "n \<noteq> 0" "i \<le> 64" "clear_line i line n = (l, n')"
  shows "unat n' = unat n - (64 - i) \<and> (\<forall>j < 64. bit l j \<longleftrightarrow> bit line j \<and> \<not> (i \<le> j \<and> j < i + unat n))"
  using assms
proof (induction i line n arbitrary: l n' rule: clear_line.induct)
  case (1 i line n)
  let ?line = "line AND NOT (push_bit i 1)"
  have n: "0 < unat n" using 1(2) by (simp add: unat_gt_0)
  show ?case
  proof (cases "64 \<le> i")
    case True
    with 1 show ?thesis by (auto simp: clear_line.simps)
  next
    case False
    have b: "bit ?line j \<longleftrightarrow> bit line j \<and> j \<noteq> i" if "j < 64" for j
      using that False by (auto simp: bit_and_iff bit_not_iff bit_exp_iff push_bit_eq_mult)
    have d: "unat (n - 1) = unat n - 1" using n by (simp add: unat_sub_u32)
    show ?thesis
    proof (cases "n - 1 = 0")
      case True
      with False 1(4) have "l = ?line" "n' = 0" by (auto simp: clear_line.simps [of i] Let_def)
      moreover have "unat n = 1" using True d n by simp
      ultimately show ?thesis using b False by auto
    next
      case ne: False
      with False 1(4) have "clear_line (Suc i) ?line (n - 1) = (l, n')" by (simp add: clear_line.simps [of i] Let_def)
      from 1(1) [OF False refl refl ne ne _ this] False d n b show ?thesis by auto
    qed
  qed
qed

lemma bits_cons_line:
  assumes l: "\<And>j. j < 64 \<Longrightarrow> bit (l :: u64) j \<longleftrightarrow> m \<le> j" and ls: "\<forall>k < 64 * length ls. bit (ls ! (k div 64)) (k mod 64) \<longleftrightarrow> m - 64 \<le> k"
    and k: "k < 64 * length (l # ls)"
  shows "bit ((l # ls) ! (k div 64)) (k mod 64) \<longleftrightarrow> m \<le> k"
proof (cases "k < 64")
  case True
  then show ?thesis using l [of k] by simp
next
  case ge: False
  then obtain j where j: "k = j + 64" by (metis add.commute le_Suc_ex not_less)
  with k ls have "bit (ls ! (j div 64)) (j mod 64) \<longleftrightarrow> m - 64 \<le> j" by simp
  with j show ?thesis by (auto simp: div_add_self2)
qed

lemma first_line:
  assumes "n \<noteq> 0" "clear_line 0 0xFFFFFFFFFFFFFFFF n = (l, n')"
  shows "unat n' = unat n - 64" and "j < 64 \<Longrightarrow> bit l j \<longleftrightarrow> unat n \<le> j"
proof -
  note cl = clear_line_correct [OF assms(1) _ assms(2)]
  show "unat n' = unat n - 64" using cl by simp
  assume j: "j < 64"
  have "(0xFFFFFFFFFFFFFFFF :: u64) = - 1" by simp
  then have "bit (0xFFFFFFFFFFFFFFFF :: u64) j" using j by (simp only:) simp
  with cl j show "bit l j \<longleftrightarrow> unat n \<le> j" by (auto simp: not_less)
qed

lemma used_lines_correct:
  assumes "8 * length acc \<le> LOLELFFS_BLOCK_SIZE"
  shows "if unat n \<le> 64 * (512 - length acc)
    then \<exists>ls. used_lines n acc = Some (acc @ ls) \<and> length ls = (unat n + 63) div 64
      \<and> (\<forall>k < 64 * length ls. bit (ls ! (k div 64)) (k mod 64) \<longleftrightarrow> unat n \<le> k)
    else used_lines n acc = None"
  using assms
proof (induction n acc rule: used_lines.induct)
  case (1 n acc)
  show ?case
  proof (cases "n = 0")
    case True
    then show ?thesis by (simp add: used_lines.simps)
  next
    case nz: False
    then have pos: "0 < unat n" by (simp add: unat_gt_0)
    show ?thesis
    proof (cases "LOLELFFS_BLOCK_SIZE \<le> 8 * length acc")
      case True
      with 1(2) have "length acc = 512" by (simp add: size_defs)
      with nz pos show ?thesis by (simp add: used_lines.simps size_defs)
    next
      case False
      obtain l n' where c: "clear_line 0 0xFFFFFFFFFFFFFFFF n = (l, n')" by fastforce
      note n' = first_line(1) [OF nz c] and bl = first_line(2) [OF nz c]
      have u: "used_lines n acc = used_lines n' (acc @ [l])"
        using nz False c by (simp add: used_lines.simps [of n])
      have IH: "if unat n' \<le> 64 * (512 - length (acc @ [l]))
        then \<exists>ls. used_lines n' (acc @ [l]) = Some ((acc @ [l]) @ ls) \<and> length ls = (unat n' + 63) div 64
          \<and> (\<forall>k < 64 * length ls. bit (ls ! (k div 64)) (k mod 64) \<longleftrightarrow> unat n' \<le> k)
        else used_lines n' (acc @ [l]) = None"
        using 1(1) [OF nz False c [symmetric] refl] False by (simp add: size_defs)
      have iff: "unat n' \<le> 64 * (512 - length (acc @ [l])) \<longleftrightarrow> unat n \<le> 64 * (512 - length acc)"
        using n' False by (auto simp: size_defs)
      show ?thesis
      proof (cases "unat n \<le> 64 * (512 - length acc)")
        case True
        with IH iff obtain ls where ls: "used_lines n' (acc @ [l]) = Some ((acc @ [l]) @ ls)" "length ls = (unat n' + 63) div 64"
          "\<forall>k < 64 * length ls. bit (ls ! (k div 64)) (k mod 64) \<longleftrightarrow> unat n' \<le> k" by auto
        have "bit ((l # ls) ! (k div 64)) (k mod 64) \<longleftrightarrow> unat n \<le> k" if "k < 64 * length (l # ls)" for k
          using bits_cons_line [OF bl _ that] ls(3) n' by simp
        moreover have "length (l # ls) = (unat n + 63) div 64" using ls(2) n' div_add_64 [of "unat n"] pos by simp
        ultimately show ?thesis using True u ls(1) by (intro if_P [THEN iffD2] exI [of _ "l # ls"]) simp_all
      next
        case no: False
        with IH iff u show ?thesis by simp
      qed
    qed
  qed
qed

section \<open>Bits of a block\<close>

lemma bits_enc64: "i < 64 \<Longrightarrow> bits_of_bytes (enc64 w) ! i \<longleftrightarrow> bit w i"
proof -
  assume i: "i < 64"
  then have d: "i div 8 < 8" "i mod 8 < 8" by simp_all
  have "unat w div 256 ^ (i div 8) div 2 ^ (i mod 8) = unat w div 2 ^ i"
  proof -
    have "(256::nat) ^ (i div 8) = 2 ^ (8 * (i div 8))" by (simp add: power_mult)
    moreover have "8 * (i div 8) + i mod 8 = i" by simp
    ultimately show ?thesis by (metis div_mult2_eq power_add)
  qed
  moreover have "bits_of_bytes (enc64 w) ! i = bit (enc64 w ! (i div 8)) (i mod 8)"
    using i by (intro nth_bits_of_bytes) simp
  moreover have "bit w i \<longleftrightarrow> odd (unat w div 2 ^ i)" 
  proof -
    have "bit (unat w) i \<longleftrightarrow> bit w i" by (simp add: bit_unsigned_iff)
    then show ?thesis by (simp add: bit_iff_odd [of "unat w"])
  qed
  ultimately show ?thesis using d by (simp add: enc_word_def nth_le_bytes bit_of_nat_u8)
qed

lemma bits_concat: "bits_of_bytes (concat bss) = concat (map bits_of_bytes bss)"
  by (induction bss) (simp_all add: bits_of_bytes_append, simp add: bits_of_bytes_def)

lemma bits_lines:
  assumes "i < 64 * length ls"
  shows "bits_of_bytes (enc_array enc64 ls) ! i \<longleftrightarrow> bit (ls ! (i div 64)) (i mod 64)"
proof -
  have "bits_of_bytes (enc_array enc64 ls) = concat (map (\<lambda>w. bits_of_bytes (enc64 w)) ls)"
    by (simp add: enc_array_def bits_concat comp_def)
  moreover have "i div 64 < length ls" using assms by (simp add: less_mult_imp_div_less mult.commute)
  ultimately show ?thesis
    using nth_concat_uniform [of "map (\<lambda>w. bits_of_bytes (enc64 w)) ls" 64 i] assms by (simp add: bits_enc64)
qed

lemma length_enc_lines [simp]: "length (enc_array enc64 ls) = 8 * length ls"
  by (induction ls) (simp_all add: enc_array_def)

lemma bits_ones: "bits_of_bytes (replicate n 0xFF) = replicate (8 * n) True"
proof (induction n)
  case (Suc n)
  have "map (bit (0xFF :: u8)) [0..<8] = replicate 8 True" by code_simp
  with Suc show ?case by (simp add: bits_of_bytes_Cons flip: replicate_add)
qed (simp add: bits_of_bytes_def)

text \<open>The first block of the bitmap of blocks: the bits of the used blocks are clear, the others set.\<close>

lemma used_block_bits:
  assumes "unat n \<le> BITS_PER_BLOCK" "used_lines n [] = Some ls"
  shows "bits_of_bytes (enc_array enc64 ls @ drop (8 * length ls) ones_block) = map (\<lambda>i. unat n \<le> i) [0..<BITS_PER_BLOCK]"
    and "length (enc_array enc64 ls @ drop (8 * length ls) ones_block) = LOLELFFS_BLOCK_SIZE"
proof -
  have ls: "length ls = (unat n + 63) div 64" "\<forall>k < 64 * length ls. bit (ls ! (k div 64)) (k mod 64) \<longleftrightarrow> unat n \<le> k"
    using used_lines_correct [of "[]" n] assms by (auto simp: BITS_PER_BLOCK_def size_defs)
  have n: "unat n \<le> 64 * length ls" using ls(1) by linarith
  have len: "length ls \<le> 512" using ls(1) assms(1) by (simp add: BITS_PER_BLOCK_def size_defs) 
  show "length (enc_array enc64 ls @ drop (8 * length ls) ones_block) = LOLELFFS_BLOCK_SIZE"
    using len by (simp add: ones_block_def size_defs)
  show "bits_of_bytes (enc_array enc64 ls @ drop (8 * length ls) ones_block) = map (\<lambda>i. unat n \<le> i) [0..<BITS_PER_BLOCK]"
  proof (rule nth_equalityI)
    show "length (bits_of_bytes (enc_array enc64 ls @ drop (8 * length ls) ones_block)) = length (map (\<lambda>i. unat n \<le> i) [0..<BITS_PER_BLOCK])"
      using len by (simp add: ones_block_def size_defs BITS_PER_BLOCK_def)
    fix i assume "i < length (bits_of_bytes (enc_array enc64 ls @ drop (8 * length ls) ones_block))"
    then have i: "i < BITS_PER_BLOCK" using len by (simp add: ones_block_def size_defs BITS_PER_BLOCK_def)
    show "bits_of_bytes (enc_array enc64 ls @ drop (8 * length ls) ones_block) ! i = map (\<lambda>i. unat n \<le> i) [0..<BITS_PER_BLOCK] ! i"
    proof (cases "i < 64 * length ls")
      case True
      with ls(2) i show ?thesis by (simp add: bits_of_bytes_append nth_append bits_lines)
    next
      case False
      with n i len show ?thesis
        by (simp add: bits_of_bytes_append nth_append ones_block_def bits_ones BITS_PER_BLOCK_def)
    qed
  qed
qed

lemma root_bits: "bits_of_bytes (enc64 0xFFFFFFFFFFFFFFFE @ drop 8 ones_block) = map (\<lambda>i. i \<noteq> 0) [0..<BITS_PER_BLOCK]"
proof (rule nth_equalityI)
  fix i assume "i < length (bits_of_bytes (enc64 0xFFFFFFFFFFFFFFFE @ drop 8 ones_block))"
  then have i: "i < BITS_PER_BLOCK" by (simp add: ones_block_def size_defs BITS_PER_BLOCK_def)
  have b: "bit (0xFFFFFFFFFFFFFFFE :: u64) j \<longleftrightarrow> j \<noteq> 0" if "j < 64" for j
  proof -
    have "(0xFFFFFFFFFFFFFFFE :: u64) = NOT 1" by simp
    then show ?thesis using that by (simp only: bit_not_iff bit_1_iff) simp
  qed
  show "bits_of_bytes (enc64 0xFFFFFFFFFFFFFFFE @ drop 8 ones_block) ! i = map (\<lambda>i. i \<noteq> 0) [0..<BITS_PER_BLOCK] ! i"
    using i b [of i] bits_enc64 [of i "0xFFFFFFFFFFFFFFFE"]
    by (simp add: bits_of_bytes_append nth_append ones_block_def bits_ones BITS_PER_BLOCK_def)
qed (simp add: ones_block_def size_defs BITS_PER_BLOCK_def)

section \<open>What ends up in the image\<close>

text \<open>\<open>wrote im n f im'\<close>: the next \<open>n\<close> blocks have been written, block \<open>i\<close> of them is \<open>f i\<close>.\<close>

definition wrote :: "image \<Rightarrow> nat \<Rightarrow> (nat \<Rightarrow> bytes) \<Rightarrow> image \<Rightarrow> bool" where
  "wrote im n f im' \<longleftrightarrow> ipos im' = ipos im + n \<and> short im' = short im
     \<and> (\<forall>k. iblocks im' k = (if ipos im \<le> k \<and> k < ipos im + n then f (k - ipos im) else iblocks im k))"

lemma wrote_block: "write_block buf im = (True, im') \<Longrightarrow> wrote im 1 (\<lambda>_. buf) im'"
  by (auto simp: write_block_def wrote_def Let_def fun_eq_iff split: option.splits)

lemma wrote_0: "wrote im 0 f im"
  by (auto simp: wrote_def)

lemma wrote_append:
  assumes "wrote im m f im1" "wrote im1 n g im2"
  shows "wrote im (m + n) (\<lambda>i. if i < m then f i else g (i - m)) im2"
  using assms unfolding wrote_def by auto

lemma wrote_times: "write_times n buf im = (True, im') \<Longrightarrow> wrote im n (\<lambda>_. buf) im'"
proof (induction n arbitrary: im)
  case (Suc n)
  then obtain im1 where w: "write_block buf im = (True, im1)" "write_times n buf im1 = (True, im')"
    by (auto split: prod.splits if_splits)
  from wrote_append [OF wrote_block [OF w(1)] Suc.IH [OF w(2)]] show ?case by simp
qed (simp add: wrote_0)

lemma malloc_frame: "img_malloc im = (ok, im') \<Longrightarrow> wrote im 0 f im'"
  by (auto simp: img_malloc_def wrote_def split: list.splits)

text \<open>A first block, then copies of another.\<close>

lemma wrote_first_rest:
  assumes "img_malloc im = (True, im1)" "write_block a im1 = (True, im2)" "write_times (n - 1) b im2 = (True, im')" "0 < n"
  shows "wrote im n (\<lambda>i. if i = 0 then a else b) im'"
proof -
  have "wrote im 0 (\<lambda>_. a) im1" "wrote im1 1 (\<lambda>_. a) im2" "wrote im2 (n - 1) (\<lambda>_. b) im'"
    using malloc_frame [OF assms(1)] wrote_block [OF assms(2)] wrote_times [OF assms(3)] by simp_all
  with assms(4) show ?thesis unfolding wrote_def by auto
qed

definition first_istore :: "superblock \<Rightarrow> bytes" where
  "first_istore sb = enc_istore (zero_istore\<lparr>inodes := (inodes zero_istore)[0 := mkfs_root sb]\<rparr>)"

definition first_ifree_block :: bytes where
  "first_ifree_block = enc64 0xFFFFFFFFFFFFFFFE @ drop 8 ones_block"

lemma inode_store_wrote:
  "write_inode_store sb im = (True, im') \<Longrightarrow> 0 < unat (nr_istore_blocks (info sb)) \<Longrightarrow>
   wrote im (unat (nr_istore_blocks (info sb))) (\<lambda>i. if i = 0 then first_istore sb else zero_block) im'"
  unfolding write_inode_store_def first_istore_def [symmetric]
  by (auto simp: Let_def split: prod.splits if_splits intro: wrote_first_rest)

lemma ifree_wrote:
  "write_ifree_blocks sb im = (True, im') \<Longrightarrow> 0 < unat (nr_ifree_blocks (info sb)) \<Longrightarrow>
   wrote im (unat (nr_ifree_blocks (info sb))) (\<lambda>i. if i = 0 then first_ifree_block else ones_block) im'"
  unfolding write_ifree_blocks_def first_ifree_block_def [symmetric]
  by (auto simp: Let_def split: prod.splits if_splits intro: wrote_first_rest)

definition used_word :: "superblock \<Rightarrow> u32" where
  "used_word sb = nr_istore_blocks (info sb) + nr_ifree_blocks (info sb) + nr_bfree_blocks (info sb) + 2"

lemma bfree_wrote:
  "write_bfree_blocks sb im = (Some True, im') \<Longrightarrow> 0 < unat (nr_bfree_blocks (info sb)) \<Longrightarrow>
   \<exists>ls. used_lines (used_word sb) [] = Some ls
     \<and> wrote im (unat (nr_bfree_blocks (info sb)))
         (\<lambda>i. if i = 0 then enc_array enc64 ls @ drop (8 * length ls) ones_block else ones_block) im'"
  unfolding write_bfree_blocks_def used_word_def [symmetric]
  by (auto simp: Let_def split: prod.splits if_splits option.splits intro: wrote_first_rest)

lemma data_wrote: "write_data_blocks im = (True, im') \<Longrightarrow> wrote im 1 (\<lambda>_. zero_block) im'"
  using wrote_append [OF malloc_frame wrote_block]
  by (fastforce simp: write_data_blocks_def Let_def split: prod.splits if_splits)

definition mkfs_sb :: "nat \<Rightarrow> superblock" where
  "mkfs_sb sz = \<lparr>info = mkfs_info sz, padding = replicate (LOLELFFS_BLOCK_SIZE - sizeof_sb_info) 0\<rparr>"

lemma super_wrote: "write_superblock sz im = (Some sb, im') \<Longrightarrow> sb = mkfs_sb sz \<and> wrote im 1 (\<lambda>_. enc_super sb) im'"
  using wrote_append [OF malloc_frame wrote_block]
  unfolding write_superblock_def mkfs_sb_def [symmetric]
  by (fastforce simp: Let_def split: prod.splits if_splits)

text \<open>The blocks of a finished file system of \<open>n\<close> blocks; \<open>ls\<close> are the lines of used blocks.\<close>

definition mkfs_block :: "superblock \<Rightarrow> nat \<Rightarrow> u64 list \<Rightarrow> nat \<Rightarrow> bytes" where
  "mkfs_block sb n ls k =
     (if k = 0 then enc_super sb
      else if k < 1 + mk_istore n then (if k = 1 then first_istore sb else zero_block)
      else if k < 1 + mk_istore n + mk_ifree n then (if k = 1 + mk_istore n then first_ifree_block else ones_block)
      else if k < 1 + mk_istore n + mk_ifree n + mk_bfree n
        then (if k = 1 + mk_istore n + mk_ifree n then enc_array enc64 ls @ drop (8 * length ls) ones_block else ones_block)
      else zero_block)"

lemma mkfs_image:
  assumes main: "mkfs_main e im = (Some 0, im')" and sz: "image_size e = Some sz"
    and n: "n = sz div LOLELFFS_BLOCK_SIZE" "n + 56 < 2 ^ 32"
  shows "100 \<le> n \<and> (\<exists>ls. used_lines (used_word (mkfs_sb sz)) [] = Some ls
    \<and> (\<forall>k. iblocks im' k = (if k < mk_used n then mkfs_block (mkfs_sb sz) n ls k else iblocks im k)))"
proof -
  have big: "100 * LOLELFFS_BLOCK_SIZE < sz" using main sz by (auto simp: mkfs_main_def EXIT_FAILURE_def split: if_splits)
  then have h: "100 \<le> n" unfolding n(1) by (simp add: size_defs)
  let ?sb = "mkfs_sb sz"
  obtain sb im1 im2 im3 im4 where w: "write_superblock sz (im\<lparr>ipos := 0\<rparr>) = (Some sb, im1)"
    "write_inode_store sb im1 = (True, im2)" "write_ifree_blocks sb im2 = (True, im3)"
    "write_bfree_blocks sb im3 = (Some True, im4)" "write_data_blocks im4 = (True, im')"
    using main sz
    by (auto simp: mkfs_main_def EXIT_FAILURE_def Let_def split: if_splits option.splits prod.splits bool.splits)
  have sb: "sb = ?sb" and s1: "wrote (im\<lparr>ipos := 0\<rparr>) 1 (\<lambda>_. enc_super ?sb) im1" using super_wrote [OF w(1)] by auto
  have i: "info ?sb = mkfs_info sz" by (simp add: mkfs_sb_def)
  note f = mkfs_info_nat [OF n(1) h n(2), folded i] and b = mk_bounds [OF h]
  have s2: "wrote im1 (mk_istore n) (\<lambda>i. if i = 0 then first_istore ?sb else zero_block) im2"
    using inode_store_wrote [OF w(2)] f b unfolding sb by simp
  have s3: "wrote im2 (mk_ifree n) (\<lambda>i. if i = 0 then first_ifree_block else ones_block) im3"
    using ifree_wrote [OF w(3)] f b unfolding sb by simp
  obtain ls where ls: "used_lines (used_word ?sb) [] = Some ls"
    and s4: "wrote im3 (mk_bfree n) (\<lambda>i. if i = 0 then enc_array enc64 ls @ drop (8 * length ls) ones_block else ones_block) im4"
    using bfree_wrote [OF w(4)] f b unfolding sb by auto
  note s5 = data_wrote [OF w(5)]
  define p2 p3 p4 where "p2 = 1 + mk_istore n" and "p3 = p2 + mk_ifree n" and "p4 = p3 + mk_bfree n"
  have p: "ipos im1 = 1" "ipos im2 = p2" "ipos im3 = p3" "ipos im4 = p4" "mk_used n = p4 + 1"
    using s1 s2 s3 s4 by (simp_all add: wrote_def p2_def p3_def p4_def mk_used_def)
  have "1 < p2" "p2 < p3" "p3 < p4" using b by (simp_all add: p2_def p3_def p4_def)
  then have "iblocks im' k = (if k < mk_used n then mkfs_block ?sb n ls k else iblocks im k)" for k
    using s1 s2 s3 s4 s5 unfolding wrote_def p mkfs_block_def p2_def [symmetric] p3_def [symmetric] p4_def [symmetric]
    by (cases "k = 0"; cases "k < p2"; cases "k < p3"; cases "k < p4"; simp)
  with h ls show ?thesis by auto
qed

section \<open>Mounting the image\<close>

lemma used_word_nat:
  assumes "n = sz div LOLELFFS_BLOCK_SIZE" "100 \<le> n" "n + 56 < 2 ^ 32"
  shows "unat (used_word (mkfs_sb sz)) = mk_used n"
proof -
  have i: "info (mkfs_sb sz) = mkfs_info sz" by (simp add: mkfs_sb_def)
  note f = mkfs_info_nat [OF assms] and b = mk_bounds [OF assms(2)]
  have le: "mk_istore n + mk_ifree n + mk_bfree n + 2 < 4294967296" using b(1) assms(3) by (simp add: mk_used_def)
  show ?thesis unfolding used_word_def i mk_used_def
    using le f by (simp add: unat_add_u32)
qed

lemma used_small:
  assumes "used_lines w [] = Some ls"
  shows "unat w \<le> BITS_PER_BLOCK"
  using used_lines_correct [of "[]" w] assms by (auto simp: BITS_PER_BLOCK_def size_defs split: if_splits)

lemma run_bits:
  assumes "bits_of_bytes (blocks s k) = map P [0..<BITS_PER_BLOCK]" "0 < n"
    and "\<And>i. 0 < i \<Longrightarrow> i < n \<Longrightarrow> blocks s (k + i) = ones_block" "\<And>i. BITS_PER_BLOCK \<le> i \<Longrightarrow> P i"
  shows "bits_of_bytes (run_bytes s k n) = map P [0..<n * BITS_PER_BLOCK]"
  using assms(2,3)
proof (induction n)
  case (Suc n)
  show ?case
  proof (cases "n = 0")
    case True
    with assms(1) show ?thesis by (simp add: run_bytes_def)
  next
    case False
    with Suc have IH: "bits_of_bytes (run_bytes s k n) = map P [0..<n * BITS_PER_BLOCK]" and bl: "blocks s (k + n) = ones_block"
      by simp_all
    have r: "run_bytes s k (Suc n) = run_bytes s k n @ ones_block" using bl by (simp add: run_bytes_def)
    have o: "bits_of_bytes ones_block = replicate BITS_PER_BLOCK True" by (simp add: ones_block_def bits_ones BITS_PER_BLOCK_def)
    have "BITS_PER_BLOCK \<le> n * BITS_PER_BLOCK" using False by simp
    then have "P (n * BITS_PER_BLOCK + i)" for i by (meson assms(4) trans_le_add1)
    then have "map P [n * BITS_PER_BLOCK..<n * BITS_PER_BLOCK + BITS_PER_BLOCK] = replicate BITS_PER_BLOCK True"
      by (intro nth_equalityI) simp_all
    moreover have "[0..<Suc n * BITS_PER_BLOCK] = [0..<n * BITS_PER_BLOCK] @ [n * BITS_PER_BLOCK..<n * BITS_PER_BLOCK + BITS_PER_BLOCK]"
      using upt_add_eq_append [of 0 "n * BITS_PER_BLOCK" BITS_PER_BLOCK] by (simp add: add.commute)
    ultimately show ?thesis by (simp add: r bits_of_bytes_append IH o)
  qed
qed simp

definition mkfs_sbi :: "nat \<Rightarrow> nat \<Rightarrow> sb_info" where
  "mkfs_sbi sz n = (sbi_of_disk (mkfs_info sz) 0)
     \<lparr>ifree_bitmap := map (\<lambda>i. i \<noteq> 0) [0..<mk_ifree n * BITS_PER_BLOCK],
      bfree_bitmap := map (\<lambda>i. mk_used n \<le> i) [0..<mk_bfree n * BITS_PER_BLOCK]\<rparr>"

lemma wf_mkfs_sb: "wf_super (mkfs_sb sz)"
  by (simp add: wf_super_def mkfs_sb_def wf_sb_def mkfs_info_def Let_def)

lemma mkfs_loaded:
  assumes n: "n = sz div LOLELFFS_BLOCK_SIZE" "100 \<le> n" "n + 56 < 2 ^ 32"
    and ls: "used_lines (used_word (mkfs_sb sz)) [] = Some ls"
    and t: "\<And>k. k < mk_used n \<Longrightarrow> blocks t k = mkfs_block (mkfs_sb sz) n ls k"
  shows "loaded_sbi t 0 = mkfs_sbi sz n" "info (dec_super (blocks t 0)) = mkfs_info sz"
proof -
  note b = mk_bounds [OF n(2)]
  have u: "mk_used n \<le> BITS_PER_BLOCK" using used_small [OF ls] used_word_nat [OF n] by simp
  have "blocks t 0 = enc_super (mkfs_sb sz)" using t [of 0] by (simp add: mk_used_def mkfs_block_def)
  then show i: "info (dec_super (blocks t 0)) = mkfs_info sz" using suc.dec_enc [OF wf_mkfs_sb] by (simp add: mkfs_sb_def)
  note f = mkfs_info_nat [OF n]
  have "bits_of_bytes (run_bytes t (mk_istore n + 1) (mk_ifree n)) = map (\<lambda>i. i \<noteq> 0) [0..<mk_ifree n * BITS_PER_BLOCK]"
  proof (rule run_bits)
    show "bits_of_bytes (blocks t (mk_istore n + 1)) = map (\<lambda>i. i \<noteq> 0) [0..<BITS_PER_BLOCK]"
      using t [of "mk_istore n + 1"] b root_bits by (simp add: mk_used_def mkfs_block_def first_ifree_block_def)
    show "blocks t (mk_istore n + 1 + i) = ones_block" if "0 < i" "i < mk_ifree n" for i
      using t [of "mk_istore n + 1 + i"] that by (simp add: mk_used_def mkfs_block_def)
  qed (use b in \<open>simp_all add: BITS_PER_BLOCK_def size_defs\<close>)
  moreover have "bits_of_bytes (run_bytes t (mk_istore n + 1 + mk_ifree n) (mk_bfree n)) = map (\<lambda>i. mk_used n \<le> i) [0..<mk_bfree n * BITS_PER_BLOCK]"
  proof (rule run_bits)
    show "bits_of_bytes (blocks t (mk_istore n + 1 + mk_ifree n)) = map (\<lambda>i. mk_used n \<le> i) [0..<BITS_PER_BLOCK]"
      using t [of "mk_istore n + 1 + mk_ifree n"] b used_block_bits(1) [OF _ ls] u used_word_nat [OF n]
      by (simp add: mk_used_def mkfs_block_def)
    show "blocks t (mk_istore n + 1 + mk_ifree n + i) = ones_block" if "0 < i" "i < mk_bfree n" for i
      using t [of "mk_istore n + 1 + mk_ifree n + i"] that by (simp add: mk_used_def mkfs_block_def)
  qed (use b u in simp_all)
  ultimately show "loaded_sbi t 0 = mkfs_sbi sz n"
    using f by (simp add: loaded_sbi_def Let_def i mkfs_sbi_def) (simp add: sbi_of_disk_def)
qed

lemma mkfs_sbi_free:
  assumes n: "n = sz div LOLELFFS_BLOCK_SIZE" "100 \<le> n" "n + 56 < 2 ^ 32"
  shows "free_blocks (mkfs_sbi sz n) = {mk_used n..<n}" "free_inodes (mkfs_sbi sz n) = {1..<mk_inodes n}" "blocks_inv (mkfs_sbi sz n)" "inodes_inv (mkfs_sbi sz n)"
proof -
  note f = mkfs_info_nat [OF n] and b = mk_bounds [OF n(2)]
  have e: "nr_blocks (mkfs_sbi sz n) = nr_blocks (mkfs_info sz)" "nr_inodes (mkfs_sbi sz n) = nr_inodes (mkfs_info sz)"
    "nr_free_blocks (mkfs_sbi sz n) = nr_free_blocks (mkfs_info sz)" "nr_free_inodes (mkfs_sbi sz n) = nr_free_inodes (mkfs_info sz)"
    "ifree_bitmap (mkfs_sbi sz n) = map (\<lambda>i. i \<noteq> 0) [0..<mk_ifree n * BITS_PER_BLOCK]"
    "bfree_bitmap (mkfs_sbi sz n) = map (\<lambda>i. mk_used n \<le> i) [0..<mk_bfree n * BITS_PER_BLOCK]"
    by (simp_all add: mkfs_sbi_def sbi_of_disk_def)
  have lim: "n \<le> mk_bfree n * BITS_PER_BLOCK" "mk_inodes n \<le> mk_ifree n * BITS_PER_BLOCK"
    unfolding mk_bfree_def mk_ifree_def BITS_PER_BLOCK_def size_defs by linarith+
  show fb: "free_blocks (mkfs_sbi sz n) = {mk_used n..<n}" and fi: "free_inodes (mkfs_sbi sz n) = {1..<mk_inodes n}"
    using lim by (auto simp: free_blocks_def free_inodes_def mem_free_bits bit_set_def e f)
  have "\<not> bit_set (bfree_bitmap (mkfs_sbi sz n)) 0" "\<not> bit_set (ifree_bitmap (mkfs_sbi sz n)) 0"
    by (auto simp: e bit_set_def mk_used_def)
  then show "blocks_inv (mkfs_sbi sz n)" "inodes_inv (mkfs_sbi sz n)"
    using fb fi lim b by (simp_all add: blocks_inv_def inodes_inv_def alloc_inv_def free_blocks_def free_inodes_def)
      (simp_all add: e f)
qed

lemma enc_zero_inode: "enc_inode zero_inode = replicate 72 0"
  by (simp only: enc_inode_def zero_inode_def lolelffs_inode.simps enc_word_0 replicate_add [symmetric]) simp

lemma enc_zero_istore: "enc_istore zero_istore = zero_block"
  by (simp add: enc_istore_def zero_istore_def enc_array_zero [where enc = enc_inode, OF enc_zero_inode] zero_block_def const_values
      flip: replicate_add)

lemma wf_first_istore: "wf_istore (zero_istore\<lparr>inodes := (inodes zero_istore)[0 := mkfs_root sb]\<rparr>)"
proof -
  have "list_all wf_inode (inodes zero_istore)" by (simp add: zero_istore_def list_all_iff wf_inode_def zero_inode_def)
  then have "list_all wf_inode ((inodes zero_istore)[0 := mkfs_root sb])"
    by (rule list_all_update) (simp add: wf_inode_def mkfs_root_def zero_inode_def)
  then show ?thesis by (simp add: wf_istore_def) (simp add: zero_istore_def)
qed

lemma length_mkfs_block:
  assumes "used_lines (used_word sb) [] = Some ls" "wf_super sb"
  shows "length (mkfs_block sb n ls k) = LOLELFFS_BLOCK_SIZE"
proof -
  have "length first_ifree_block = LOLELFFS_BLOCK_SIZE" "length ones_block = LOLELFFS_BLOCK_SIZE"
    by (simp_all add: first_ifree_block_def ones_block_def size_defs)
  moreover have "length (first_istore sb) = LOLELFFS_BLOCK_SIZE" unfolding first_istore_def by (rule isc.length_enc [OF wf_first_istore])
  moreover note used_block_bits(2) [OF used_small [OF assms(1)] assms(1)] suc.length_enc [OF assms(2)]
  ultimately show ?thesis unfolding mkfs_block_def by (simp split: if_split)
qed

lemma mkfs_not_elf:
  assumes "blocks t 0 = enc_super (mkfs_sb sz)" "\<And>kread. bdev = Some kread \<Longrightarrow> kread 0 sizeof_Ehdr = take sizeof_Ehdr (blocks t 0)"
  shows "mount_offset bdev heap = 0"
proof (cases bdev)
  case None
  then show ?thesis by (simp add: mount_offset_def)
next
  case (Some kread)
  have "take 4 (blocks t 0) = enc32 LOLELFFS_MAGIC"
    using assms(1) by (simp add: enc_super_def enc_sb_def mkfs_sb_def mkfs_info_def Let_def)
  moreover have "enc32 LOLELFFS_MAGIC ! 0 \<noteq> ELFMAG ! 0"
    by (simp add: enc_word_def nth_le_bytes LOLELFFS_MAGIC_def ELFMAG_def)
  then have ne: "enc32 LOLELFFS_MAGIC \<noteq> ELFMAG" by metis
  moreover have "take 4 (e_ident (dec_ehdr (take sizeof_Ehdr (blocks t 0)))) = take 4 (blocks t 0)"
    by (simp add: dec_ehdr_def bytes_at_def sizeof_Ehdr_def min_def)
  ultimately have "\<not> valid_ehdr (dec_ehdr (kread 0 sizeof_Ehdr))" using assms(2) [OF Some] by (simp add: valid_ehdr_def)
  then show ?thesis using Some by (simp add: mount_offset_def find_lolelffs_section_def Let_def)
qed

lemma mkfs_root_of:
  assumes "blocks t 1 = first_istore (mkfs_sb sz)" "fs_offset (sbi t) = 0"
  shows "disk_inode t 0 = mkfs_root (mkfs_sb sz)"
  using assms wf_first_istore [of "mkfs_sb sz"]
  by (simp add: disk_inode_def istore_sector_def istore_slot_def first_istore_def isc.dec_enc)
    (simp add: zero_istore_def inodes_per_block)


section \<open>When the program succeeds\<close>

definition reliable :: "image \<Rightarrow> bool" where
  "reliable im \<longleftrightarrow> short im = (\<lambda>_. None) \<and> imem im = []"

lemma reliable_write: "reliable im \<Longrightarrow> \<exists>im'. write_block buf im = (True, im') \<and> reliable im'"
  by (simp add: reliable_def write_block_def Let_def)

lemma reliable_times: "reliable im \<Longrightarrow> \<exists>im'. write_times n buf im = (True, im') \<and> reliable im'"
proof (induction n arbitrary: im)
  case (Suc n)
  obtain im1 where "write_block buf im = (True, im1)" "reliable im1" using reliable_write [OF Suc.prems] by blast
  with Suc.IH [of im1] show ?case by simp
qed simp

lemma reliable_malloc: "reliable im \<Longrightarrow> img_malloc im = (True, im)"
  by (simp add: reliable_def img_malloc_def)

lemma reliable_first_rest:
  assumes "reliable im"
  obtains im1 im2 where "write_block a im = (True, im1)" "write_times n b im1 = (True, im2)" "reliable im2"
  using reliable_write [OF assms, of a] reliable_times [of _ n b] by metis

lemma reliable_steps:
  assumes "reliable im"
  shows "\<exists>im'. write_superblock sz im = (Some (mkfs_sb sz), im') \<and> reliable im'"
    and "\<exists>im'. write_inode_store sb im = (True, im') \<and> reliable im'"
    and "\<exists>im'. write_ifree_blocks sb im = (True, im') \<and> reliable im'"
    and "\<exists>im'. write_data_blocks im = (True, im') \<and> reliable im'"
    and "\<exists>im'. write_bfree_blocks sb im = (if used_lines (used_word sb) [] = None then None else Some True, im') \<and> reliable im'"
proof -
  note m = reliable_malloc [OF assms]
  show "\<exists>im'. write_superblock sz im = (Some (mkfs_sb sz), im') \<and> reliable im'"
    using reliable_write [OF assms, of "enc_super (mkfs_sb sz)"] by (auto simp: write_superblock_def m Let_def mkfs_sb_def)
  show "\<exists>im'. write_data_blocks im = (True, im') \<and> reliable im'"
    using reliable_write [OF assms, of zero_block] by (simp add: write_data_blocks_def m)
  obtain a1 a2 where "write_block (first_istore sb) im = (True, a1)"
      "write_times (unat (nr_istore_blocks (info sb)) - 1) zero_block a1 = (True, a2)" "reliable a2"
    using reliable_first_rest [OF assms] by blast
  then show "\<exists>im'. write_inode_store sb im = (True, im') \<and> reliable im'"
    by (simp add: write_inode_store_def m first_istore_def)
  obtain b1 b2 where "write_block first_ifree_block im = (True, b1)"
      "write_times (unat (nr_ifree_blocks (info sb)) - 1) ones_block b1 = (True, b2)" "reliable b2"
    using reliable_first_rest [OF assms] by blast
  then show "\<exists>im'. write_ifree_blocks sb im = (True, im') \<and> reliable im'"
    by (simp add: write_ifree_blocks_def m first_ifree_block_def)
  show "\<exists>im'. write_bfree_blocks sb im = (if used_lines (used_word sb) [] = None then None else Some True, im') \<and> reliable im'"
  proof (cases "used_lines (used_word sb) []")
    case None
    then show ?thesis using assms by (simp add: write_bfree_blocks_def m used_word_def [symmetric])
  next
    case (Some ls)
    obtain c1 c2 where "write_block (enc_array enc64 ls @ drop (8 * length ls) ones_block) im = (True, c1)"
        "write_times (unat (nr_bfree_blocks (info sb)) - 1) ones_block c1 = (True, c2)" "reliable c2"
      using reliable_first_rest [OF assms] by blast
    with Some show ?thesis by (simp add: write_bfree_blocks_def m used_word_def [symmetric])
  qed
qed

lemma mkfs_result:
  assumes e: "argc e = 2" "opened e" "image_size e = Some sz" "100 * LOLELFFS_BLOCK_SIZE < sz" and im: "reliable im"
    and n: "n = sz div LOLELFFS_BLOCK_SIZE" "n + 56 < 2 ^ 32"
  shows "fst (mkfs_main e im) = (if mk_used n \<le> BITS_PER_BLOCK then Some 0 else None)"
proof -
  have h: "100 \<le> n" using e(4) unfolding n(1) by (simp add: size_defs)
  have "used_lines (used_word (mkfs_sb sz)) [] = None \<longleftrightarrow> \<not> mk_used n \<le> BITS_PER_BLOCK"
    using used_lines_correct [of "[]" "used_word (mkfs_sb sz)"] used_word_nat [OF n(1) h n(2)]
    by (auto simp: BITS_PER_BLOCK_def size_defs split: if_splits)
  moreover have "reliable (im\<lparr>ipos := 0\<rparr>)" using im by (simp add: reliable_def)
  then obtain im1 where 1: "write_superblock sz (im\<lparr>ipos := 0\<rparr>) = (Some (mkfs_sb sz), im1)" "reliable im1"
    using reliable_steps(1) by blast
  obtain im2 where 2: "write_inode_store (mkfs_sb sz) im1 = (True, im2)" "reliable im2" using reliable_steps(2) [OF 1(2)] by blast
  obtain im3 where 3: "write_ifree_blocks (mkfs_sb sz) im2 = (True, im3)" "reliable im3" using reliable_steps(3) [OF 2(2)] by blast
  obtain im4 where 4: "write_bfree_blocks (mkfs_sb sz) im3 =
      (if used_lines (used_word (mkfs_sb sz)) [] = None then None else Some True, im4)" "reliable im4"
    using reliable_steps(5) [OF 3(2)] by blast
  obtain im5 where 5: "write_data_blocks im4 = (True, im5)" using reliable_steps(4) [OF 4(2)] by blast
  ultimately show ?thesis using e 1 2 3 4 5 by (simp add: mkfs_main_def not_le)
qed

lemma mk_used_room: "100 \<le> n \<Longrightarrow> mk_used n + 9 \<le> n"
  unfolding mk_defs by linarith


section \<open>What mkfs guarantees\<close>

text \<open>
  C24. Making a file system succeeds exactly when the used blocks fit the first bitmap block: for
  an image of more than 100 blocks (and fewer than \<open>2 ^ 32 - 56\<close>), with no failing write or
  allocation, the program returns 0 if superblock, inode store, bitmaps and root index block are
  at most 32768 blocks, and overruns the buffer of the bitmap block if they are more, which they
  are from about 7 GB on.
\<close>

theorem mkfs_succeeds_exactly:
  assumes "argc e = 2" "opened e" "image_size e = Some sz" "100 * LOLELFFS_BLOCK_SIZE < sz" "reliable im"
    and "n = sz div LOLELFFS_BLOCK_SIZE" "n + 56 < 2 ^ 32"
  shows "fst (mkfs_main e im) = (if mk_used n \<le> 32768 then Some 0 else None)"
  using mkfs_result [OF assms] by (simp add: BITS_PER_BLOCK_def size_defs)

definition demo_env :: "nat \<Rightarrow> mkfs_env" where
  "demo_env sz = \<lparr>argc = 2, opened = True, fstat = Some (False, sz), blkgetsize = None\<rparr>"

definition demo_image :: image where
  "demo_image = \<lparr>iblocks = (\<lambda>_. zero_block), ipos = 0, short = (\<lambda>_. None), imem = []\<rparr>"

lemma demo_image_size: "image_size (demo_env sz) = Some sz" "argc (demo_env sz) = 2" "opened (demo_env sz)" "reliable demo_image"
  by (simp_all add: image_size_def demo_env_def demo_image_def reliable_def)

theorem mkfs_succeeds_exactly_witness:
  "fst (mkfs_main (demo_env 1048576) demo_image) = Some 0 \<and> fst (mkfs_main (demo_env 8589934592) demo_image) = None"
proof -
  have "mk_used 256 \<le> 32768" "\<not> mk_used 2097152 \<le> 32768" by (simp_all add: mk_defs)
  then show ?thesis
    using mkfs_succeeds_exactly [OF demo_image_size(2,3,1) _ demo_image_size(4) refl, of 1048576]
      mkfs_succeeds_exactly [OF demo_image_size(2,3,1) _ demo_image_size(4) refl, of 8589934592]
    by (simp add: size_defs)
qed


lemma fresh_main: "mkfs_main (demo_env 1048576) demo_image = (Some 0, snd (mkfs_main (demo_env 1048576) demo_image))"
proof -
  have "mk_used 256 \<le> BITS_PER_BLOCK" by (simp add: mk_defs BITS_PER_BLOCK_def size_defs)
  with mkfs_result [OF demo_image_size(2,3,1) _ demo_image_size(4) refl, of 1048576]
  have "fst (mkfs_main (demo_env 1048576) demo_image) = Some 0" by (simp add: size_defs)
  then show ?thesis by (metis prod.collapse)
qed

end
