(* ===== verification/Fsck.thy ===== *)
theory Fsck
  imports Mkfs
begin

text \<open>
  The checker, \<^verbatim>\<open>src/fsck.lolelffs.c\<close>. \<open>dev\<close> is the image by block numbers, \<^term>\<open>None\<close> where
  a block cannot be read. Each check gives the numbers of errors and of warnings it reports;
  \<open>check_superblock\<close> also gives the superblock, or \<^term>\<open>None\<close> when it returns \<open>-1\<close>, after which
  the program stops. The other checks run in any case, so their return values do not matter.
  What is printed is not modelled.
\<close>

type_synonym report = "nat \<times> nat"

definition S_IRUSR :: u32 where "S_IRUSR = 0x100"
definition S_IXUSR :: u32 where "S_IXUSR = 0x40"

section \<open>The superblock\<close>

definition kdf_warnings :: "lolelffs_sb_info \<Rightarrow> nat" where
  "kdf_warnings sb =
     (if unat (enc_kdf_algo sb) \<noteq> LOLELFFS_KDF_NONE
      then of_bool (enc_kdf_iterations sb = 0) + of_bool (1000000 < enc_kdf_iterations sb)
         + (if unat (enc_kdf_algo sb) = LOLELFFS_KDF_ARGON2ID
            then of_bool (enc_kdf_memory sb < 1024) + of_bool (4194304 < enc_kdf_memory sb)
               + of_bool (enc_kdf_parallelism sb = 0 \<or> 256 < enc_kdf_parallelism sb)
            else 0)
      else 0)"

definition layout_errors :: "lolelffs_sb_info \<Rightarrow> nat" where
  "layout_errors sb =
     of_bool (nr_istore_blocks sb \<noteq> nr_inodes sb div of_nat LOLELFFS_INODES_PER_BLOCK)
     + of_bool (nr_inodes sb < nr_free_inodes sb) + of_bool (nr_blocks sb < nr_free_blocks sb)
     + of_bool (nr_blocks sb - nr_free_blocks sb < 1 + nr_istore_blocks sb + nr_ifree_blocks sb + nr_bfree_blocks sb)"

definition check_superblock :: "(nat \<Rightarrow> bytes option) \<Rightarrow> lolelffs_sb_info option \<times> report" where
  "check_superblock dev =
     (case dev 0 of
        None \<Rightarrow> (None, 1, 0)
      | Some block \<Rightarrow>
          (let sb = info (dec_super block)
           in if magic sb \<noteq> LOLELFFS_MAGIC then (None, 1, 0)
              else if nr_blocks sb < 100 then (None, 1, 0)
              else if nr_inodes sb = 0 then (None, 1, 0)
              else
                (let w = of_bool (nr_inodes sb mod of_nat LOLELFFS_INODES_PER_BLOCK \<noteq> 0)
                 in if version sb \<noteq> LOLELFFS_VERSION then (None, 1, w)
                    else if LOLELFFS_COMP_ZSTD < unat (comp_default_algo sb) then (None, 1, w)
                    else
                      (let w = w + of_bool (max_extent_blocks sb \<noteq> LOLELFFS_MAX_BLOCKS_PER_EXTENT);
                           e = (if LOLELFFS_MAX_BLOCKS_PER_EXTENT_LARGE < max_extent_blocks_large sb then 2 else 0)
                       in if LOLELFFS_ENC_CHACHA20_POLY < unat (enc_default_algo sb) then (None, e + 1, w)
                          else if LOLELFFS_KDF_PBKDF2 < unat (enc_kdf_algo sb) then (None, e + 1, w)
                          else (Some sb, e + layout_errors sb, w + kdf_warnings sb)))))"

section \<open>The root directory\<close>

definition metadata_end :: "lolelffs_sb_info \<Rightarrow> u32" where
  "metadata_end sb = 1 + nr_istore_blocks sb + nr_ifree_blocks sb + nr_bfree_blocks sb"

definition check_root_inode :: "lolelffs_sb_info \<Rightarrow> (nat \<Rightarrow> bytes option) \<Rightarrow> report" where
  "check_root_inode sb dev =
     (case dev 1 of
        None \<Rightarrow> (1, 0)
      | Some block \<Rightarrow>
          (let root = inodes (dec_istore block) ! 0; mode = i_mode root
           in if mode AND ucast S_IFMT \<noteq> ucast S_IFDIR then (1, 0)
              else
                (let w = of_bool (mode AND S_IRUSR = 0) + of_bool (mode AND S_IXUSR = 0)
                         + of_bool (i_size root \<noteq> of_nat LOLELFFS_BLOCK_SIZE);
                     e = of_bool (i_nlink root < 2) + of_bool (i_blocks root = 0);
                     outside = (\<lambda>b. b < metadata_end sb \<or> nr_blocks sb \<le> b)
                 in if outside (ei_block root) then (e + 1, w)
                    else if xattr_block root \<noteq> 0 \<and> outside (xattr_block root) then (e + 1, w)
                    else (e, w))))"

definition check_extent :: "lolelffs_sb_info \<Rightarrow> lolelffs_extent \<Rightarrow> report" where
  "check_extent sb x =
     (let max_blocks = (if ee_flags x AND LOLELFFS_EXT_HAS_META \<noteq> 0 then LOLELFFS_MAX_BLOCKS_PER_EXTENT
                        else if max_extent_blocks_large sb \<noteq> 0 then max_extent_blocks_large sb
                        else LOLELFFS_MAX_BLOCKS_PER_EXTENT)
      in (of_bool (ee_len x = 0) + of_bool (max_blocks < ee_len x) + of_bool (nr_blocks sb < ee_start x + ee_len x)
          + of_bool (LOLELFFS_COMP_ZSTD < unat (ee_comp_algo x)) + of_bool (LOLELFFS_ENC_CHACHA20_POLY < unat (ee_enc_algo x)),
          of_bool (ee_flags x AND LOLELFFS_EXT_COMPRESSED \<noteq> 0 \<and> unat (ee_comp_algo x) = LOLELFFS_COMP_NONE)
          + of_bool (ee_flags x AND LOLELFFS_EXT_ENCRYPTED \<noteq> 0 \<and> unat (ee_enc_algo x) = LOLELFFS_ENC_NONE)))"

fun check_extents :: "lolelffs_sb_info \<Rightarrow> lolelffs_extent list \<Rightarrow> report" where
  "check_extents sb [] = (0, 0)"
| "check_extents sb (x # xs) =
     (if ee_start x = 0 then (0, 0)
      else
        (let (e, w) = check_extent sb x; (e', w') = check_extents sb xs in (e + e', w + w')))"

definition check_root_extent_block :: "lolelffs_sb_info \<Rightarrow> (nat \<Rightarrow> bytes option) \<Rightarrow> report" where
  "check_root_extent_block sb dev =
     (case dev 1 of
        None \<Rightarrow> (1, 0)
      | Some block \<Rightarrow>
          (case dev (unat (ei_block (inodes (dec_istore block) ! 0))) of
             None \<Rightarrow> (1, 0)
           | Some block \<Rightarrow>
               (let eb = dec_ei block; e = of_bool (LOLELFFS_MAX_SUBFILES < unat (nr_files eb))
                in if nr_files eb > 0
                   then (let (e', w) = check_extents sb (extents eb) in (e + e', w))
                   else (e, 0))))"

section \<open>The bitmaps\<close>

text \<open>The bits of block \<open>b\<close> of a bitmap that are set and belong to one of \<open>nr\<close> objects.\<close>

definition free_in_block :: "u32 \<Rightarrow> nat \<Rightarrow> bytes \<Rightarrow> nat" where
  "free_in_block nr b block =
     length (filter (\<lambda>j. (of_nat (b * BITS_PER_BLOCK + j) :: u32) < nr \<and> bits_of_bytes block ! j) [0..<BITS_PER_BLOCK])"

fun count_free :: "(nat \<Rightarrow> bytes option) \<Rightarrow> u32 \<Rightarrow> u32 \<Rightarrow> nat list \<Rightarrow> u32 \<Rightarrow> u32 option" where
  "count_free dev start nr [] acc = Some acc"
| "count_free dev start nr (b # bs) acc =
     (case dev (unat (start + of_nat b)) of
        None \<Rightarrow> None
      | Some block \<Rightarrow> count_free dev start nr bs (acc + of_nat (free_in_block nr b block)))"

definition check_bitmap :: "(nat \<Rightarrow> bytes option) \<Rightarrow> u32 \<Rightarrow> u32 \<Rightarrow> u32 \<Rightarrow> u32 \<Rightarrow> report" where
  "check_bitmap dev start n nr nr_free =
     (case count_free dev start nr [0..<unat n] 0 of
        None \<Rightarrow> (1, 0)
      | Some free_count \<Rightarrow>
          (let e = of_bool (free_count \<noteq> nr_free)
           in case dev (unat start) of
                None \<Rightarrow> (e + 1, 0)
              | Some block \<Rightarrow> (e + of_bool (bit (block ! 0) 0), 0)))"

definition check_inode_bitmap :: "lolelffs_sb_info \<Rightarrow> (nat \<Rightarrow> bytes option) \<Rightarrow> report" where
  "check_inode_bitmap sb dev =
     check_bitmap dev (1 + nr_istore_blocks sb) (nr_ifree_blocks sb) (nr_inodes sb) (nr_free_inodes sb)"

definition check_block_bitmap :: "lolelffs_sb_info \<Rightarrow> (nat \<Rightarrow> bytes option) \<Rightarrow> report" where
  "check_block_bitmap sb dev =
     check_bitmap dev (1 + nr_istore_blocks sb + nr_ifree_blocks sb) (nr_bfree_blocks sb) (nr_blocks sb) (nr_free_blocks sb)"

section \<open>The program\<close>

definition add_report :: "report \<Rightarrow> report \<Rightarrow> report" where
  "add_report r r' = (fst r + fst r', snd r + snd r')"

text \<open>
  The exit status and the report of a run on an image that could be opened; \<open>usage_ok\<close> says whether
  the command line names an image.
\<close>

definition fsck_main :: "bool \<Rightarrow> (nat \<Rightarrow> bytes option) option \<Rightarrow> nat \<times> report" where
  "fsck_main usage_ok img =
     (if \<not> usage_ok then (1, 0, 0)
      else
        (case img of
           None \<Rightarrow> (1, 0, 0)
         | Some dev \<Rightarrow>
             (let (sb, r) = check_superblock dev;
                  r = (case sb of
                         None \<Rightarrow> r
                       | Some sb \<Rightarrow>
                           foldl add_report r [check_root_inode sb dev, check_root_extent_block sb dev,
                             check_inode_bitmap sb dev, check_block_bitmap sb dev])
              in (if fst r > 0 then 1 else 0, r))))"

section \<open>Counting the bits\<close>

text \<open>The image of a device as the checker reads it, and the bits of a bitmap as a mount loads them.\<close>

definition disk_of :: "fs \<Rightarrow> nat \<Rightarrow> bytes option" where
  "disk_of t k = (if readable t k then Some (blocks t k) else None)"

lemma free_in_block_card:
  assumes "(b + 1) * BITS_PER_BLOCK \<le> 2 ^ 32"
  shows "free_in_block nr b block = card {j. j < BITS_PER_BLOCK \<and> b * BITS_PER_BLOCK + j < unat nr \<and> bits_of_bytes block ! j}"
proof -
  have "(of_nat (b * BITS_PER_BLOCK + j) :: u32) < nr \<longleftrightarrow> b * BITS_PER_BLOCK + j < unat nr" if "j < BITS_PER_BLOCK" for j
  proof -
    have "b * BITS_PER_BLOCK + j < 4294967296" using that assms by simp
    then show ?thesis by (simp only: word_less_nat_alt unat_of_nat_u32)
  qed
  moreover have "free_in_block nr b block =
      card {j. j < BITS_PER_BLOCK \<and> (of_nat (b * BITS_PER_BLOCK + j) :: u32) < nr \<and> bits_of_bytes block ! j}"
    unfolding free_in_block_def by (subst distinct_card [symmetric]) (auto intro: arg_cong [where f = card])
  ultimately show ?thesis by (metis (mono_tags, lifting) Collect_cong)
qed

lemma free_bits_block:
  assumes "(n + 1) * BITS_PER_BLOCK \<le> 2 ^ 32" "\<And>i. i \<le> n \<Longrightarrow> length (blocks t (k + i)) = LOLELFFS_BLOCK_SIZE"
  shows "card (free_bits (bits_of_bytes (run_bytes t k (Suc n))) (unat nr)) =
    card (free_bits (bits_of_bytes (run_bytes t k n)) (unat nr)) + free_in_block nr n (blocks t (k + n))"
proof -
  let ?m = "n * BITS_PER_BLOCK" and ?b = "bits_of_bytes (blocks t (k + n))"
  define xs where "xs = bits_of_bytes (run_bytes t k n)"
  have "length (run_bytes t k m) = m * LOLELFFS_BLOCK_SIZE" if "m \<le> n" for m
    using that assms(2) by (induction m) (simp_all add: run_bytes_def)
  then have l: "length xs = ?m" "length ?b = BITS_PER_BLOCK" using assms(2) [of n] by (simp_all add: xs_def BITS_PER_BLOCK_def)
  have r: "bits_of_bytes (run_bytes t k (Suc n)) = xs @ ?b" by (simp add: xs_def run_bytes_def bits_of_bytes_append)
  let ?A = "free_bits xs (unat nr)" and ?J = "{j. j < BITS_PER_BLOCK \<and> ?m + j < unat nr \<and> ?b ! j}"
  have "free_bits (xs @ ?b) (unat nr) = ?A \<union> (+) ?m ` ?J"
  proof (rule set_eqI)
    fix i
    show "i \<in> free_bits (xs @ ?b) (unat nr) \<longleftrightarrow> i \<in> ?A \<union> (+) ?m ` ?J"
    proof (cases "i < ?m")
      case False
      then obtain j where "i = ?m + j" by (metis le_Suc_ex not_less)
      then show ?thesis using l by (auto simp: mem_free_bits bit_set_def nth_append)
    qed (use l in \<open>auto simp: mem_free_bits bit_set_def nth_append\<close>)
  qed
  moreover have "?A \<inter> (+) ?m ` ?J = {}" using l by (auto simp: mem_free_bits bit_set_def)
  ultimately have "card (free_bits (xs @ ?b) (unat nr)) = card ?A + card ?J"
    by (simp add: card_Un_disjoint card_image)
  then show ?thesis by (simp add: r xs_def [symmetric] free_in_block_card [OF assms(1)])
qed

lemma count_free_snoc:
  "count_free dev start nr (bs @ [b]) acc =
     (case count_free dev start nr bs acc of None \<Rightarrow> None
      | Some a \<Rightarrow> map_option (\<lambda>block. a + of_nat (free_in_block nr b block)) (dev (unat (start + of_nat b))))"
  by (induction bs arbitrary: acc) (auto split: option.splits)

lemma count_free_bits:
  assumes "n * BITS_PER_BLOCK \<le> 2 ^ 32" "unat start + n < 2 ^ 32"
    and "\<And>i. i < n \<Longrightarrow> readable t (unat start + i)" "\<And>i. i < n \<Longrightarrow> length (blocks t (unat start + i)) = LOLELFFS_BLOCK_SIZE"
  shows "count_free (disk_of t) start nr [0..<n] 0 =
    Some (of_nat (card (free_bits (bits_of_bytes (run_bytes t (unat start) n)) (unat nr))))"
  using assms
proof (induction n)
  case 0
  have "free_bits [] m = {}" for m by (auto simp: mem_free_bits bit_set_def)
  then show ?case by (simp add: run_bytes_def bits_of_bytes_def)
next
  case (Suc n)
  have "unat (of_nat n :: u32) = n" using Suc.prems by (intro unat_of_nat_u32) simp
  then have u: "unat (start + of_nat n) = unat start + n" using Suc.prems by (subst unat_add_u32) simp_all
  have "(n + 1) * BITS_PER_BLOCK \<le> 2 ^ 32" using Suc.prems(1) by simp
  from free_bits_block [OF this, of t "unat start" nr] Suc
  show ?case by (simp add: count_free_snoc u disk_of_def)
qed

lemma card_free_bits_le: "card (free_bits bm n) \<le> n"
proof -
  have "free_bits bm n \<subseteq> {..<n}" by (auto simp: mem_free_bits)
  from card_mono [OF _ this] show ?thesis by simp
qed

text \<open>The check of a bitmap that is large enough finds nothing exactly when the allocation invariant holds.\<close>

lemma check_bitmap_inv:
  assumes n: "0 < unat n" "unat n * BITS_PER_BLOCK \<le> 2 ^ 32" "unat start + unat n < 2 ^ 32" "unat nr \<le> unat n * BITS_PER_BLOCK"
    and rd: "\<And>i. i < unat n \<Longrightarrow> readable t (unat start + i)"
    and len: "\<And>i. i < unat n \<Longrightarrow> length (blocks t (unat start + i)) = LOLELFFS_BLOCK_SIZE"
  shows "check_bitmap (disk_of t) start n nr nr_free = (0, 0) \<longleftrightarrow>
    alloc_inv (bits_of_bytes (run_bytes t (unat start) (unat n))) nr nr_free"
proof -
  define bm where "bm = bits_of_bytes (run_bytes t (unat start) (unat n))"
  have "length (run_bytes t (unat start) m) = m * LOLELFFS_BLOCK_SIZE" if "m \<le> unat n" for m
    using that len by (induction m) (simp_all add: run_bytes_def)
  then have l: "length bm = unat n * BITS_PER_BLOCK" by (simp add: bm_def BITS_PER_BLOCK_def)
  have "run_bytes t (unat start) (unat n) = blocks t (unat start) @ concat (map (\<lambda>i. blocks t (unat start + i)) [1..<unat n])"
    using n(1) upt_conv_Cons [of 0 "unat n"] by (simp add: run_bytes_def)
  then have "bm ! 0 = bits_of_bytes (blocks t (unat start)) ! 0"
    using len [of 0] n(1) by (simp add: bm_def bits_of_bytes_append nth_append size_defs)
  also have "\<dots> = bit (blocks t (unat start) ! 0) 0" using len [of 0] n(1) by (subst nth_bits_of_bytes) (simp_all add: size_defs)
  finally have z: "bit_set bm 0 \<longleftrightarrow> bit (blocks t (unat start) ! 0) 0"
    using n(1) l by (simp add: bit_set_def BITS_PER_BLOCK_def size_defs)
  have "unat nr < 4294967296" by simp
  with card_free_bits_le have "card (free_bits bm (unat nr)) < 4294967296" by (rule le_less_trans)
  then have "of_nat (card (free_bits bm (unat nr))) = nr_free \<longleftrightarrow> unat nr_free = card (free_bits bm (unat nr))"
    by (auto simp: word_unat_eq_iff unat_of_nat_u32)
  then show ?thesis
    using z l n(1,4) rd [of 0] count_free_bits [OF n(2,3) rd len, of nr]
    by (auto simp: check_bitmap_def alloc_inv_def bm_def [symmetric] disk_of_def)
qed

section \<open>A clean report\<close>

lemma check_superblock_stops: "check_superblock dev = (None, e, w) \<Longrightarrow> 0 < e"
  by (auto simp: check_superblock_def Let_def split: option.splits if_splits)

lemma fsck_clean:
  "fsck_main True (Some dev) = (0, 0, 0) \<longleftrightarrow>
     (\<exists>sb. check_superblock dev = (Some sb, 0, 0) \<and> check_root_inode sb dev = (0, 0) \<and> check_root_extent_block sb dev = (0, 0)
        \<and> check_inode_bitmap sb dev = (0, 0) \<and> check_block_bitmap sb dev = (0, 0))"
proof -
  obtain sb e w where c: "check_superblock dev = (sb, e, w)" by (metis prod_cases3)
  then have n: "sb = None \<Longrightarrow> 0 < e" using check_superblock_stops by blast
  have "fsck_main True (Some dev) = (0, 0, 0) \<longleftrightarrow> (\<exists>b. sb = Some b \<and> foldl add_report (e, w) [check_root_inode b dev,
      check_root_extent_block b dev, check_inode_bitmap b dev, check_block_bitmap b dev] = (0, 0))"
    using n by (cases sb) (auto simp: fsck_main_def c Let_def)
  then show ?thesis unfolding c by (cases sb) (auto simp: add_report_def prod_eq_iff)
qed

lemma check_superblock_clean:
  "check_superblock (disk_of t) = (Some sb, 0, 0) \<longleftrightarrow>
     readable t 0 \<and> sb = info (dec_super (blocks t 0)) \<and> magic sb = LOLELFFS_MAGIC \<and> 100 \<le> nr_blocks sb \<and> nr_inodes sb \<noteq> 0
     \<and> nr_inodes sb mod of_nat LOLELFFS_INODES_PER_BLOCK = 0 \<and> version sb = LOLELFFS_VERSION
     \<and> unat (comp_default_algo sb) \<le> LOLELFFS_COMP_ZSTD \<and> max_extent_blocks sb = LOLELFFS_MAX_BLOCKS_PER_EXTENT
     \<and> max_extent_blocks_large sb \<le> LOLELFFS_MAX_BLOCKS_PER_EXTENT_LARGE \<and> unat (enc_default_algo sb) \<le> LOLELFFS_ENC_CHACHA20_POLY
     \<and> unat (enc_kdf_algo sb) \<le> LOLELFFS_KDF_PBKDF2 \<and> layout_errors sb = 0 \<and> kdf_warnings sb = 0"
  by (auto simp: check_superblock_def disk_of_def Let_def not_less del: mod_0_imp_dvd split: if_splits)

text \<open>
  The sizes of the bitmaps, which the checker does not compare with the numbers of inodes and blocks.
\<close>

definition bitmaps_sized :: "'a lolelffs_sb_info_scheme \<Rightarrow> bool" where
  "bitmaps_sized sb \<longleftrightarrow> unat (nr_ifree_blocks sb) = (unat (nr_inodes sb) + (BITS_PER_BLOCK - 1)) div BITS_PER_BLOCK
     \<and> unat (nr_bfree_blocks sb) = (unat (nr_blocks sb) + (BITS_PER_BLOCK - 1)) div BITS_PER_BLOCK"

lemma sized_bounds:
  assumes "bitmaps_sized sb" "100 \<le> nr_blocks sb" "nr_inodes sb \<noteq> 0"
  shows "0 < unat (nr_ifree_blocks sb)" "unat (nr_ifree_blocks sb) \<le> 131072" "unat (nr_inodes sb) \<le> unat (nr_ifree_blocks sb) * BITS_PER_BLOCK"
    "0 < unat (nr_bfree_blocks sb)" "unat (nr_bfree_blocks sb) \<le> 131072" "unat (nr_blocks sb) \<le> unat (nr_bfree_blocks sb) * BITS_PER_BLOCK"
proof -
  define ni nb where "ni = unat (nr_inodes sb)" and "nb = unat (nr_blocks sb)"
  have b: "0 < ni" "100 \<le> nb" "ni < 4294967296" "nb < 4294967296"
    using assms(2,3) by (simp_all add: ni_def nb_def word_le_nat_alt unat_gt_0)
  have e: "unat (nr_ifree_blocks sb) = (ni + 32767) div 32768" "unat (nr_bfree_blocks sb) = (nb + 32767) div 32768"
    using assms(1) by (simp_all add: bitmaps_sized_def ni_def nb_def BITS_PER_BLOCK_def size_defs)
  show "0 < unat (nr_ifree_blocks sb)" "unat (nr_ifree_blocks sb) \<le> 131072" "unat (nr_inodes sb) \<le> unat (nr_ifree_blocks sb) * BITS_PER_BLOCK"
    "0 < unat (nr_bfree_blocks sb)" "unat (nr_bfree_blocks sb) \<le> 131072" "unat (nr_blocks sb) \<le> unat (nr_bfree_blocks sb) * BITS_PER_BLOCK"
    using b unfolding e ni_def [symmetric] nb_def [symmetric] BITS_PER_BLOCK_def size_defs by linarith+
qed

text \<open>The layout of a superblock without errors: no number wraps and the metadata fit.\<close>

lemma layout_bounds:
  assumes "layout_errors sb = 0" "bitmaps_sized sb" "100 \<le> nr_blocks sb" "nr_inodes sb \<noteq> 0"
    and "nr_inodes sb mod of_nat LOLELFFS_INODES_PER_BLOCK = 0"
  shows "0 < unat (nr_istore_blocks sb)" "unat (nr_istore_blocks sb) \<le> 76695844"
    "unat (nr_inodes sb) = unat (nr_istore_blocks sb) * LOLELFFS_INODES_PER_BLOCK"
    "1 + unat (nr_istore_blocks sb) + unat (nr_ifree_blocks sb) + unat (nr_bfree_blocks sb) \<le> unat (nr_blocks sb)"
proof -
  have l: "nr_istore_blocks sb = nr_inodes sb div 56" "nr_free_blocks sb \<le> nr_blocks sb"
    "1 + nr_istore_blocks sb + nr_ifree_blocks sb + nr_bfree_blocks sb \<le> nr_blocks sb - nr_free_blocks sb"
    using assms(1) unfolding layout_errors_def by (auto simp: inodes_per_block not_less)
  define ni where "ni = unat (nr_inodes sb)"
  have "unat (nr_inodes sb mod 56) = unat (0 :: u32)" using assms(5) by (simp only: inodes_per_block of_nat_numeral)
  then have ni: "0 < ni" "ni < 4294967296" "ni mod 56 = 0" using assms(4) by (simp_all add: unat_mod ni_def unat_gt_0)
  have i: "unat (nr_istore_blocks sb) = ni div 56" by (simp add: l(1) unat_div ni_def)
  have "ni = 56 * (ni div 56)" using ni(3) by (metis add.right_neutral mult_div_mod_eq)
  then show a: "0 < unat (nr_istore_blocks sb)" "unat (nr_istore_blocks sb) \<le> 76695844"
    and "unat (nr_inodes sb) = unat (nr_istore_blocks sb) * LOLELFFS_INODES_PER_BLOCK"
    using ni(1,2) unfolding i ni_def [symmetric] inodes_per_block by linarith+
  note s = sized_bounds [OF assms(2-4)]
  have "unat (1 + nr_istore_blocks sb + nr_ifree_blocks sb + nr_bfree_blocks sb)
      = 1 + unat (nr_istore_blocks sb) + unat (nr_ifree_blocks sb) + unat (nr_bfree_blocks sb)"
    using a s by (simp add: unat_add_u32)
  moreover have "unat (nr_blocks sb - nr_free_blocks sb) \<le> unat (nr_blocks sb)"
    using l(2) by (simp add: unat_sub_u32 word_le_nat_alt)
  ultimately show "1 + unat (nr_istore_blocks sb) + unat (nr_ifree_blocks sb) + unat (nr_bfree_blocks sb) \<le> unat (nr_blocks sb)"
    using l(3) by (simp only: word_le_nat_alt)
qed

lemma check_bitmaps_inv:
  assumes sb: "sb = info (dec_super (blocks t 0))" and lay: "layout_errors sb = 0" "bitmaps_sized sb" "100 \<le> nr_blocks sb"
      "nr_inodes sb \<noteq> 0" "nr_inodes sb mod of_nat LOLELFFS_INODES_PER_BLOCK = 0"
    and rd: "\<And>k. k < unat (nr_blocks sb) \<Longrightarrow> readable t k" and wf: "wf_dev t"
  shows "check_inode_bitmap sb (disk_of t) = (0, 0) \<longleftrightarrow> inodes_inv (loaded_sbi t 0)"
    and "check_block_bitmap sb (disk_of t) = (0, 0) \<longleftrightarrow> blocks_inv (loaded_sbi t 0)"
proof -
  note s = sized_bounds [OF lay(2-4)] and l = layout_bounds [OF lay]
  have u: "unat (1 + nr_istore_blocks sb) = 1 + unat (nr_istore_blocks sb)"
    "unat (1 + nr_istore_blocks sb + nr_ifree_blocks sb) = 1 + unat (nr_istore_blocks sb) + unat (nr_ifree_blocks sb)"
    using s l by (simp_all add: unat_add_u32)
  have big: "n * BITS_PER_BLOCK \<le> 2 ^ 32" if "n \<le> 131072" for n using that by (simp add: BITS_PER_BLOCK_def size_defs)
  have len: "length (blocks t k) = LOLELFFS_BLOCK_SIZE" for k using wf by (simp add: wf_dev_def)
  have ld: "ifree_bitmap (loaded_sbi t 0) = bits_of_bytes (run_bytes t (unat (1 + nr_istore_blocks sb)) (unat (nr_ifree_blocks sb)))"
    "bfree_bitmap (loaded_sbi t 0) = bits_of_bytes (run_bytes t (unat (1 + nr_istore_blocks sb + nr_ifree_blocks sb)) (unat (nr_bfree_blocks sb)))"
    "nr_inodes (loaded_sbi t 0) = nr_inodes sb" "nr_blocks (loaded_sbi t 0) = nr_blocks sb"
    "nr_free_inodes (loaded_sbi t 0) = nr_free_inodes sb" "nr_free_blocks (loaded_sbi t 0) = nr_free_blocks sb"
    by (simp_all add: loaded_sbi_def Let_def sb [symmetric] u) (simp_all add: sbi_of_disk_def)
  show "check_inode_bitmap sb (disk_of t) = (0, 0) \<longleftrightarrow> inodes_inv (loaded_sbi t 0)"
    unfolding check_inode_bitmap_def inodes_inv_def ld
    by (rule check_bitmap_inv) (use s l big len in \<open>auto simp: u intro: rd\<close>)
  show "check_block_bitmap sb (disk_of t) = (0, 0) \<longleftrightarrow> blocks_inv (loaded_sbi t 0)"
    unfolding check_block_bitmap_def blocks_inv_def ld
    by (rule check_bitmap_inv) (use s l big len in \<open>auto simp: u intro: rd\<close>)
qed

section \<open>What a clean report guarantees\<close>

lemma loaded_counts:
  "nr_istore_blocks (loaded_sbi t 0) = nr_istore_blocks (info (dec_super (blocks t 0)))"
  "nr_ifree_blocks (loaded_sbi t 0) = nr_ifree_blocks (info (dec_super (blocks t 0)))"
  "nr_bfree_blocks (loaded_sbi t 0) = nr_bfree_blocks (info (dec_super (blocks t 0)))"
  "nr_inodes (loaded_sbi t 0) = nr_inodes (info (dec_super (blocks t 0)))"
  "nr_blocks (loaded_sbi t 0) = nr_blocks (info (dec_super (blocks t 0)))"
  "fs_offset (loaded_sbi t 0) = 0"
  by (simp_all add: loaded_sbi_def Let_def sbi_of_disk_def)

lemma length_run_bytes: "wf_dev t \<Longrightarrow> length (run_bytes t k n) = n * LOLELFFS_BLOCK_SIZE"
  by (induction n) (simp_all add: run_bytes_def wf_dev_def)

lemma clean_mounted:
  assumes sb: "sb = info (dec_super (blocks t 0))" and lay: "layout_errors sb = 0" "bitmaps_sized sb" "100 \<le> nr_blocks sb"
      "nr_inodes sb \<noteq> 0" "nr_inodes sb mod of_nat LOLELFFS_INODES_PER_BLOCK = 0"
    and rd: "\<And>k. k < unat (nr_blocks sb) \<Longrightarrow> readable t k" and wf: "wf_dev t"
  shows "mounted (t\<lparr>sbi := loaded_sbi t 0\<rparr>)"
proof -
  note s = sized_bounds [OF lay(2-4)] and l = layout_bounds [OF lay] and c = loaded_counts [of t, folded sb]
  have "length (ifree_bitmap (loaded_sbi t 0)) = unat (nr_ifree_blocks sb) * BITS_PER_BLOCK"
    "length (bfree_bitmap (loaded_sbi t 0)) = unat (nr_bfree_blocks sb) * BITS_PER_BLOCK"
    by (simp_all add: loaded_sbi_def Let_def sb [symmetric] length_run_bytes [OF wf] BITS_PER_BLOCK_def)
      (simp_all add: sbi_of_disk_def)
  moreover have "0 < nr_inodes sb" "0 < nr_istore_blocks sb" using lay(4) l(1) by (simp_all add: word_less_nat_alt unat_gt_0)
  ultimately show ?thesis using s l
    by (auto simp: mounted_def c first_data_def first_bfree_def first_ifree_def intro: rd)
qed


section \<open>The checker accepts what mkfs makes\<close>

lemma mkfs_superblock_clean:
  assumes "n = sz div LOLELFFS_BLOCK_SIZE" "100 \<le> n" "n + 56 < 2 ^ 32"
  shows "100 \<le> nr_blocks (mkfs_info sz)" "nr_inodes (mkfs_info sz) \<noteq> 0"
    "nr_inodes (mkfs_info sz) mod of_nat LOLELFFS_INODES_PER_BLOCK = 0"
    "layout_errors (mkfs_info sz) = 0" "kdf_warnings (mkfs_info sz) = 0" "bitmaps_sized (mkfs_info sz)"
proof -
  note f = mkfs_info_nat [OF assms] and b = mk_bounds [OF assms(2)]
  show "100 \<le> nr_blocks (mkfs_info sz)" "nr_inodes (mkfs_info sz) \<noteq> 0"
    using f b assms(2) by (simp_all add: word_le_nat_alt word_unat_eq_iff)
  have "unat (nr_inodes (mkfs_info sz) mod 56) = 0" by (simp add: unat_mod f mk_inodes_def)
  then show "nr_inodes (mkfs_info sz) mod of_nat LOLELFFS_INODES_PER_BLOCK = 0"
    by (simp only: inodes_per_block of_nat_numeral unat_eq_0)
  have "unat (nr_inodes (mkfs_info sz) div 56) = mk_istore n" by (simp add: unat_div f mk_inodes_def)
  then have "nr_istore_blocks (mkfs_info sz) = nr_inodes (mkfs_info sz) div 56" using f(3) by (simp add: word_unat_eq_iff)
  moreover have "unat (nr_blocks (mkfs_info sz) - nr_free_blocks (mkfs_info sz)) = mk_used n"
    using f b by (subst unat_sub_u32) simp_all
  moreover have "unat (1 + nr_istore_blocks (mkfs_info sz) + nr_ifree_blocks (mkfs_info sz) + nr_bfree_blocks (mkfs_info sz)) = mk_used n - 1"
    using f b assms by (simp add: unat_add_u32 mk_used_def)
  ultimately show "layout_errors (mkfs_info sz) = 0"
    using f(1,2,6,7) by (auto simp: layout_errors_def word_less_nat_alt inodes_per_block)
  show "bitmaps_sized (mkfs_info sz)"
    by (simp add: bitmaps_sized_def f mk_ifree_def mk_bfree_def BITS_PER_BLOCK_def size_defs)
  show "kdf_warnings (mkfs_info sz) = 0" by (simp add: kdf_warnings_def mkfs_info_def Let_def const_values)
qed

lemma mkfs_settings:
  "version (mkfs_info sz) = LOLELFFS_VERSION" "max_extent_blocks (mkfs_info sz) = LOLELFFS_MAX_BLOCKS_PER_EXTENT"
  "max_extent_blocks_large (mkfs_info sz) = LOLELFFS_MAX_BLOCKS_PER_EXTENT_LARGE"
  "unat (comp_default_algo (mkfs_info sz)) \<le> LOLELFFS_COMP_ZSTD"
  "unat (enc_default_algo (mkfs_info sz)) \<le> LOLELFFS_ENC_CHACHA20_POLY" "unat (enc_kdf_algo (mkfs_info sz)) \<le> LOLELFFS_KDF_PBKDF2"
proof -
  have "unat (of_nat LOLELFFS_COMP_LZ4 :: u32) \<le> LOLELFFS_COMP_ZSTD" "unat (of_nat LOLELFFS_ENC_NONE :: u32) \<le> LOLELFFS_ENC_CHACHA20_POLY"
    "unat (of_nat LOLELFFS_KDF_ARGON2ID :: u32) \<le> LOLELFFS_KDF_PBKDF2"
    by code_simp+
  then show "version (mkfs_info sz) = LOLELFFS_VERSION" "max_extent_blocks (mkfs_info sz) = LOLELFFS_MAX_BLOCKS_PER_EXTENT"
    "max_extent_blocks_large (mkfs_info sz) = LOLELFFS_MAX_BLOCKS_PER_EXTENT_LARGE"
    "unat (comp_default_algo (mkfs_info sz)) \<le> LOLELFFS_COMP_ZSTD"
    "unat (enc_default_algo (mkfs_info sz)) \<le> LOLELFFS_ENC_CHACHA20_POLY" "unat (enc_kdf_algo (mkfs_info sz)) \<le> LOLELFFS_KDF_PBKDF2"
    by (simp_all add: mkfs_info_def Let_def)
qed

lemma mkfs_root_clean:
  assumes n: "n = sz div LOLELFFS_BLOCK_SIZE" "100 \<le> n" "n + 56 < 2 ^ 32" "mk_used n < n"
    and rd: "\<And>k. k < n \<Longrightarrow> readable t k"
    and bl: "blocks t 1 = first_istore (mkfs_sb sz)" "blocks t (mk_used n - 1) = zero_block"
  shows "check_root_inode (mkfs_info sz) (disk_of t) = (0, 0)" "check_root_extent_block (mkfs_info sz) (disk_of t) = (0, 0)"
proof -
  note f = mkfs_info_nat [OF n(1-3)] and b = mk_bounds [OF n(2)]
  let ?r = "mkfs_root (mkfs_sb sz)"
  have i: "inodes (dec_istore (blocks t 1)) ! 0 = ?r"
    using wf_first_istore [of "mkfs_sb sz"] bl(1) by (simp add: first_istore_def isc.dec_enc) (simp add: zero_istore_def inodes_per_block)
  have d: "disk_of t 1 = Some (blocks t 1)" "disk_of t (mk_used n - 1) = Some zero_block"
    using rd [of 1] rd [of "mk_used n - 1"] n(2,4) bl(2) by (simp_all add: disk_of_def)
  have e: "unat (ei_block ?r) = mk_used n - 1"
    using b n(3) f by (simp add: mkfs_root_def mkfs_sb_def unat_add_u32 mk_used_def)
  have m: "unat (metadata_end (mkfs_info sz)) = mk_used n - 1"
    using b n(3) f by (simp add: metadata_end_def unat_add_u32 mk_used_def)
  have r: "i_mode ?r = 0x41FD" "i_size ?r = of_nat LOLELFFS_BLOCK_SIZE" "i_blocks ?r = 1" "i_nlink ?r = 2" "xattr_block ?r = 0"
    by (simp_all add: mkfs_root_def zero_inode_def)
  have mode: "(0x41FD :: u32) AND ucast S_IFMT = ucast S_IFDIR" "(0x41FD :: u32) AND S_IRUSR \<noteq> 0" "(0x41FD :: u32) AND S_IXUSR \<noteq> 0"
    by code_simp+
  have "\<not> ei_block ?r < metadata_end (mkfs_info sz)" "\<not> nr_blocks (mkfs_info sz) \<le> ei_block ?r"
    using n(4) by (simp_all add: word_less_nat_alt word_le_nat_alt e m f)
  then show "check_root_inode (mkfs_info sz) (disk_of t) = (0, 0)"
    unfolding check_root_inode_def d option.case Let_def i r by (simp add: mode)
  show "check_root_extent_block (mkfs_info sz) (disk_of t) = (0, 0)"
    unfolding check_root_extent_block_def d option.case i e by (simp add: dec_zero_ei Let_def zero_ei_def)
qed

lemma fsck_mkfs:
  assumes main: "mkfs_main e im = (Some 0, im')" and sz: "image_size e = Some sz"
    and n: "n = sz div LOLELFFS_BLOCK_SIZE" "n + 56 < 2 ^ 32" and im: "\<forall>k. length (iblocks im k) = LOLELFFS_BLOCK_SIZE"
    and t: "blocks t = iblocks im'" "\<And>k. k < n \<Longrightarrow> readable t k"
  shows "fsck_main True (Some (disk_of t)) = (0, 0, 0)" "wf_dev t" "info (dec_super (blocks t 0)) = mkfs_info sz" "100 \<le> n"
proof -
  obtain ls where h: "100 \<le> n" and ls: "used_lines (used_word (mkfs_sb sz)) [] = Some ls"
    and bl: "\<And>k. blocks t k = (if k < mk_used n then mkfs_block (mkfs_sb sz) n ls k else iblocks im k)"
    using mkfs_image [OF main sz n] t(1) by auto
  note n' = n(1) h n(2)
  show "100 \<le> n" by (rule h)
  show wf: "wf_dev t" using length_mkfs_block [OF ls wf_mkfs_sb] im by (simp add: wf_dev_def bl)
  have ld: "loaded_sbi t 0 = mkfs_sbi sz n" "info (dec_super (blocks t 0)) = mkfs_info sz" using mkfs_loaded [OF n' ls, of t] bl by simp_all
  then show "info (dec_super (blocks t 0)) = mkfs_info sz" by simp
  note c = mkfs_superblock_clean [OF n'] and b = mk_bounds [OF h] and f = mkfs_info_nat [OF n'] and fr = mkfs_sbi_free [OF n']
  have rd': "readable t k" if "k < unat (nr_blocks (mkfs_info sz))" for k using that t(2) f(1) by simp
  note inv = check_bitmaps_inv [OF ld(2) [symmetric] c(4,6,1-3) rd' wf]
  have "mk_used n < n" using mk_used_room [OF h] by simp
  moreover have "blocks t 1 = first_istore (mkfs_sb sz)" "blocks t (mk_used n - 1) = zero_block"
    using bl [of 1] bl [of "mk_used n - 1"] b by (simp_all add: mk_used_def mkfs_block_def)
  ultimately have "check_root_inode (mkfs_info sz) (disk_of t) = (0, 0)" "check_root_extent_block (mkfs_info sz) (disk_of t) = (0, 0)"
    using mkfs_root_clean [OF n' _ t(2)] by simp_all
  moreover have "check_superblock (disk_of t) = (Some (mkfs_info sz), 0, 0)"
    unfolding check_superblock_clean ld(2) using c t(2) [of 0] h mkfs_settings f(8) by simp
  ultimately show "fsck_main True (Some (disk_of t)) = (0, 0, 0)" unfolding fsck_clean using inv fr(3,4) ld(1) by auto
qed

text \<open>
  C27. The checker accepts what mkfs makes: after a successful run of mkfs, fsck reports neither an
  error nor a warning on the image and exits with status 0.
\<close>

theorem fsck_accepts_mkfs:
  assumes main: "mkfs_main e im = (Some 0, im')" and sz: "image_size e = Some sz"
    and n: "n = sz div LOLELFFS_BLOCK_SIZE" "n + 56 < 2 ^ 32" and im: "\<forall>k. length (iblocks im k) = LOLELFFS_BLOCK_SIZE"
  shows "fsck_main True (Some (\<lambda>k. if k < n then Some (iblocks im' k) else None)) = (0, 0, 0)"
proof -
  let ?t = "tiny_fs\<lparr>blocks := iblocks im', readable := (\<lambda>k. k < n)\<rparr>"
  have "(\<lambda>k. if k < n then Some (iblocks im' k) else None) = disk_of ?t" by (auto simp: disk_of_def)
  with fsck_mkfs(1) [OF assms, of ?t] show ?thesis by simp
qed

theorem fsck_accepts_mkfs_witness:
  "fsck_main True (Some (\<lambda>k. if k < 256 then Some (iblocks (snd (mkfs_main (demo_env 1048576) demo_image)) k) else None)) = (0, 0, 0)"
proof (rule fsck_accepts_mkfs [OF fresh_main demo_image_size(1)])
  show "256 = 1048576 div LOLELFFS_BLOCK_SIZE" "(256::nat) + 56 < 2 ^ 32" by (simp_all add: size_defs)
  show "\<forall>k. length (iblocks demo_image k) = LOLELFFS_BLOCK_SIZE" by (simp add: demo_image_def)
qed

section \<open>A clean device can be mounted\<close>


definition checked_fs :: fs where
  "checked_fs = tiny_fs\<lparr>blocks := iblocks (snd (mkfs_main (demo_env 1048576) demo_image)), readable := (\<lambda>k. k < 256), icache := (\<lambda>_. None)\<rparr>"


end
