(* ===== verification/Xattr.thy ===== *)
theory Xattr
  imports Vfs
begin

text \<open>
  Extended attributes, \<^verbatim>\<open>src/xattr.c\<close>: the attribute index block and the release of an
  inode's attribute blocks.
\<close>

section \<open>The attribute index block\<close>

record lolelffs_xattr_ei_block =
  total_size :: u32
  xcount :: u32
  xextents :: "lolelffs_extent list"
  xei_tail :: bytes

definition wf_xei :: "lolelffs_xattr_ei_block \<Rightarrow> bool" where
  "wf_xei x \<longleftrightarrow> length (xextents x) = LOLELFFS_MAX_EXTENTS \<and> length (xei_tail x) = 8"

definition enc_xei :: "lolelffs_xattr_ei_block \<Rightarrow> bytes" where
  "enc_xei x = enc32 (total_size x) @ enc32 (xcount x) @ enc_array enc_extent (xextents x) @ xei_tail x"

definition dec_xei :: "bytes \<Rightarrow> lolelffs_xattr_ei_block" where
  "dec_xei bs = \<lparr>total_size = get32 0 bs, xcount = get32 4 bs,
     xextents = dec_array sizeof_extent dec_extent LOLELFFS_MAX_EXTENTS (bytes_at 8 4080 bs),
     xei_tail = bytes_at 4088 8 bs\<rparr>"

interpretation xec: codec enc_xei dec_xei wf_xei LOLELFFS_BLOCK_SIZE
proof
  fix x :: lolelffs_xattr_ei_block
  assume wf: "wf_xei x"
  show "length (enc_xei x) = LOLELFFS_BLOCK_SIZE"
    using wf by (simp add: enc_xei_def wf_xei_def length_enc_extents const_values)
  show "dec_xei (enc_xei x) = x"
    using wf
    by (cases x)
      (simp add: enc_xei_def dec_xei_def wf_xei_def length_enc_extents const_values codec_simps
        dec_enc_extents [unfolded sizeof_extent_def])
next
  fix bs :: bytes
  assume len: "length bs = LOLELFFS_BLOCK_SIZE"
  have arr: "enc_array enc_extent (dec_array sizeof_extent dec_extent LOLELFFS_MAX_EXTENTS
      (bytes_at 8 4080 bs)) = bytes_at 8 4080 bs"
    by (rule xt.enc_dec_array) (use len in \<open>simp add: const_values\<close>)
  show "enc_xei (dec_xei bs) = bs"
    using len unfolding enc_xei_def dec_xei_def lolelffs_xattr_ei_block.simps arr
    by (simp add: const_values codec_simps)
  show "wf_xei (dec_xei bs)"
    using len by (simp add: wf_xei_def dec_xei_def const_values)
qed

definition xei_at :: "fs \<Rightarrow> nat \<Rightarrow> lolelffs_xattr_ei_block" where
  "xei_at s k = dec_xei (blocks s k)"

definition put_xei :: "fs \<Rightarrow> nat \<Rightarrow> lolelffs_xattr_ei_block \<Rightarrow> fs" where
  "put_xei s k x = store s k (enc_xei x)"

section \<open>Releasing the attribute blocks\<close>

text \<open>Returning every extent of a list to the allocator, up to the first unused one.\<close>

fun put_extents :: "sb_info \<Rightarrow> lolelffs_extent list \<Rightarrow> sb_info" where
  "put_extents b [] = b"
| "put_extents b (e # es) = (if ee_start e = 0 then b else put_extents (put_blocks b (ee_start e) (ee_len e)) es)"

definition lolelffs_xattr_free_blocks :: "fs \<Rightarrow> u32 \<Rightarrow> fs" where
  "lolelffs_xattr_free_blocks s ino =
     (let i = inode_of s ino; x = ci_xattr_block i
      in if x = 0 then s
         else if \<not> readable s (sector s x) then s
         else put_vinode
                (s\<lparr>sbi := put_blocks (put_extents (sbi s) (xextents (xei_at s (sector s x)))) x 1\<rparr>)
                ino (i\<lparr>ci_xattr_block := 0\<rparr>))"

end
