(* ===== verification/Namei.thy ===== *)
theory Namei
  imports Super Xattr
begin

text \<open>
  The inode operations of \<^verbatim>\<open>src/inode.c\<close>: lookup, creation, removal, renaming and linking.
  A dentry is a name and, where it has one, the number of its inode; \<open>d_add\<close> and
  \<open>d_instantiate\<close> are the returned inode number. A directory's index block and its data blocks
  are distinct blocks of the device; the loops over a directory read its extents at the start.

  The record \<open>kernel\<close> holds what the code calls in the VFS: \<open>init_owner\<close> is
  \<open>inode_init_owner\<close>, \<open>evicts i\<close> says whether dropping the last reference to the inode \<open>i\<close>
  (\<open>iput\<close>) takes it out of the cache.
\<close>

record kernel =
  init_owner :: owner
  evicts :: "vinode \<Rightarrow> bool"

definition iput :: "kernel \<Rightarrow> fs \<Rightarrow> u32 \<Rightarrow> fs" where
  "iput ker s ino = (if evicts ker (inode_of s ino) then s\<lparr>icache := (icache s)(ino := None)\<rparr> else s)"

definition upd_inode :: "fs \<Rightarrow> u32 \<Rightarrow> (vinode \<Rightarrow> vinode) \<Rightarrow> fs" where
  "upd_inode s ino f = put_vinode s ino (f (inode_of s ino))"

definition mark_inode_dirty :: "fs \<Rightarrow> u32 \<Rightarrow> fs" where
  "mark_inode_dirty s ino = upd_inode s ino (\<lambda>i. i\<lparr>vi_dirty := True\<rparr>)"

definition touch :: "fs \<Rightarrow> u32 \<Rightarrow> fs" where
  "touch s ino = upd_inode s ino (\<lambda>i. i\<lparr>vi_mtime := now s, vi_atime := now s, vi_ctime := now s\<rparr>)"

definition inc_nlink :: "fs \<Rightarrow> u32 \<Rightarrow> fs" where
  "inc_nlink s ino = upd_inode s ino (\<lambda>i. i\<lparr>vi_nlink := vi_nlink i + 1\<rparr>)"

definition drop_nlink :: "fs \<Rightarrow> u32 \<Rightarrow> fs" where
  "drop_nlink s ino = upd_inode s ino (\<lambda>i. i\<lparr>vi_nlink := vi_nlink i - 1\<rparr>)"

definition set_sbi :: "fs \<Rightarrow> sb_info \<Rightarrow> fs" where
  "set_sbi s b = s\<lparr>sbi := b\<rparr>"

section \<open>Looking up a name\<close>

text \<open>The block numbers of a directory or file, in the order the loops visit them.\<close>

definition extent_blocks :: "lolelffs_extent \<Rightarrow> u32 list" where
  "extent_blocks e = map (\<lambda>bi. ee_start e + of_nat bi) [0..<unat (ee_len e)]"

definition live_extents :: "lolelffs_file_ei_block \<Rightarrow> lolelffs_extent list" where
  "live_extents eb = takeWhile (\<lambda>e. ee_start e \<noteq> 0) (extents eb)"

datatype scan = Found u32 | Stop | Continue

fun scan_files :: "lolelffs_file list \<Rightarrow> bytes \<Rightarrow> scan" where
  "scan_files [] nm = Continue"
| "scan_files (f # fs) nm =
     (if inode f = 0 then Stop
      else if strncmp_eq (filename f) nm LOLELFFS_FILENAME_LEN then Found (inode f)
      else scan_files fs nm)"

fun lookup_blocks :: "fs \<Rightarrow> u32 list \<Rightarrow> bytes \<Rightarrow> errno + u32 option" where
  "lookup_blocks s [] nm = Inr None"
| "lookup_blocks s (b # bs) nm =
     (if \<not> readable s (sector s b) then Inl EIO
      else (case scan_files (files (dir_at s (sector s b))) nm of
              Stop \<Rightarrow> Inr None
            | Found ino \<Rightarrow> Inr (Some ino)
            | Continue \<Rightarrow> lookup_blocks s bs nm))"

definition lolelffs_lookup :: "fs \<Rightarrow> u32 \<Rightarrow> bytes \<Rightarrow> (errno + u32 option) \<times> fs" where
  "lolelffs_lookup s dir nm =
     (let k = sector s (ci_ei_block (inode_of s dir));
          finish = (\<lambda>s. mark_inode_dirty (upd_inode s dir (\<lambda>i. i\<lparr>vi_atime := now s\<rparr>)) dir)
      in if LOLELFFS_FILENAME_LEN < length nm then (Inl ENAMETOOLONG, s)
         else if \<not> readable s k then (Inl EIO, s)
         else
           (case lookup_blocks s (concat (map extent_blocks (live_extents (ei_at s k)))) nm of
              Inl e \<Rightarrow> (Inl e, s)
            | Inr None \<Rightarrow> (Inr None, finish s)
            | Inr (Some ino) \<Rightarrow>
                (case lolelffs_iget s ino of
                   (Inl e, s) \<Rightarrow> (Inl e, s)
                 | (Inr ino, s) \<Rightarrow> (Inr (Some ino), finish s))))"

section \<open>Creating\<close>

text \<open>The fields \<open>lolelffs_new_inode\<close> sets, for a symbolic link and for a directory or regular file.\<close>

definition new_symlink_inode :: "kernel \<Rightarrow> fs \<Rightarrow> u32 \<Rightarrow> u16 \<Rightarrow> vinode \<Rightarrow> vinode" where
  "new_symlink_inode ker s dir mode i =
     (init_owner ker i (Some (inode_of s dir)) mode)
       \<lparr>vi_nlink := 1, vi_ctime := now s, vi_atime := now s, vi_mtime := now s,
        vi_op := Symlink_ops, ci_xattr_block := 0\<rparr>"

definition new_block_inode :: "kernel \<Rightarrow> fs \<Rightarrow> u32 \<Rightarrow> u16 \<Rightarrow> u32 \<Rightarrow> vinode \<Rightarrow> vinode" where
  "new_block_inode ker s dir mode bno i =
     (let i = (init_owner ker i (Some (inode_of s dir)) mode)\<lparr>vi_blocks := 1, ci_xattr_block := 0\<rparr>;
          i = (if S_ISDIR mode then
                 i\<lparr>ci_ei_block := bno, vi_size := of_nat LOLELFFS_BLOCK_SIZE, vi_fop := Dir_fops, vi_nlink := 2\<rparr>
               else if S_ISREG mode then
                 i\<lparr>ci_ei_block := bno, vi_size := 0, vi_fop := File_fops, vi_nlink := 1\<rparr>
               else i)
      in i\<lparr>vi_ctime := now s, vi_atime := now s, vi_mtime := now s\<rparr>)"

definition lolelffs_new_inode :: "kernel \<Rightarrow> fs \<Rightarrow> u32 \<Rightarrow> u16 \<Rightarrow> (errno + u32) \<times> fs" where
  "lolelffs_new_inode ker s dir mode =
     (if \<not> S_ISDIR mode \<and> \<not> S_ISREG mode \<and> \<not> S_ISLNK mode then (Inl EINVAL, s)
      else if nr_free_inodes (sbi s) = 0 \<or> nr_free_blocks (sbi s) = 0 then (Inl ENOSPC, s)
      else
        (let (ino, b) = get_free_inode (sbi s); s = set_sbi s b
         in if ino = 0 then (Inl ENOSPC, s)
            else
              (case lolelffs_iget s ino of
                 (Inl e, s) \<Rightarrow> (Inl e, set_sbi s (put_inode (sbi s) ino))
               | (Inr _, s) \<Rightarrow>
                   if S_ISLNK mode then (Inr ino, upd_inode s ino (new_symlink_inode ker s dir mode))
                   else
                     (let (bno, b) = get_free_blocks (sbi s) 1; s = set_sbi s b
                      in if bno = 0 then
                           (let s = iput ker s ino in (Inl ENOSPC, set_sbi s (put_inode (sbi s) ino)))
                         else (Inr ino, upd_inode s ino (new_block_inode ker s dir mode bno))))))"

text \<open>
  The tail that \<open>lolelffs_create\<close>, \<open>lolelffs_link\<close> and \<open>lolelffs_symlink\<close> share word for
  word: the position of the next entry is computed from \<open>nr_files\<close>, a new extent of eight blocks
  is allocated if the position's extent is unused, the entry is written and \<open>nr_files\<close> goes up. An
  extent allocated here is given back when its block cannot be read. \<open>kd\<close> is the sector of the
  directory's index block.
\<close>

definition new_extent :: "lolelffs_file_ei_block \<Rightarrow> nat \<Rightarrow> u32 \<Rightarrow> lolelffs_file_ei_block" where
  "new_extent eb ei bno =
     eb\<lparr>extents := (extents eb)[ei := (extents eb ! ei)\<lparr>ee_start := bno, ee_len := 8,
        ee_block := (if ei \<noteq> 0 then ee_block (extents eb ! (ei - 1)) + ee_len (extents eb ! (ei - 1)) else 0)\<rparr>]\<rparr>"

definition drop_extent :: "fs \<Rightarrow> nat \<Rightarrow> nat \<Rightarrow> fs" where
  "drop_extent s kd ei =
     (let eb = ei_at s kd; e = extents eb ! ei
      in if ee_start e \<noteq> 0
         then put_ei (set_sbi s (put_blocks (sbi s) (ee_start e) (ee_len e))) kd
                (eb\<lparr>extents := (extents eb)[ei := zero_extent]\<rparr>)
         else s)"

definition set_entry :: "fs \<Rightarrow> nat \<Rightarrow> nat \<Rightarrow> u32 \<Rightarrow> bytes \<Rightarrow> fs" where
  "set_entry s k fi ino nm =
     (let d = dir_at s k
      in put_dir s k (d\<lparr>files := (files d)[fi := (files d ! fi)
           \<lparr>inode := ino, filename := strncpy nm LOLELFFS_FILENAME_LEN\<rparr>]\<rparr>))"

definition add_entry :: "fs \<Rightarrow> nat \<Rightarrow> bytes \<Rightarrow> u32 \<Rightarrow> (errno + unit) \<times> fs" where
  "add_entry s kd nm ino =
     (let n = unat (nr_files (ei_at s kd));
          ei = n div LOLELFFS_FILES_PER_EXT;
          bi = n mod LOLELFFS_FILES_PER_EXT div LOLELFFS_FILES_PER_BLOCK;
          fi = n mod LOLELFFS_FILES_PER_BLOCK
      in if LOLELFFS_MAX_EXTENTS \<le> ei then (Inl OOPS, s)
         else
           (let alloc = (ee_start (extents (ei_at s kd) ! ei) = 0);
                (bno, b) = (if alloc then get_free_blocks (sbi s) 8 else (0, sbi s));
                s = set_sbi s b
            in if alloc \<and> bno = 0 then (Inl ENOSPC, s)
               else
                 (let s = (if alloc then put_ei s kd (new_extent (ei_at s kd) ei bno) else s);
                      k = sector s (ee_start (extents (ei_at s kd) ! ei) + of_nat bi)
                  in if \<not> readable s k then (Inl EIO, if alloc then drop_extent s kd ei else s)
                     else
                       (let s = set_entry s k fi ino nm; eb = ei_at s kd
                        in (Inr (), put_ei s kd (eb\<lparr>nr_files := nr_files eb + 1\<rparr>))))))"

text \<open>The label \<open>iput\<close> of \<open>lolelffs_create\<close>: the new inode and its index block are given back.\<close>

definition create_undo :: "kernel \<Rightarrow> fs \<Rightarrow> u32 \<Rightarrow> fs" where
  "create_undo ker s ino =
     iput ker (set_sbi s (put_inode (put_blocks (sbi s) (ci_ei_block (inode_of s ino)) 1) ino)) ino"

definition create_commit :: "fs \<Rightarrow> u32 \<Rightarrow> u32 \<Rightarrow> u16 \<Rightarrow> fs" where
  "create_commit s dir ino mode =
     (let s = snd (lolelffs_write_inode (mark_inode_dirty s ino) ino);
          s = touch s dir;
          s = (if S_ISDIR mode then inc_nlink s dir else s);
          s = snd (lolelffs_write_inode (mark_inode_dirty s dir) dir)
      in snd (lolelffs_sync_fs s))"

definition lolelffs_create :: "kernel \<Rightarrow> fs \<Rightarrow> u32 \<Rightarrow> bytes \<Rightarrow> u16 \<Rightarrow> (errno + u32) \<times> fs" where
  "lolelffs_create ker s dir nm mode =
     (let kd = sector s (ci_ei_block (inode_of s dir))
      in if LOLELFFS_FILENAME_LEN < length nm then (Inl ENAMETOOLONG, s)
         else if \<not> readable s kd then (Inl EIO, s)
         else if unat (nr_files (ei_at s kd)) = LOLELFFS_MAX_SUBFILES then (Inl EMLINK, s)
         else
           (case lolelffs_new_inode ker s dir mode of
              (Inl e, s) \<Rightarrow> (Inl e, s)
            | (Inr ino, s) \<Rightarrow>
                (let k2 = sector s (ci_ei_block (inode_of s ino))
                 in if \<not> readable s k2 then (Inl EIO, create_undo ker s ino)
                    else
                      (case add_entry (store s k2 zero_block) kd nm ino of
                         (Inl e, s) \<Rightarrow> (Inl e, create_undo ker s ino)
                       | (Inr _, s) \<Rightarrow>
                           (Inr ino, create_commit s dir ino mode)))))"

definition lolelffs_mkdir :: "kernel \<Rightarrow> fs \<Rightarrow> u32 \<Rightarrow> bytes \<Rightarrow> u16 \<Rightarrow> (errno + u32) \<times> fs" where
  "lolelffs_mkdir ker s dir nm mode = lolelffs_create ker s dir nm (mode OR S_IFDIR)"

section \<open>Removing\<close>

text \<open>
  Removing entry \<open>fi\<close> of a block: the entries behind it move down, the last becomes empty.
  \<open>pull\<close> moves the first entry of the block at \<open>k\<close> into the last position of the block at
  \<open>kp\<close>, which precedes it.
\<close>

definition remove_at :: "nat \<Rightarrow> lolelffs_file list \<Rightarrow> lolelffs_file list" where
  "remove_at fi fl = take fi fl @ drop (Suc fi) fl @ [zero_file]"

definition find_ino :: "u32 \<Rightarrow> lolelffs_file list \<Rightarrow> nat option" where
  "find_ino ino fl = find (\<lambda>i. inode (fl ! i) = ino) [0..<length fl]"

definition pull :: "fs \<Rightarrow> nat \<Rightarrow> nat \<Rightarrow> fs" where
  "pull s kp k =
     (let p = dir_at s kp;
          s = put_dir s kp (p\<lparr>files := (files p)[LOLELFFS_FILES_PER_BLOCK - 1 := files (dir_at s k) ! 0]\<rparr>);
          d = dir_at s k
      in put_dir s k (d\<lparr>files := remove_at 0 (files d)\<rparr>))"

text \<open>
  The inner loop, over the blocks of one extent; it ends at a block whose first entry is empty.
  \<open>prev\<close> is the sector of \<open>bh_prev\<close>, set once the entry has been found.
\<close>

fun remove_in_extent :: "u32 \<Rightarrow> u32 list \<Rightarrow> nat option \<Rightarrow> fs \<Rightarrow> (errno + nat option) \<times> fs" where
  "remove_in_extent ino [] prev s = (Inr prev, s)"
| "remove_in_extent ino (b # bs) prev s =
     (let k = sector s b
      in if \<not> readable s k then (Inl EIO, s)
         else if inode (files (dir_at s k) ! 0) = 0 then (Inr prev, s)
         else
           (case prev of
              Some kp \<Rightarrow> remove_in_extent ino bs (Some k) (pull s kp k)
            | None \<Rightarrow>
                (case find_ino ino (files (dir_at s k)) of
                   None \<Rightarrow> remove_in_extent ino bs None s
                 | Some fi \<Rightarrow>
                     (let d = dir_at s k
                      in remove_in_extent ino bs (Some k)
                           (put_dir s k (d\<lparr>files := remove_at fi (files d)\<rparr>))))))"

fun remove_in_extents :: "u32 \<Rightarrow> lolelffs_extent list \<Rightarrow> nat option \<Rightarrow> fs \<Rightarrow> (errno + nat option) \<times> fs" where
  "remove_in_extents ino [] prev s = (Inr prev, s)"
| "remove_in_extents ino (e # es) prev s =
     (if ee_start e = 0 then (Inr prev, s)
      else (case remove_in_extent ino (extent_blocks e) prev s of
              (Inl err, s) \<Rightarrow> (Inl err, s)
            | (Inr prev, s) \<Rightarrow> remove_in_extents ino es prev s))"

definition lolelffs_remove_from_dir :: "fs \<Rightarrow> u32 \<Rightarrow> u32 \<Rightarrow> (errno + unit) \<times> fs" where
  "lolelffs_remove_from_dir s dir ino =
     (let kd = sector s (ci_ei_block (inode_of s dir))
      in if \<not> readable s kd then (Inl EIO, s)
         else
           (case remove_in_extents ino (extents (ei_at s kd)) None s of
              (Inl e, s) \<Rightarrow> (Inl e, s)
            | (Inr None, s) \<Rightarrow> (Inr (), s)
            | (Inr (Some _), s) \<Rightarrow>
                (let eb = ei_at s kd in (Inr (), put_ei s kd (eb\<lparr>nr_files := nr_files eb - 1\<rparr>)))))"

text \<open>The loops of \<open>lolelffs_unlink\<close> that return a file's extents and scrub their blocks.\<close>

fun scrub_blocks :: "u32 list \<Rightarrow> fs \<Rightarrow> fs" where
  "scrub_blocks [] s = s"
| "scrub_blocks (b # bs) s =
     scrub_blocks bs (if readable s (sector s b) then store s (sector s b) zero_block else s)"

fun free_extents :: "lolelffs_extent list \<Rightarrow> fs \<Rightarrow> fs" where
  "free_extents [] s = s"
| "free_extents (e # es) s =
     (if ee_start e = 0 then s
      else free_extents es
             (scrub_blocks (extent_blocks e) (set_sbi s (put_blocks (sbi s) (ee_start e) (ee_len e)))))"

definition clean_inode :: "fs \<Rightarrow> u32 \<Rightarrow> u32 \<Rightarrow> fs" where
  "clean_inode s ino bno =
     (let s = lolelffs_xattr_free_blocks s ino;
          s = upd_inode s ino (\<lambda>i. i\<lparr>vi_blocks := 0, ci_ei_block := 0, ci_xattr_block := 0, vi_size := 0,
                vi_uid := 0, vi_gid := 0, vi_mode := 0, vi_ctime := 0, vi_mtime := 0, vi_atime := 0\<rparr>);
          s = mark_inode_dirty (drop_nlink s ino) ino
      in set_sbi s (put_inode (put_blocks (sbi s) bno 1) ino))"

definition lolelffs_unlink :: "fs \<Rightarrow> u32 \<Rightarrow> u32 \<Rightarrow> (errno + unit) \<times> fs" where
  "lolelffs_unlink s dir ino =
     (case lolelffs_remove_from_dir s dir ino of
        (Inl e, s) \<Rightarrow> (Inl e, s)
      | (Inr _, s) \<Rightarrow>
          if S_ISLNK (vi_mode (inode_of s ino)) then (Inr (), clean_inode s ino 0)
          else
            (let isdir = S_ISDIR (vi_mode (inode_of s ino));
                 s = touch s dir;
                 s = (if isdir then drop_nlink (drop_nlink s dir) ino else s);
                 s = mark_inode_dirty s dir
             in if 1 < vi_nlink (inode_of s ino) then (Inr (), mark_inode_dirty (drop_nlink s ino) ino)
                else
                  (let bno = ci_ei_block (inode_of s ino); k = sector s bno
                   in if \<not> readable s k then (Inr (), clean_inode s ino bno)
                      else
                        (let s = (if isdir then s else free_extents (extents (ei_at s k)) s)
                         in (Inr (), clean_inode (store s k zero_block) ino bno)))))"

definition lolelffs_rmdir :: "fs \<Rightarrow> u32 \<Rightarrow> u32 \<Rightarrow> (errno + unit) \<times> fs" where
  "lolelffs_rmdir s dir ino =
     (let k = sector s (ci_ei_block (inode_of s ino))
      in if 2 < vi_nlink (inode_of s ino) then (Inl ENOTEMPTY, s)
         else if \<not> readable s k then (Inl EIO, s)
         else if nr_files (ei_at s k) \<noteq> 0 then (Inl ENOTEMPTY, s)
         else lolelffs_unlink s dir ino)"

section \<open>Renaming\<close>

text \<open>
  The search through the new directory. \<open>Same k fi\<close>: the old name was found in entry \<open>fi\<close> of
  the block at sector \<open>k\<close> of the same directory; \<open>Exists\<close>: the new name is taken; \<open>Slot k fi\<close>:
  the first empty entry; \<open>Full n\<close>: there is none, and \<open>n\<close> extents are in use.
\<close>

datatype target = Same nat nat | Exists | Slot nat nat | Full nat | Unreadable

fun rename_scan :: "bool \<Rightarrow> bytes \<Rightarrow> bytes \<Rightarrow> nat \<Rightarrow> nat \<Rightarrow> lolelffs_file list \<Rightarrow> target option" where
  "rename_scan same old new k fi [] = None"
| "rename_scan same old new k fi (f # fl) =
     (if same \<and> strncmp_eq (filename f) old LOLELFFS_FILENAME_LEN then Some (Same k fi)
      else if strncmp_eq (filename f) new LOLELFFS_FILENAME_LEN then Some Exists
      else if inode f = 0 then Some (Slot k fi)
      else rename_scan same old new k (Suc fi) fl)"

fun rename_blocks :: "fs \<Rightarrow> bool \<Rightarrow> bytes \<Rightarrow> bytes \<Rightarrow> u32 list \<Rightarrow> target option" where
  "rename_blocks s same old new [] = None"
| "rename_blocks s same old new (b # bs) =
     (let k = sector s b
      in if \<not> readable s k then Some Unreadable
         else (case rename_scan same old new k 0 (files (dir_at s k)) of
                 Some t \<Rightarrow> Some t
               | None \<Rightarrow> rename_blocks s same old new bs))"

fun rename_search :: "fs \<Rightarrow> bool \<Rightarrow> bytes \<Rightarrow> bytes \<Rightarrow> nat \<Rightarrow> lolelffs_extent list \<Rightarrow> target" where
  "rename_search s same old new n [] = Full n"
| "rename_search s same old new n (e # es) =
     (if ee_start e = 0 then Full n
      else (case rename_blocks s same old new (extent_blocks e) of
              Some t \<Rightarrow> t
            | None \<Rightarrow> rename_search s same old new (Suc n) es))"

text \<open>The insertion into the new directory and the removal from the old one.\<close>

definition rename_insert :: "fs \<Rightarrow> u32 \<Rightarrow> u32 \<Rightarrow> bytes \<Rightarrow> u32 \<Rightarrow> nat \<Rightarrow> nat \<Rightarrow> (errno + unit) \<times> fs" where
  "rename_insert s old_dir new_dir new src k fi =
     (let s = set_entry s k fi src new;
          isdir = S_ISDIR (vi_mode (inode_of s src));
          s = touch s new_dir;
          s = (if isdir then inc_nlink s new_dir else s);
          s = mark_inode_dirty s new_dir
      in case lolelffs_remove_from_dir s old_dir src of
           (Inl e, s) \<Rightarrow> (Inl e, s)
         | (Inr _, s) \<Rightarrow>
             (let s = touch s old_dir;
                  s = (if isdir then drop_nlink s old_dir else s)
              in (Inr (), mark_inode_dirty s old_dir)))"

definition RENAME_EXCHANGE :: u32 where "RENAME_EXCHANGE = 2"
definition RENAME_WHITEOUT :: u32 where "RENAME_WHITEOUT = 4"

definition lolelffs_rename ::
    "fs \<Rightarrow> u32 \<Rightarrow> bytes \<Rightarrow> u32 \<Rightarrow> bytes \<Rightarrow> u32 \<Rightarrow> u32 \<Rightarrow> (errno + unit) \<times> fs" where
  "lolelffs_rename s old_dir old new_dir new src flags =
     (let kd = sector s (ci_ei_block (inode_of s new_dir))
      in if flags AND (RENAME_EXCHANGE OR RENAME_WHITEOUT) \<noteq> 0 then (Inl EINVAL, s)
         else if LOLELFFS_FILENAME_LEN < length new then (Inl ENAMETOOLONG, s)
         else if \<not> readable s kd then (Inl EIO, s)
         else
           (case rename_search s (new_dir = old_dir) old new 0 (extents (ei_at s kd)) of
              Unreadable \<Rightarrow> (Inl EIO, s)
            | Exists \<Rightarrow> (Inl EEXIST, s)
            | Same k fi \<Rightarrow>
                (let d = dir_at s k
                 in (Inr (), put_dir s k (d\<lparr>files := (files d)[fi := (files d ! fi)
                       \<lparr>filename := strncpy new LOLELFFS_FILENAME_LEN\<rparr>]\<rparr>)))
            | Slot k fi \<Rightarrow> rename_insert s old_dir new_dir new src k fi
            | Full ei \<Rightarrow>
                if unat (nr_files (ei_at s kd)) = LOLELFFS_FILES_PER_EXT then (Inl EMLINK, s)
                else
                  (let (bno, b) = get_free_blocks (sbi s) 8; s = set_sbi s b
                   in if bno = 0 then (Inl ENOSPC, s)
                      else if LOLELFFS_MAX_EXTENTS \<le> ei then (Inl OOPS, s)
                      else
                        (let s = put_ei s kd (new_extent (ei_at s kd) ei bno);
                             k = sector s (ee_start (extents (ei_at s kd) ! ei))
                         in if \<not> readable s k then (Inl EIO, drop_extent s kd ei)
                            else rename_insert s old_dir new_dir new src k 0))))"

section \<open>Linking\<close>

definition lolelffs_link :: "fs \<Rightarrow> u32 \<Rightarrow> u32 \<Rightarrow> bytes \<Rightarrow> (errno + unit) \<times> fs" where
  "lolelffs_link s ino dir nm =
     (let kd = sector s (ci_ei_block (inode_of s dir))
      in if \<not> readable s kd then (Inl EIO, s)
         else if unat (nr_files (ei_at s kd)) = LOLELFFS_MAX_SUBFILES then (Inl EMLINK, s)
         else
           (case add_entry s kd nm ino of
              (Inl e, s) \<Rightarrow> (Inl e, s)
            | (Inr _, s) \<Rightarrow> (Inr (), mark_inode_dirty (inc_nlink s ino) ino)))"

text \<open>
  \<open>lolelffs_symlink\<close> takes the new inode first and does not look whether that failed: the error
  pointer is dereferenced when the entry is written.
\<close>

definition lolelffs_symlink :: "kernel \<Rightarrow> fs \<Rightarrow> u32 \<Rightarrow> bytes \<Rightarrow> bytes \<Rightarrow> (errno + u32) \<times> fs" where
  "lolelffs_symlink ker s dir nm symname =
     (let l = length symname + 1;
          (r, s) = lolelffs_new_inode ker s dir (S_IFLNK OR S_IRWXUGO);
          kd = sector s (ci_ei_block (inode_of s dir))
      in if 28 < l then (Inl ENAMETOOLONG, s)
         else if \<not> readable s kd then (Inl EIO, s)
         else if unat (nr_files (ei_at s kd)) = LOLELFFS_MAX_SUBFILES then (Inl EMLINK, s)
         else
           (case r of
              Inl _ \<Rightarrow>
                (case add_entry s kd nm 0 of
                   (Inl e, s) \<Rightarrow> (Inl e, s)
                 | (Inr _, s) \<Rightarrow> (Inl OOPS, s))
            | Inr ino \<Rightarrow>
                (case add_entry s kd nm ino of
                   (Inl e, s) \<Rightarrow> (Inl e, s)
                 | (Inr _, s) \<Rightarrow>
                     (Inr ino, mark_inode_dirty (upd_inode s ino (\<lambda>i.
                        i\<lparr>vi_link := True, ci_i_data := symname @ [0] @ drop l (ci_i_data i),
                          vi_size := of_nat (length symname)\<rparr>)) ino))))"

definition lolelffs_get_link :: "fs \<Rightarrow> u32 \<Rightarrow> bytes option" where
  "lolelffs_get_link s ino =
     (let i = inode_of s ino in if vi_link i then Some (cstr (ci_i_data i)) else None)"

end
