(* ===== verification/Namei_Alloc.thy ===== *)
theory Namei_Alloc
  imports Namei
begin

text \<open>
  What the inode operations take from the allocator and give back: the effect of creating,
  unlinking and failing on the free sets and counters, and which blocks an operation changes.
\<close>

section \<open>What the small steps leave alone\<close>

lemma set_sbi_frame [simp]:
  "blocks (set_sbi s b) = blocks s" "readable (set_sbi s b) = readable s" "sbi (set_sbi s b) = b"
  "icache (set_sbi s b) = icache s" "mem (set_sbi s b) = mem s" "now (set_sbi s b) = now s"
  "slab_ei (set_sbi s b) = slab_ei s" "slab_data (set_sbi s b) = slab_data s"
  by (simp_all add: set_sbi_def)

lemma upd_inode_frame [simp]:
  "blocks (upd_inode s ino f) = blocks s" "readable (upd_inode s ino f) = readable s"
  "sbi (upd_inode s ino f) = sbi s" "mem (upd_inode s ino f) = mem s" "now (upd_inode s ino f) = now s"
  "slab_ei (upd_inode s ino f) = slab_ei s" "slab_data (upd_inode s ino f) = slab_data s"
  by (simp_all add: upd_inode_def)

lemma icache_upd_inode [simp]:
  "icache (upd_inode s ino f) j = (if j = ino then Some (f (inode_of s ino)) else icache s j)"
  by (simp add: upd_inode_def)

lemma inode_of_upd [simp]:
  "inode_of (upd_inode s ino f) j = (if j = ino then f (inode_of s ino) else inode_of s j)"
  by (simp add: upd_inode_def)

lemmas inode_steps = mark_inode_dirty_def touch_def inc_nlink_def drop_nlink_def

lemma iput_frame [simp]:
  "blocks (iput ker s ino) = blocks s" "readable (iput ker s ino) = readable s" "sbi (iput ker s ino) = sbi s"
  "mem (iput ker s ino) = mem s" "now (iput ker s ino) = now s"
  by (simp_all add: iput_def)

lemma inode_of_cong: "icache s = icache t \<Longrightarrow> inode_of s = inode_of t"
  by (simp add: inode_of_def fun_eq_iff)

lemma at_cong: "blocks s = blocks t \<Longrightarrow> ei_at s = ei_at t" "blocks s = blocks t \<Longrightarrow> dir_at s = dir_at t"
  by (simp_all add: ei_at_def dir_at_def fun_eq_iff)

lemma sector_cong: "fs_offset (sbi s) = fs_offset (sbi t) \<Longrightarrow> sector s = sector t"
  by (simp add: sector_def fun_eq_iff)

lemma iget_frame:
  assumes "lolelffs_iget s ino = (r, s')"
  shows "blocks s' = blocks s \<and> readable s' = readable s \<and> sbi s' = sbi s \<and> now s' = now s
    \<and> (\<forall>j. j \<noteq> ino \<longrightarrow> icache s' j = icache s j) \<and> (\<forall>j. icache s j \<noteq> None \<longrightarrow> icache s' j = icache s j)
    \<and> (\<forall>i. r = Inr i \<longrightarrow> i = ino \<and> icache s' ino \<noteq> None)"
  using assms
  by (auto simp: lolelffs_iget_def Let_def split: if_splits option.splits prod.splits dest!: kmalloc_frame)

section \<open>The allocator's two halves do not touch each other\<close>

lemma length_first_free_bits: "get_first_free_bits bm sz len = (r, bm') \<Longrightarrow> length bm' = length bm"
  by (auto simp: get_first_free_bits_def clear_bit_def Let_def split: if_splits option.splits)

lemma get_free_inode_frame:
  "get_free_inode b = (ino, b') \<Longrightarrow> bfree_bitmap b' = bfree_bitmap b \<and> nr_blocks b' = nr_blocks b
     \<and> nr_free_blocks b' = nr_free_blocks b \<and> nr_inodes b' = nr_inodes b \<and> fs_offset b' = fs_offset b
     \<and> nr_istore_blocks b' = nr_istore_blocks b \<and> nr_ifree_blocks b' = nr_ifree_blocks b
     \<and> nr_bfree_blocks b' = nr_bfree_blocks b \<and> length (ifree_bitmap b') = length (ifree_bitmap b)"
  by (auto simp: get_free_inode_def Let_def split: prod.splits if_splits dest!: length_first_free_bits)

lemma get_free_blocks_frame:
  "get_free_blocks b len = (bno, b') \<Longrightarrow> ifree_bitmap b' = ifree_bitmap b \<and> nr_blocks b' = nr_blocks b
     \<and> nr_free_inodes b' = nr_free_inodes b \<and> nr_inodes b' = nr_inodes b \<and> fs_offset b' = fs_offset b
     \<and> nr_istore_blocks b' = nr_istore_blocks b \<and> nr_ifree_blocks b' = nr_ifree_blocks b
     \<and> nr_bfree_blocks b' = nr_bfree_blocks b \<and> length (bfree_bitmap b') = length (bfree_bitmap b)"
  by (auto simp: get_free_blocks_def Let_def split: prod.splits if_splits dest!: length_first_free_bits)

lemma put_inode_frame [simp]:
  "bfree_bitmap (put_inode b ino) = bfree_bitmap b" "nr_blocks (put_inode b ino) = nr_blocks b"
  "nr_free_blocks (put_inode b ino) = nr_free_blocks b" "nr_inodes (put_inode b ino) = nr_inodes b"
  "fs_offset (put_inode b ino) = fs_offset b" "nr_istore_blocks (put_inode b ino) = nr_istore_blocks b"
  "nr_ifree_blocks (put_inode b ino) = nr_ifree_blocks b" "nr_bfree_blocks (put_inode b ino) = nr_bfree_blocks b"
  "length (ifree_bitmap (put_inode b ino)) = length (ifree_bitmap b)"
  by (auto simp: put_inode_def put_free_bits_def split: option.splits if_splits)

lemma put_blocks_frame [simp]:
  "ifree_bitmap (put_blocks b a n) = ifree_bitmap b" "nr_free_inodes (put_blocks b a n) = nr_free_inodes b"
  "nr_inodes (put_blocks b a n) = nr_inodes b" "fs_offset (put_blocks b a n) = fs_offset b"
  "nr_istore_blocks (put_blocks b a n) = nr_istore_blocks b"
  "nr_ifree_blocks (put_blocks b a n) = nr_ifree_blocks b" "nr_bfree_blocks (put_blocks b a n) = nr_bfree_blocks b"
  "length (bfree_bitmap (put_blocks b a n)) = length (bfree_bitmap b)"
  by (auto simp: put_blocks_def put_free_bits_def split: option.splits if_splits)

text \<open>
  \<open>sbi_inv\<close>: both bitmaps agree with their counters. \<open>taken b B I b'\<close>: \<open>b'\<close> is \<open>b\<close> with the
  blocks \<open>B\<close> and the inodes \<open>I\<close>, free in \<open>b\<close>, taken.
\<close>

definition sbi_inv :: "sb_info \<Rightarrow> bool" where
  "sbi_inv b \<longleftrightarrow> blocks_inv b \<and> inodes_inv b"

definition same_geometry :: "sb_info \<Rightarrow> sb_info \<Rightarrow> bool" where
  "same_geometry b b' \<longleftrightarrow> nr_blocks b' = nr_blocks b \<and> nr_inodes b' = nr_inodes b \<and> fs_offset b' = fs_offset b
     \<and> nr_istore_blocks b' = nr_istore_blocks b \<and> nr_ifree_blocks b' = nr_ifree_blocks b
     \<and> nr_bfree_blocks b' = nr_bfree_blocks b \<and> length (ifree_bitmap b') = length (ifree_bitmap b)
     \<and> length (bfree_bitmap b') = length (bfree_bitmap b)"

definition taken :: "sb_info \<Rightarrow> nat set \<Rightarrow> nat set \<Rightarrow> sb_info \<Rightarrow> bool" where
  "taken b B I b' \<longleftrightarrow> sbi_inv b' \<and> same_geometry b b' \<and> B \<subseteq> free_blocks b \<and> I \<subseteq> free_inodes b
     \<and> free_blocks b' = free_blocks b - B \<and> free_inodes b' = free_inodes b - I"

lemma same_geometry_refl [simp]: "same_geometry b b"
  by (simp add: same_geometry_def)

lemma same_geometry_trans: "same_geometry a b \<Longrightarrow> same_geometry b c \<Longrightarrow> same_geometry a c"
  by (simp add: same_geometry_def)

lemma taken_refl: "sbi_inv b \<Longrightarrow> taken b {} {} b"
  by (simp add: taken_def)

lemma taken_trans: "taken a B I b \<Longrightarrow> taken b B' I' c \<Longrightarrow> taken a (B \<union> B') (I \<union> I') c"
  unfolding taken_def by (auto intro: same_geometry_trans)

lemma taken_counters:
  assumes "taken b B I b'" and "sbi_inv b"
  shows "unat (nr_free_blocks b') + card B = unat (nr_free_blocks b)"
    and "unat (nr_free_inodes b') + card I = unat (nr_free_inodes b)"
proof -
  have fin: "finite (free_blocks b)" "finite (free_inodes b)"
    by (simp_all add: free_blocks_def free_inodes_def)
  have "card (free_blocks b - B) = card (free_blocks b) - card B" "card B \<le> card (free_blocks b)"
    "card (free_inodes b - I) = card (free_inodes b) - card I" "card I \<le> card (free_inodes b)"
    using assms(1) fin by (auto simp: taken_def card_Diff_subset finite_subset intro!: card_mono)
  with assms show "unat (nr_free_blocks b') + card B = unat (nr_free_blocks b)"
    "unat (nr_free_inodes b') + card I = unat (nr_free_inodes b)"
    by (auto simp: taken_def sbi_inv_def blocks_inv_def inodes_inv_def alloc_inv_def
        free_blocks_def [symmetric] free_inodes_def [symmetric])
qed

lemma get_free_inode_taken:
  assumes "sbi_inv b" "get_free_inode b = (ino, b')"
  shows "if ino = 0 then b' = b else taken b {} {unat ino} b'"
proof (cases "ino = 0")
  case True
  with assms ia.get_fail [of b 1 b'] show ?thesis by (simp add: sbi_inv_def)
next
  case False
  note f = get_free_inode_frame [OF assms(2)]
  have "inodes_inv b' \<and> range_of ino 1 \<subseteq> free_inodes b \<and> free_inodes b' = free_inodes b - range_of ino 1"
    using ia.get_ok [of b 1 ino b'] assms False by (simp add: sbi_inv_def)
  moreover have "range_of ino 1 = {unat ino}" by (auto simp: range_of_def)
  moreover have "blocks_inv b'" "free_blocks b' = free_blocks b"
    using assms(1) f by (simp_all add: sbi_inv_def blocks_inv_def free_blocks_def)
  ultimately show ?thesis using False f by (simp add: taken_def sbi_inv_def same_geometry_def)
qed

lemma get_free_blocks_taken:
  assumes "sbi_inv b" "get_free_blocks b len = (bno, b')" "len \<noteq> 0"
  shows "if bno = 0 then b' = b else taken b (range_of bno len) {} b'"
proof (cases "bno = 0")
  case True
  with assms ba.get_fail [of b len b'] show ?thesis by (simp add: sbi_inv_def)
next
  case False
  note f = get_free_blocks_frame [OF assms(2)]
  have "blocks_inv b' \<and> range_of bno len \<subseteq> free_blocks b \<and> free_blocks b' = free_blocks b - range_of bno len"
    using ba.get_ok [of b len bno b'] assms False by (simp add: sbi_inv_def)
  moreover have "inodes_inv b'" "free_inodes b' = free_inodes b"
    using assms(1) f by (simp_all add: sbi_inv_def inodes_inv_def free_inodes_def)
  ultimately show ?thesis using False f by (simp add: taken_def sbi_inv_def same_geometry_def)
qed

text \<open>Returning what was taken.\<close>

lemma taken_put_inode:
  assumes t: "taken b B (insert (unat ino) I) b'" and ino: "ino \<noteq> 0" "unat ino \<notin> I" and inv: "sbi_inv b"
  shows "taken b B I (put_inode b' ino)"
proof -
  have lim: "unat ino < unat (nr_inodes b')"
    using t ino ia.free_limit [of b] inv by (auto simp: taken_def sbi_inv_def same_geometry_def)
  have "range_of ino 1 = {unat ino}" by (auto simp: range_of_def)
  with ia.put_ok [of b' 1 ino] t ino lim
  have "inodes_inv (put_inode b' ino)" "free_inodes (put_inode b' ino) = insert (unat ino) (free_inodes b')"
    by (auto simp: taken_def sbi_inv_def)
  moreover have "blocks_inv (put_inode b' ino)" "free_blocks (put_inode b' ino) = free_blocks b'"
    using t by (simp_all add: taken_def sbi_inv_def blocks_inv_def free_blocks_def)
  ultimately show ?thesis using t ino by (auto simp: taken_def sbi_inv_def same_geometry_def)
qed

lemma taken_put_blocks:
  assumes t: "taken b (range_of a len \<union> B) I b'" and a: "a \<noteq> 0" "len \<noteq> 0" "range_of a len \<inter> B = {}" and inv: "sbi_inv b"
  shows "taken b B I (put_blocks b' a len)"
proof -
  have "0 < unat len" using a(2) by (simp add: unat_gt_0)
  then have "unat a + unat len - 1 \<in> range_of a len" by (auto simp: range_of_def)
  then have "unat a + unat len - 1 \<in> free_blocks b" using t by (auto simp: taken_def)
  then have "unat a + unat len - 1 < unat (nr_blocks b')"
    using t ba.free_limit [of b] inv by (auto simp: taken_def sbi_inv_def same_geometry_def)
  then have lim: "unat a + unat len \<le> unat (nr_blocks b')" using \<open>0 < unat len\<close> by linarith
  have "range_of a len \<inter> free_blocks b' = {}" using t by (auto simp: taken_def)
  with ba.put_ok [of b' len a] t a lim
  have "blocks_inv (put_blocks b' a len)" "free_blocks (put_blocks b' a len) = free_blocks b' \<union> range_of a len"
    by (auto simp: taken_def sbi_inv_def)
  moreover have "inodes_inv (put_blocks b' a len)" "free_inodes (put_blocks b' a len) = free_inodes b'"
    using t by (simp_all add: taken_def sbi_inv_def inodes_inv_def free_inodes_def)
  ultimately show ?thesis using t a by (auto simp: taken_def sbi_inv_def same_geometry_def)
qed


section \<open>What creating takes, and gives back when it fails\<close>

lemma new_inode_taken:
  assumes inv: "sbi_inv (sbi s)" and new: "lolelffs_new_inode ker s dir mode = (r, s')"
  shows "case r of
      Inl e \<Rightarrow> taken (sbi s) {} {} (sbi s')
    | Inr ino \<Rightarrow> ino \<noteq> 0 \<and> icache s' ino \<noteq> None
        \<and> (if S_ISLNK mode then taken (sbi s) {} {unat ino} (sbi s')
           else ci_ei_block (inode_of s' ino) \<noteq> 0
             \<and> taken (sbi s) {unat (ci_ei_block (inode_of s' ino))} {unat ino} (sbi s'))"
proof -
  obtain ino b where g: "get_free_inode (sbi s) = (ino, b)" by fastforce
  note gt = get_free_inode_taken [OF inv g]
  obtain ri s1 where i: "lolelffs_iget (set_sbi s b) ino = (ri, s1)" by fastforce
  note fi = iget_frame [OF i]
  obtain bno b2 where gb: "get_free_blocks (sbi s1) 1 = (bno, b2)" by fastforce
  show ?thesis
  proof (cases "ino = 0 \<or> (\<not> S_ISDIR mode \<and> \<not> S_ISREG mode \<and> \<not> S_ISLNK mode)
      \<or> nr_free_inodes (sbi s) = 0 \<or> nr_free_blocks (sbi s) = 0")
    case True
    with new g gt show ?thesis
      using inv by (auto simp: lolelffs_new_inode_def taken_refl split: if_splits)
  next
    case False
    then have t1: "taken (sbi s) {} {unat ino} (sbi s1)" and n: "ino \<noteq> 0" and inv1: "sbi_inv (sbi s1)"
      using gt fi by (auto simp: taken_def)
    note gbt = get_free_blocks_taken [OF inv1 gb]
    have bk: "taken (sbi s) {} {} (put_inode (sbi s1) ino)"
      using taken_put_inode [OF _ n _ inv, of "{}" "{}" "sbi s1"] t1 by simp
    have new': "lolelffs_new_inode ker s dir mode =
        (case ri of
           Inl e \<Rightarrow> (Inl e, set_sbi s1 (put_inode (sbi s1) ino))
         | Inr _ \<Rightarrow>
             if S_ISLNK mode then (Inr ino, upd_inode s1 ino (new_symlink_inode ker s1 dir mode))
             else if bno = 0 then (Inl ENOSPC, set_sbi (iput ker (set_sbi s1 b2) ino) (put_inode b2 ino))
             else (Inr ino, upd_inode (set_sbi s1 b2) ino (new_block_inode ker (set_sbi s1 b2) dir mode bno)))"
      using False by (cases ri) (auto simp: lolelffs_new_inode_def g i gb Let_def)
    show ?thesis
    proof (cases "\<exists>e. ri = Inl e \<or> \<not> S_ISLNK mode \<and> bno = 0")
      case True
      with new new' bk gbt show ?thesis by (auto split: sum.splits if_splits)
    next
      case ok: False
      show ?thesis
      proof (cases "S_ISLNK mode")
        case True
        with ok new new' t1 n show ?thesis by (auto split: sum.splits)
      next
        case blk: False
        have ei: "ci_ei_block (new_block_inode ker t dir mode bno x) = bno" for t x
          using False blk by (auto simp: new_block_inode_def Let_def)
        have "taken (sbi s) {unat bno} {unat ino} b2"
          using taken_trans [OF t1] gbt ok blk by (auto simp: range_of_def)
        with ok blk new new' n ei show ?thesis by (auto split: sum.splits)
      qed
    qed
  qed
qed

lemma set_sbi_id [simp]: "set_sbi s (sbi s) = s"
  by (simp add: set_sbi_def)

lemma wf_new_extent: "wf_ei eb \<Longrightarrow> wf_ei (new_extent eb ei bno)"
  by (simp add: wf_ei_def new_extent_def)

lemma nth_new_extent:
  "wf_ei eb \<Longrightarrow> ei < LOLELFFS_MAX_EXTENTS \<Longrightarrow>
   ee_start (extents (new_extent eb ei bno) ! ei) = bno \<and> ee_len (extents (new_extent eb ei bno) ! ei) = 8
   \<and> nr_files (new_extent eb ei bno) = nr_files eb
   \<and> (\<forall>j. j \<noteq> ei \<longrightarrow> extents (new_extent eb ei bno) ! j = extents eb ! j)"
  by (simp add: wf_ei_def new_extent_def)

lemma set_entry_frame [simp]:
  "readable (set_entry s k fi ino nm) = readable s" "sbi (set_entry s k fi ino nm) = sbi s"
  "icache (set_entry s k fi ino nm) = icache s" "mem (set_entry s k fi ino nm) = mem s"
  "now (set_entry s k fi ino nm) = now s"
  by (simp_all add: set_entry_def Let_def)

lemma wf_dir_set_entry:
  "wf_dir d \<Longrightarrow> wf_dir (d\<lparr>files := (files d)[fi := (files d ! fi)\<lparr>inode := ino, filename := strncpy nm LOLELFFS_FILENAME_LEN\<rparr>]\<rparr>)"
  by (simp add: wf_dir_def list_all_update wf_file_def)

lemma wf_dev_set_entry [simp]: "wf_dev s \<Longrightarrow> wf_dev (set_entry s k fi ino nm)"
  by (simp add: set_entry_def Let_def wf_dir_set_entry dir_at_wf)

text \<open>What \<open>add_entry\<close> does, by cases: the position, whether an extent is allocated, the outcome.\<close>

definition entry_ei :: "nat \<Rightarrow> nat" where "entry_ei n = n div LOLELFFS_FILES_PER_EXT"
definition entry_bi :: "nat \<Rightarrow> nat" where "entry_bi n = n mod LOLELFFS_FILES_PER_EXT div LOLELFFS_FILES_PER_BLOCK"
definition entry_fi :: "nat \<Rightarrow> nat" where "entry_fi n = n mod LOLELFFS_FILES_PER_BLOCK"

definition write_entry :: "fs \<Rightarrow> nat \<Rightarrow> nat \<Rightarrow> nat \<Rightarrow> u32 \<Rightarrow> bytes \<Rightarrow> fs" where
  "write_entry s kd k fi ino nm =
     (let s = set_entry s k fi ino nm; eb = ei_at s kd in put_ei s kd (eb\<lparr>nr_files := nr_files eb + 1\<rparr>))"

lemma write_entry_frame [simp]:
  "readable (write_entry s kd k fi ino nm) = readable s" "sbi (write_entry s kd k fi ino nm) = sbi s"
  "icache (write_entry s kd k fi ino nm) = icache s" "mem (write_entry s kd k fi ino nm) = mem s"
  "now (write_entry s kd k fi ino nm) = now s"
  by (simp_all add: write_entry_def Let_def)

lemma wf_ei_nr [simp]: "wf_ei (eb\<lparr>nr_files := n\<rparr>) \<longleftrightarrow> wf_ei eb"
  by (simp add: wf_ei_def)

lemma wf_dev_write_entry [simp]: "wf_dev s \<Longrightarrow> wf_dev (write_entry s kd k fi ino nm)"
  by (simp add: write_entry_def Let_def ei_at_wf)

lemma add_entry_old:
  assumes "n = unat (nr_files (ei_at s kd))" "entry_ei n < LOLELFFS_MAX_EXTENTS"
    and "ee_start (extents (ei_at s kd) ! entry_ei n) \<noteq> 0"
    and "k = sector s (ee_start (extents (ei_at s kd) ! entry_ei n) + of_nat (entry_bi n))"
  shows "add_entry s kd nm ino =
    (if readable s k then (Inr (), write_entry s kd k (entry_fi n) ino nm) else (Inl EIO, s))"
  using assms
  by (simp add: add_entry_def Let_def entry_ei_def entry_bi_def entry_fi_def write_entry_def)

lemma add_entry_new:
  assumes "n = unat (nr_files (ei_at s kd))" "entry_ei n < LOLELFFS_MAX_EXTENTS"
    and "ee_start (extents (ei_at s kd) ! entry_ei n) = 0" and wf: "wf_dev s"
    and "get_free_blocks (sbi s) 8 = (bno, b)"
    and t: "t = put_ei (set_sbi s b) kd (new_extent (ei_at s kd) (entry_ei n) bno)"
    and k: "k = sector t (bno + of_nat (entry_bi n))"
  shows "add_entry s kd nm ino =
    (if bno = 0 then (Inl ENOSPC, set_sbi s b)
     else if readable s k then (Inr (), write_entry t kd k (entry_fi n) ino nm)
     else (Inl EIO, drop_extent t kd (entry_ei n)))"
proof -
  have at: "ei_at (set_sbi s b) = ei_at s" by (rule at_cong) simp
  have wfe: "wf_ei (new_extent (ei_at s kd) (entry_ei n) bno)" by (intro wf_new_extent ei_at_wf wf)
  have "ee_start (extents (ei_at t kd) ! entry_ei n) = bno"
    using nth_new_extent [OF ei_at_wf [OF wf] assms(2)] by (simp add: t ei_at_put wfe)
  with assms at show ?thesis
    by (simp add: add_entry_def Let_def entry_ei_def [symmetric] entry_bi_def [symmetric]
        entry_fi_def [symmetric] write_entry_def)
qed

lemma drop_extent_taken:
  assumes "taken b (range_of (ee_start (extents (ei_at s kd) ! ei)) (ee_len (extents (ei_at s kd) ! ei)) \<union> B) I (sbi s)"
    and "ee_start (extents (ei_at s kd) ! ei) \<noteq> 0" "ee_len (extents (ei_at s kd) ! ei) \<noteq> 0"
    and "range_of (ee_start (extents (ei_at s kd) ! ei)) (ee_len (extents (ei_at s kd) ! ei)) \<inter> B = {}" "sbi_inv b"
  shows "taken b B I (sbi (drop_extent s kd ei))"
  using taken_put_blocks [OF assms(1,2,3,4,5)] assms(2) by (simp add: drop_extent_def Let_def)

lemma drop_extent_frame [simp]:
  "readable (drop_extent s kd ei) = readable s" "icache (drop_extent s kd ei) = icache s"
  "mem (drop_extent s kd ei) = mem s" "now (drop_extent s kd ei) = now s"
  by (simp_all add: drop_extent_def Let_def)

lemma wf_dev_drop_extent [simp]: "wf_dev s \<Longrightarrow> wf_dev (drop_extent s kd ei)"
proof -
  assume wf: "wf_dev s"
  have "wf_ei ((ei_at s kd)\<lparr>extents := (extents (ei_at s kd))[ei := zero_extent]\<rparr>)"
    using ei_at_wf [OF wf, of kd] by (simp add: wf_ei_def)
  moreover have "wf_dev (set_sbi s b)" for b using wf by (rule wf_dev_blocks) simp
  ultimately show ?thesis using wf by (simp add: drop_extent_def Let_def)
qed

lemma add_entry_taken:
  assumes inv: "sbi_inv (sbi s)" and wf: "wf_dev s" and add: "add_entry s kd nm ino = (r, s')"
  shows "readable s' = readable s \<and> icache s' = icache s \<and> mem s' = mem s \<and> now s' = now s \<and> wf_dev s'
    \<and> (case r of
         Inl e \<Rightarrow> taken (sbi s) {} {} (sbi s')
       | Inr _ \<Rightarrow> taken (sbi s) {} {} (sbi s')
           \<or> (\<exists>bno. bno \<noteq> 0 \<and> taken (sbi s) (range_of bno 8) {} (sbi s')))"
proof -
  define n where "n = unat (nr_files (ei_at s kd))"
  let ?ei = "entry_ei n"
  obtain bno b where g: "get_free_blocks (sbi s) 8 = (bno, b)" by fastforce
  note gt = get_free_blocks_taken [OF inv g, simplified]
  consider (bad) "LOLELFFS_MAX_EXTENTS \<le> ?ei" | (old) "?ei < LOLELFFS_MAX_EXTENTS" "ee_start (extents (ei_at s kd) ! ?ei) \<noteq> 0"
    | (new) "?ei < LOLELFFS_MAX_EXTENTS" "ee_start (extents (ei_at s kd) ! ?ei) = 0"
    by linarith
  then show ?thesis
  proof cases
    case bad
    with add have "r = Inl OOPS" "s' = s" by (auto simp: add_entry_def n_def entry_ei_def Let_def)
    with inv wf show ?thesis by (simp add: taken_refl)
  next
    case old
    from add_entry_old [OF n_def old refl, of nm ino] add inv wf show ?thesis
      by (auto simp: taken_refl split: if_splits)
  next
    case new
    define t where "t = put_ei (set_sbi s b) kd (new_extent (ei_at s kd) ?ei bno)"
    define k where "k = sector t (bno + of_nat (entry_bi n))"
    note a = add_entry_new [OF n_def new wf g t_def k_def, of nm ino]
    have wfe: "wf_ei (new_extent (ei_at s kd) ?ei bno)" by (intro wf_new_extent ei_at_wf wf)
    have wfs: "wf_dev (set_sbi s b)" using wf by (rule wf_dev_blocks) simp
    have wft: "wf_dev t" by (simp add: t_def wfe wfs)
    have t: "sbi t = b" "readable t = readable s" "icache t = icache s" "mem t = mem s" "now t = now s"
      by (simp_all add: t_def)
    have e: "ee_start (extents (ei_at t kd) ! ?ei) = bno" "ee_len (extents (ei_at t kd) ! ?ei) = 8"
      using nth_new_extent [OF ei_at_wf [OF wf] new(1)] by (simp_all add: t_def ei_at_put wfe)
    show ?thesis
    proof (cases "bno = 0")
      case True
      with a add gt inv wfs show ?thesis by (auto simp: taken_refl)
    next
      case False
      with gt have tk: "taken (sbi s) (range_of bno 8) {} b" by simp
      have "taken (sbi s) {} {} (sbi (drop_extent t kd ?ei))"
        using drop_extent_taken [of "sbi s" t kd ?ei "{}" "{}"] tk False inv by (simp add: e t)
      with a add False tk wft t show ?thesis by (auto split: if_splits)
    qed
  qed
qed

lemma write_inode_frame:
  "lolelffs_write_inode s ino = (r, s') \<Longrightarrow> readable s' = readable s \<and> sbi s' = sbi s \<and> icache s' = icache s
     \<and> mem s' = mem s \<and> now s' = now s"
  by (auto simp: lolelffs_write_inode_def split: if_splits)

lemma sync_bitmap_frame:
  "sync_bitmap bm base is s = (r, s') \<Longrightarrow> readable s' = readable s \<and> sbi s' = sbi s \<and> icache s' = icache s
     \<and> mem s' = mem s \<and> now s' = now s"
  by (induction "is" arbitrary: s) (auto simp: Let_def split: if_splits)

lemma sync_fs_frames:
  "lolelffs_sync_fs s = (r, s') \<Longrightarrow> readable s' = readable s \<and> sbi s' = sbi s \<and> icache s' = icache s
     \<and> mem s' = mem s \<and> now s' = now s"
  by (auto simp: lolelffs_sync_fs_def Let_def split: if_splits prod.splits sum.splits dest!: sync_bitmap_frame)

lemma create_commit_frame:
  "sbi (create_commit s dir ino mode) = sbi s" "readable (create_commit s dir ino mode) = readable s"
  "mem (create_commit s dir ino mode) = mem s" "now (create_commit s dir ino mode) = now s"
proof -
  obtain s1 where w1: "snd (lolelffs_write_inode (mark_inode_dirty s ino) ino) = s1" by simp
  define s2 where "s2 = (if S_ISDIR mode then inc_nlink (touch s1 dir) dir else touch s1 dir)"
  obtain s3 where w3: "snd (lolelffs_write_inode (mark_inode_dirty s2 dir) dir) = s3" by simp
  have f1: "sbi s1 = sbi s" "readable s1 = readable s" "mem s1 = mem s" "now s1 = now s"
    using write_inode_frame [of "mark_inode_dirty s ino" ino] w1
    by (cases "lolelffs_write_inode (mark_inode_dirty s ino) ino"; simp add: inode_steps)+
  have f2: "sbi s2 = sbi s" "readable s2 = readable s" "mem s2 = mem s" "now s2 = now s"
    by (simp_all add: s2_def inode_steps f1)
  have f3: "sbi s3 = sbi s" "readable s3 = readable s" "mem s3 = mem s" "now s3 = now s"
    using write_inode_frame [of "mark_inode_dirty s2 dir" dir] w3 f2
    by (cases "lolelffs_write_inode (mark_inode_dirty s2 dir) dir"; simp add: inode_steps)+
  have "create_commit s dir ino mode = snd (lolelffs_sync_fs s3)"
    by (simp add: create_commit_def Let_def w1 w3 s2_def [symmetric])
  then show "sbi (create_commit s dir ino mode) = sbi s" "readable (create_commit s dir ino mode) = readable s"
    "mem (create_commit s dir ino mode) = mem s" "now (create_commit s dir ino mode) = now s"
    using sync_fs_frames [of s3] f3 by (cases "lolelffs_sync_fs s3"; simp)+
qed

lemma create_undo_taken:
  assumes t: "taken b {unat (ci_ei_block (inode_of s ino))} {unat ino} (sbi s)"
    and "ino \<noteq> 0" "ci_ei_block (inode_of s ino) \<noteq> 0" "sbi_inv b"
  shows "taken b {} {} (sbi (create_undo ker s ino))"
proof -
  let ?e = "ci_ei_block (inode_of s ino)"
  have "range_of ?e 1 = {unat ?e}" by (auto simp: range_of_def)
  then have "taken b {} {unat ino} (put_blocks (sbi s) ?e 1)"
    using taken_put_blocks [of b ?e 1 "{}" "{unat ino}" "sbi s"] assms by simp
  then show ?thesis
    using taken_put_inode [of b "{}" ino "{}"] assms by (simp add: create_undo_def)
qed

lemma wf_dev_new_inode:
  "lolelffs_new_inode ker s dir mode = (r, s') \<Longrightarrow> blocks s' = blocks s \<and> readable s' = readable s"
  by (auto simp: lolelffs_new_inode_def Let_def split: if_splits prod.splits sum.splits dest!: iget_frame)

text \<open>The part of a creation behind the new inode: adding the entry, and the commit or the undoing.\<close>

lemma create_entry_taken:
  assumes t1: "taken b {unat (ci_ei_block (inode_of s ino))} {unat ino} (sbi s)"
    and n: "ino \<noteq> 0" "ci_ei_block (inode_of s ino) \<noteq> 0" "sbi_inv b" and wf: "wf_dev s"
    and add: "add_entry s kd nm ino = (r, s')"
  shows "case r of
      Inl e \<Rightarrow> taken b {} {} (sbi (create_undo ker s' ino))
    | Inr _ \<Rightarrow> (\<exists>bno B. bno \<notin> B \<and> (B = {} \<or> (\<exists>a. B = range_of a 8)) \<and> taken b (insert bno B) {unat ino} (sbi s'))"
proof -
  let ?e = "ci_ei_block (inode_of s ino)"
  have inv: "sbi_inv (sbi s)" using t1 by (simp add: taken_def)
  note at = add_entry_taken [OF inv wf add]
  have ino: "inode_of s' ino = inode_of s ino" using at inode_of_cong [of s' s] by simp
  show ?thesis
  proof (cases r)
    case (Inl e)
    then have "taken b {unat ?e} {unat ino} (sbi s')" using taken_trans [OF t1, of "{}" "{}" "sbi s'"] at by simp
    with Inl show ?thesis using create_undo_taken [of b s' ino] n ino by simp
  next
    case (Inr u)
    with at obtain B where B: "B = {} \<or> (\<exists>a. B = range_of a 8)" "taken (sbi s) B {} (sbi s')" by auto
    moreover have "unat ?e \<notin> B" using B(2) t1 by (auto simp: taken_def)
    ultimately show ?thesis using Inr taken_trans [OF t1 B(2)] by (auto intro!: exI [of _ "unat ?e"] exI [of _ B])
  qed
qed

lemma create_taken:
  assumes inv: "sbi_inv (sbi s)" and wf: "wf_dev s" and mode: "\<not> S_ISLNK mode"
    and cr: "lolelffs_create ker s dir nm mode = (r, s')"
  shows "case r of
      Inl e \<Rightarrow> taken (sbi s) {} {} (sbi s')
    | Inr ino \<Rightarrow> (\<exists>bno B. bno \<notin> B \<and> (B = {} \<or> (\<exists>a. B = range_of a 8)) \<and> taken (sbi s) (insert bno B) {unat ino} (sbi s'))"
proof -
  let ?kd = "sector s (ci_ei_block (inode_of s dir))"
  obtain rn s1 where new: "lolelffs_new_inode ker s dir mode = (rn, s1)" by fastforce
  note nt = new_inode_taken [OF inv new] and nf = wf_dev_new_inode [OF new]
  show ?thesis
  proof (cases "LOLELFFS_FILENAME_LEN < length nm \<or> \<not> readable s ?kd \<or> unat (nr_files (ei_at s ?kd)) = LOLELFFS_MAX_SUBFILES")
    case True
    with cr inv show ?thesis by (auto simp: lolelffs_create_def Let_def taken_refl split: if_splits)
  next
    case pre: False
    show ?thesis
    proof (cases rn)
      case (Inl e)
      with pre cr new nt show ?thesis by (auto simp: lolelffs_create_def Let_def)
    next
      case (Inr ino)
      let ?e = "ci_ei_block (inode_of s1 ino)"
      from nt Inr mode have n: "ino \<noteq> 0" "?e \<noteq> 0" and t1: "taken (sbi s) {unat ?e} {unat ino} (sbi s1)"
        by auto
      show ?thesis
      proof (cases "readable s1 (sector s1 ?e)")
        case False
        with pre cr new Inr have "r = Inl EIO" "s' = create_undo ker s1 ino"
          by (auto simp: lolelffs_create_def Let_def)
        with create_undo_taken [OF t1 n inv] show ?thesis by simp
      next
        case True
        let ?t = "store s1 (sector s1 ?e) zero_block"
        obtain ra s2 where add: "add_entry ?t ?kd nm ino = (ra, s2)" by fastforce
        have wft: "wf_dev ?t" using wf_dev_blocks [OF wf] nf by (intro wf_dev_store) simp_all
        have it: "inode_of ?t ino = inode_of s1 ino" by (simp add: inode_of_def)
        have "case ra of
            Inl e \<Rightarrow> taken (sbi s) {} {} (sbi (create_undo ker s2 ino))
          | Inr _ \<Rightarrow> (\<exists>bno B. bno \<notin> B \<and> (B = {} \<or> (\<exists>a. B = range_of a 8)) \<and> taken (sbi s) (insert bno B) {unat ino} (sbi s2))"
          by (rule create_entry_taken [OF _ n(1) _ inv wft add]) (simp_all add: it t1 n)
        moreover have "(r, s') = (case ra of Inl e \<Rightarrow> (Inl e, create_undo ker s2 ino) | Inr _ \<Rightarrow> (Inr ino, create_commit s2 dir ino mode))"
          using pre new Inr True add unfolding cr [symmetric]
          by (simp add: lolelffs_create_def Let_def split: sum.split)
        ultimately show ?thesis by (auto simp: create_commit_frame split: sum.splits)
      qed
    qed
  qed
qed

section \<open>Removing an entry touches the directory's blocks only\<close>

lemma pull_frame [simp]:
  "readable (pull s kp k) = readable s" "sbi (pull s kp k) = sbi s" "icache (pull s kp k) = icache s"
  "mem (pull s kp k) = mem s" "now (pull s kp k) = now s"
  by (simp_all add: pull_def Let_def)

lemma pull_blocks: "j \<noteq> kp \<Longrightarrow> j \<noteq> k \<Longrightarrow> blocks (pull s kp k) j = blocks s j"
  by (simp add: pull_def Let_def put_dir_def)

lemma sector_eq: "sbi t = sbi s \<Longrightarrow> sector t = sector s"
  by (rule sector_cong) simp

lemma sector_frame [simp]:
  "sector (store s k bs) = sector s" "sector (put_dir s k d) = sector s" "sector (put_ei s k eb) = sector s"
  "sector (pull s kp k) = sector s" "sector (set_entry s k fi ino nm) = sector s"
  "sector (upd_inode s ino f) = sector s" "sector (put_vinode s ino i) = sector s"
  by (rule sector_eq, simp)+

lemma blocks_put_dir [simp]: "blocks (put_dir s k d) j = (if j = k then enc_dir d else blocks s j)"
  by (simp add: put_dir_def)

lemma remove_in_extent_frame:
  assumes "remove_in_extent ino bs prev s = (r, s')"
  shows "readable s' = readable s \<and> sbi s' = sbi s \<and> icache s' = icache s \<and> mem s' = mem s \<and> now s' = now s
    \<and> (\<forall>k. k \<notin> sector s ` set bs \<and> prev \<noteq> Some k \<longrightarrow> blocks s' k = blocks s k)
    \<and> (\<forall>p. r = Inr (Some p) \<longrightarrow> prev = Some p \<or> p \<in> sector s ` set bs)"
  using assms
proof (induction bs arbitrary: prev s)
  case (Cons b bs)
  let ?k = "sector s b"
  show ?case
  proof (cases "readable s ?k \<and> inode (files (dir_at s ?k) ! 0) \<noteq> 0")
    case False
    with Cons.prems show ?thesis by (auto simp: Let_def split: if_splits)
  next
    case True
    show ?thesis
    proof (cases prev)
      case (Some kp)
      with Cons.prems True have "remove_in_extent ino bs (Some ?k) (pull s kp ?k) = (r, s')" by (simp add: Let_def)
      from Cons.IH [OF this] Some show ?thesis by (auto simp: pull_blocks)
    next
      case None
      show ?thesis
      proof (cases "find_ino ino (files (dir_at s ?k))")
        case None': None
        with Cons.prems True None have "remove_in_extent ino bs None s = (r, s')" by (simp add: Let_def)
        from Cons.IH [OF this] None show ?thesis by auto
      next
        case (Some fi)
        let ?t = "put_dir s ?k ((dir_at s ?k)\<lparr>files := remove_at fi (files (dir_at s ?k))\<rparr>)"
        from Some Cons.prems True None have "remove_in_extent ino bs (Some ?k) ?t = (r, s')" by (simp add: Let_def)
        from Cons.IH [OF this] None show ?thesis by auto
      qed
    qed
  qed
qed auto

lemma remove_in_extents_frame:
  assumes "remove_in_extents ino es prev s = (r, s')"
  shows "readable s' = readable s \<and> sbi s' = sbi s \<and> icache s' = icache s \<and> mem s' = mem s \<and> now s' = now s
    \<and> (\<forall>k. k \<notin> sector s ` set (concat (map extent_blocks (takeWhile (\<lambda>e. ee_start e \<noteq> 0) es))) \<and> prev \<noteq> Some k \<longrightarrow>
          blocks s' k = blocks s k)"
  using assms
proof (induction es arbitrary: prev s)
  case (Cons e es)
  show ?case
  proof (cases "ee_start e = 0")
    case False
    obtain r1 s1 where 1: "remove_in_extent ino (extent_blocks e) prev s = (r1, s1)" by fastforce
    note f = remove_in_extent_frame [OF 1]
    then have sec: "sector s1 = sector s" by (intro sector_eq) simp
    show ?thesis
    proof (cases r1)
      case (Inl err)
      with 1 Cons.prems False f show ?thesis by auto
    next
      case (Inr p)
      with 1 Cons.prems False have "remove_in_extents ino es p s1 = (r, s')" by simp
      note IH = Cons.IH [OF this, unfolded sec]
      have "blocks s' k = blocks s k"
        if "k \<notin> sector s ` set (concat (map extent_blocks (takeWhile (\<lambda>e. ee_start e \<noteq> 0) (e # es))))" "prev \<noteq> Some k" for k
      proof -
        have k: "k \<notin> sector s ` set (extent_blocks e)"
          "k \<notin> sector s ` set (concat (map extent_blocks (takeWhile (\<lambda>e. ee_start e \<noteq> 0) es)))"
          using that(1) False by auto
        then have "p \<noteq> Some k" using f Inr that(2) by blast
        with IH f k that(2) show ?thesis by simp
      qed
      with IH f show ?thesis by simp
    qed
  qed (use Cons.prems in auto)
qed auto

text \<open>The sectors of a directory: its index block and its data blocks.\<close>

definition dir_sectors :: "fs \<Rightarrow> nat \<Rightarrow> nat set" where
  "dir_sectors s kd = insert kd (sector s ` set (concat (map extent_blocks (live_extents (ei_at s kd)))))"

lemma remove_from_dir_frame:
  assumes "lolelffs_remove_from_dir s dir ino = (r, s')"
  shows "readable s' = readable s \<and> sbi s' = sbi s \<and> icache s' = icache s \<and> mem s' = mem s \<and> now s' = now s
    \<and> (\<forall>k. k \<notin> dir_sectors s (sector s (ci_ei_block (inode_of s dir))) \<longrightarrow> blocks s' k = blocks s k)"
proof -
  let ?kd = "sector s (ci_ei_block (inode_of s dir))"
  obtain r1 s1 where 1: "remove_in_extents ino (extents (ei_at s ?kd)) None s = (r1, s1)" by fastforce
  note f = remove_in_extents_frame [OF 1]
  from assms 1 consider "s' = s" | "s' = s1" | eb where "s' = put_ei s1 ?kd eb"
    by (auto simp: lolelffs_remove_from_dir_def Let_def split: if_splits sum.splits option.splits)
  then show ?thesis
  proof cases
    case 1
    then show ?thesis by simp
  next
    case 2
    with f show ?thesis by (auto simp: dir_sectors_def live_extents_def)
  next
    case 3
    with f show ?thesis by (auto simp: dir_sectors_def live_extents_def put_ei_def)
  qed
qed

section \<open>Giving blocks back\<close>

text \<open>Ranges that may be given back: within the file system, pairwise disjoint, none of them free.\<close>

definition owned :: "sb_info \<Rightarrow> (u32 \<times> u32) list \<Rightarrow> bool" where
  "owned b rs \<longleftrightarrow> distinct (ranges rs) \<and> set (ranges rs) \<inter> free_blocks b = {}
     \<and> (\<forall>(a, len) \<in> set rs. a \<noteq> 0 \<and> len \<noteq> 0 \<and> unat a + unat len \<le> unat (nr_blocks b))"

definition ext_ranges :: "lolelffs_extent list \<Rightarrow> (u32 \<times> u32) list" where
  "ext_ranges es = map (\<lambda>e. (ee_start e, ee_len e)) (takeWhile (\<lambda>e. ee_start e \<noteq> 0) es)"

lemma ranges_Cons: "ranges ((a, len) # rs) = [unat a ..< unat a + unat len] @ ranges rs"
  by (simp add: ranges_def)

lemma ranges_append: "ranges (rs @ rs') = ranges rs @ ranges rs'"
  by (simp add: ranges_def)

lemma put_blocks_released:
  assumes "sbi_inv b" "owned b [(a, len)]"
  shows "taken (put_blocks b a len) (range_of a len) {} b"
proof -
  have "a \<noteq> 0" "len \<noteq> 0" "unat a + unat len \<le> unat (nr_blocks b)" "range_of a len \<inter> free_blocks b = {}"
    using assms(2) by (auto simp: owned_def ranges_def range_of_def)
  with ba.put_ok [of b len a] assms(1)
  have "blocks_inv (put_blocks b a len)" "free_blocks (put_blocks b a len) = free_blocks b \<union> range_of a len"
    by (auto simp: sbi_inv_def)
  moreover have "free_inodes (put_blocks b a len) = free_inodes b" by (simp add: free_inodes_def)
  ultimately show ?thesis
    using assms \<open>range_of a len \<inter> free_blocks b = {}\<close>
    by (auto simp: taken_def same_geometry_def)
qed

lemma taken_inv: "taken b B I b' \<Longrightarrow> sbi_inv b \<Longrightarrow> sbi_inv b'"
  by (simp add: taken_def)

lemma put_blocks_inv: "sbi_inv b \<Longrightarrow> owned b [(a, len)] \<Longrightarrow> sbi_inv (put_blocks b a len)"
  using ba.put_ok [of b len a]
  by (auto simp: sbi_inv_def owned_def ranges_def range_of_def inodes_inv_def)

lemma owned_tl:
  assumes "owned b ((a, len) # rs)"
  shows "owned b [(a, len)]" and "sbi_inv b \<Longrightarrow> owned (put_blocks b a len) rs"
proof -
  show 1: "owned b [(a, len)]" using assms by (auto simp: owned_def ranges_Cons ranges_def)
  assume inv: "sbi_inv b"
  have "free_blocks (put_blocks b a len) = free_blocks b \<union> range_of a len"
    using put_blocks_released [OF inv 1] by (auto simp: taken_def)
  with assms show "owned (put_blocks b a len) rs"
    by (auto simp: owned_def ranges_Cons range_of_def)
qed

lemma put_extents_released:
  assumes "sbi_inv b" "owned b (ext_ranges es @ rs)"
  shows "taken (put_extents b es) (set (ranges (ext_ranges es))) {} b \<and> sbi_inv (put_extents b es)
     \<and> owned (put_extents b es) rs"
  using assms
proof (induction es arbitrary: b)
  case (Cons e es)
  show ?case
  proof (cases "ee_start e = 0")
    case True
    with Cons.prems show ?thesis by (simp add: ext_ranges_def ranges_def taken_refl)
  next
    case False
    let ?a = "ee_start e" and ?l = "ee_len e"
    have eq: "ext_ranges (e # es) = (?a, ?l) # ext_ranges es" using False by (simp add: ext_ranges_def)
    with Cons.prems(2) have o: "owned b ((?a, ?l) # ext_ranges es @ rs)" by simp
    note o1 = owned_tl(1) [OF o] and o2 = owned_tl(2) [OF o Cons.prems(1)]
    let ?b = "put_blocks b ?a ?l"
    have inv: "sbi_inv ?b" by (rule put_blocks_inv [OF Cons.prems(1) o1])
    note IH = Cons.IH [OF inv o2]
    have "taken (put_extents ?b es) (set (ranges (ext_ranges es)) \<union> range_of ?a ?l) ({} \<union> {}) b"
      by (rule taken_trans [OF _ put_blocks_released [OF Cons.prems(1) o1]]) (use IH in simp)
    moreover have "set (ranges (ext_ranges (e # es))) = set (ranges (ext_ranges es)) \<union> range_of ?a ?l"
      unfolding eq by (auto simp: ranges_Cons range_of_def)
    ultimately show ?thesis using IH False by simp
  qed
qed (simp add: ext_ranges_def ranges_def taken_refl)

lemma scrub_blocks_frame [simp]:
  "sbi (scrub_blocks bs s) = sbi s" "readable (scrub_blocks bs s) = readable s" "icache (scrub_blocks bs s) = icache s"
  "mem (scrub_blocks bs s) = mem s" "now (scrub_blocks bs s) = now s"
  by (induction bs arbitrary: s) auto

lemma free_extents_sbi: "sbi (free_extents es s) = put_extents (sbi s) es"
  by (induction es arbitrary: s) auto

lemma free_extents_frame [simp]:
  "readable (free_extents es s) = readable s" "icache (free_extents es s) = icache s"
  "mem (free_extents es s) = mem s" "now (free_extents es s) = now s"
  by (induction es arbitrary: s) auto

lemma put_inode_released:
  assumes "sbi_inv b" "ino \<noteq> 0" "ino < nr_inodes b" "unat ino \<notin> free_inodes b"
  shows "taken (put_inode b ino) {} {unat ino} b \<and> sbi_inv (put_inode b ino)"
proof -
  have "range_of ino 1 = {unat ino}" by (auto simp: range_of_def)
  with ia.put_ok [of b 1 ino] assms
  have "inodes_inv (put_inode b ino)" "free_inodes (put_inode b ino) = insert (unat ino) (free_inodes b)"
    by (auto simp: sbi_inv_def word_less_nat_alt)
  moreover have "blocks_inv (put_inode b ino)" "free_blocks (put_inode b ino) = free_blocks b"
    using assms(1) by (simp_all add: sbi_inv_def blocks_inv_def free_blocks_def)
  ultimately show ?thesis using assms by (auto simp: taken_def same_geometry_def sbi_inv_def)
qed

lemma blocks_scrub: "blocks (scrub_blocks bs s) k =
    (if k \<in> sector s ` set bs \<and> readable s k then zero_block else blocks s k)"
  by (induction bs arbitrary: s) (auto split: if_splits)

lemma blocks_free_extents:
  "blocks (free_extents es s) k =
     (if k \<in> sector s ` set (concat (map extent_blocks (takeWhile (\<lambda>e. ee_start e \<noteq> 0) es))) \<and> readable s k
      then zero_block else blocks s k)"
proof (induction es arbitrary: s)
  case (Cons e es)
  show ?case
  proof (cases "ee_start e = 0")
    case False
    let ?t = "scrub_blocks (extent_blocks e) (set_sbi s (put_blocks (sbi s) (ee_start e) (ee_len e)))"
    have sec: "sector ?t = sector s" "sector (set_sbi s (put_blocks (sbi s) (ee_start e) (ee_len e))) = sector s"
      by (rule sector_cong, simp)+
    show ?thesis using False by (auto simp: Cons sec blocks_scrub image_Un)
  qed simp
qed simp

lemma clean_inode_plain:
  assumes "ci_xattr_block (inode_of s ino) = 0"
  shows "sbi (clean_inode s ino bno) = put_inode (put_blocks (sbi s) bno 1) ino"
    and "blocks (clean_inode s ino bno) = blocks s" and "readable (clean_inode s ino bno) = readable s"
  using assms by (simp_all add: clean_inode_def Let_def lolelffs_xattr_free_blocks_def inode_steps)

text \<open>
  The state in which \<open>lolelffs_unlink\<close> decides about the last link: the entry is gone and the
  directory's times are set. For a directory both link counts have been lowered.
\<close>

definition unlink_mid :: "fs \<Rightarrow> u32 \<Rightarrow> u32 \<Rightarrow> fs" where
  "unlink_mid s dir ino =
     (let t = touch s dir
      in mark_inode_dirty (if S_ISDIR (vi_mode (inode_of s ino)) then drop_nlink (drop_nlink t dir) ino else t) dir)"

lemma unlink_mid_frame [simp]:
  "sbi (unlink_mid s dir ino) = sbi s" "blocks (unlink_mid s dir ino) = blocks s"
  "readable (unlink_mid s dir ino) = readable s" "sector (unlink_mid s dir ino) = sector s"
  by (simp_all add: unlink_mid_def Let_def inode_steps)

lemma unlink_mid_inode:
  "dir \<noteq> ino \<Longrightarrow> inode_of (unlink_mid s dir ino) ino =
     (inode_of s ino)\<lparr>vi_nlink := vi_nlink (inode_of s ino) - (if S_ISDIR (vi_mode (inode_of s ino)) then 1 else 0)\<rparr>"
  by (simp add: unlink_mid_def Let_def inode_steps)

lemma unlink_last:
  assumes rm: "lolelffs_remove_from_dir s dir ino = (Inr (), s1)" and "dir \<noteq> ino"
    and "\<not> S_ISLNK (vi_mode (inode_of s ino))"
    and "vi_nlink (inode_of s ino) - (if S_ISDIR (vi_mode (inode_of s ino)) then 1 else 0) \<le> 1"
    and "readable s (sector s (ci_ei_block (inode_of s ino)))"
  shows "lolelffs_unlink s dir ino =
    (let t = unlink_mid s1 dir ino; bno = ci_ei_block (inode_of s ino); k = sector s bno;
         t = (if S_ISDIR (vi_mode (inode_of s ino)) then t else free_extents (extents (ei_at s1 k)) t)
     in (Inr (), clean_inode (store t k zero_block) ino bno))"
proof -
  note f = remove_from_dir_frame [OF rm]
  have i: "inode_of s1 = inode_of s" using f by (intro inode_of_cong) simp
  have sec: "sector s1 = sector s" using f by (intro sector_eq) simp
  have ei: "ei_at (unlink_mid s1 dir ino) = ei_at s1" by (rule at_cong) simp
  note mid = unlink_mid_inode [OF assms(2), of s1]
  have "lolelffs_unlink s dir ino =
      (let s = unlink_mid s1 dir ino
       in if 1 < vi_nlink (inode_of s ino) then (Inr (), mark_inode_dirty (drop_nlink s ino) ino)
          else
            (let bno = ci_ei_block (inode_of s ino); k = sector s bno
             in if \<not> readable s k then (Inr (), clean_inode s ino bno)
                else
                  (let s = (if S_ISDIR (vi_mode (inode_of s1 ino)) then s else free_extents (extents (ei_at s k)) s)
                   in (Inr (), clean_inode (store s k zero_block) ino bno))))"
    using assms(3) by (simp add: lolelffs_unlink_def rm i unlink_mid_def Let_def)
  then show ?thesis
    using assms(4,5) f by (simp add: mid i sec ei Let_def not_less)
qed

lemma unlink_file_effect:
  assumes inv: "sbi_inv (sbi s)" and reg: "S_ISREG (vi_mode (inode_of s ino))" and nl: "vi_nlink (inode_of s ino) \<le> 1"
    and x: "ci_xattr_block (inode_of s ino) = 0" and ne: "dir \<noteq> ino"
    and bno: "bno = ci_ei_block (inode_of s ino)" and rd: "readable s (sector s bno)"
    and out: "sector s bno \<notin> dir_sectors s (sector s (ci_ei_block (inode_of s dir)))"
    and es: "es = extents (ei_at s (sector s bno))" and own: "owned (sbi s) (ext_ranges es @ [(bno, 1)])"
    and ino: "ino \<noteq> 0" "ino < nr_inodes (sbi s)" "unat ino \<notin> free_inodes (sbi s)"
    and rm: "lolelffs_remove_from_dir s dir ino = (Inr (), s1)"
  shows "\<exists>s'. lolelffs_unlink s dir ino = (Inr (), s')
    \<and> taken (sbi s') (set (ranges (ext_ranges es @ [(bno, 1)]))) {unat ino} (sbi s) \<and> sbi_inv (sbi s')
    \<and> blocks s' (sector s bno) = zero_block
    \<and> (\<forall>b \<in> set (concat (map extent_blocks (takeWhile (\<lambda>e. ee_start e \<noteq> 0) es))).
          readable s (sector s b) \<longrightarrow> blocks s' (sector s b) = zero_block)"
proof -
  note f = remove_from_dir_frame [OF rm]
  have i: "inode_of s1 = inode_of s" using f by (intro inode_of_cong) simp
  have nd: "\<not> S_ISDIR (vi_mode (inode_of s ino))" "\<not> S_ISLNK (vi_mode (inode_of s ino))"
    using reg S_IS_exclusive by blast+
  have ei: "ei_at s1 (sector s bno) = ei_at s (sector s bno)" using f out by (simp add: ei_at_def)
  define t where "t = store (free_extents es (unlink_mid s1 dir ino)) (sector s bno) zero_block"
  have "ci_xattr_block (inode_of t ino) = 0"
    using inode_of_cong [of t "unlink_mid s1 dir ino"] unlink_mid_inode [OF ne, of s1] x i by (simp add: t_def)
  note cl = clean_inode_plain [OF this, of bno]
  have ul: "lolelffs_unlink s dir ino = (Inr (), clean_inode t ino bno)"
    using unlink_last [OF rm ne] nd nl rd by (simp add: Let_def bno ei [unfolded bno] es t_def)
  let ?b1 = "put_extents (sbi s) es" let ?b2 = "put_blocks ?b1 bno 1"
  note p1 = put_extents_released [OF inv own]
  have b2: "taken ?b2 (range_of bno 1) {} ?b1" "sbi_inv ?b2"
    using put_blocks_released [of ?b1 bno 1] put_blocks_inv [of ?b1 bno 1] p1 by simp_all
  have "same_geometry ?b2 (sbi s)" "free_inodes ?b2 = free_inodes (sbi s)"
    using p1 b2(1) by (auto simp: taken_def intro: same_geometry_trans)
  then have b3: "taken (put_inode ?b2 ino) {} {unat ino} ?b2 \<and> sbi_inv (put_inode ?b2 ino)"
    using put_inode_released [OF b2(2) ino(1)] ino(2,3) by (simp add: same_geometry_def)
  have st: "sbi t = ?b1" by (simp add: t_def free_extents_sbi f)
  have bt: "blocks t k = (if k = sector s bno then zero_block else blocks (free_extents es (unlink_mid s1 dir ino)) k)" for k
    by (simp add: t_def)
  have "sbi (clean_inode t ino bno) = put_inode ?b2 ino"
    by (simp add: cl st)
  moreover have "taken (put_inode ?b2 ino) (set (ranges (ext_ranges es @ [(bno, 1)]))) {unat ino} (sbi s)"
    using taken_trans [OF taken_trans [OF conjunct1 [OF b3] b2(1)] conjunct1 [OF p1]]
    by (simp add: ranges_append ranges_def range_of_def Un_commute)
  moreover have "blocks (clean_inode t ino bno) (sector s bno) = zero_block" by (simp add: cl bt)
  moreover have "blocks (clean_inode t ino bno) (sector s b) = zero_block"
    if "b \<in> set (concat (map extent_blocks (takeWhile (\<lambda>e. ee_start e \<noteq> 0) es)))" "readable s (sector s b)" for b
    using that f sector_eq [of s1 s] by (auto simp: cl bt blocks_free_extents)
  ultimately show ?thesis using ul b3 by auto
qed

lemma unlink_symlink_sbi:
  assumes "lolelffs_remove_from_dir s dir ino = (Inr (), s1)" "S_ISLNK (vi_mode (inode_of s ino))"
    and "ci_xattr_block (inode_of s ino) = 0"
  shows "\<exists>s'. lolelffs_unlink s dir ino = (Inr (), s') \<and> sbi s' = put_inode (put_blocks (sbi s) 0 1) ino"
proof -
  note f = remove_from_dir_frame [OF assms(1)]
  have i: "inode_of s1 = inode_of s" using f by (intro inode_of_cong) simp
  show ?thesis
    using assms(2,3) clean_inode_plain(1) [of s1 ino 0] f by (simp add: lolelffs_unlink_def assms(1) i)
qed

lemma put_block_0:
  assumes "blocks_inv b" "0 < nr_blocks b"
  shows "bfree_bitmap (put_blocks b 0 1) = (bfree_bitmap b)[0 := True]" "bfree_bitmap b \<noteq> []"
proof -
  show ne: "bfree_bitmap b \<noteq> []"
    using assms by (auto simp: blocks_inv_def alloc_inv_def word_less_nat_alt)
  then show "bfree_bitmap (put_blocks b 0 1) = (bfree_bitmap b)[0 := True]"
    by (cases "bfree_bitmap b") (simp_all add: put_blocks_def put_free_bits_def bitmap_fill_def)
qed

section \<open>States for the witnesses\<close>

text \<open>
  A small file system for the witnesses: 32 blocks, the first five of them in use (superblock,
  inode store, two bitmaps, index block of the root directory), eight inodes, of which the root
  directory has number 0.
\<close>

definition dir_sbi :: sb_info where
  "dir_sbi = tiny_sbi\<lparr>nr_blocks := 32, nr_inodes := 8, nr_free_blocks := 27, nr_free_inodes := 7,
     ifree_bitmap := False # replicate 7 True @ replicate (BITS_PER_BLOCK - 8) False,
     bfree_bitmap := replicate 5 False @ replicate 27 True @ replicate (BITS_PER_BLOCK - 32) False\<rparr>"

definition root_inode :: vinode where
  "root_inode = tiny_inode\<lparr>vi_mode := 0x41ED, vi_nlink := 2, vi_fop := Dir_fops, ci_ei_block := 4\<rparr>"

definition dir_fs :: fs where
  "dir_fs = tiny_fs\<lparr>sbi := dir_sbi, icache := (\<lambda>_. None)(0 := Some root_inode)\<rparr>"

lemma dir_free: "free_blocks dir_sbi = {5..<32}" "free_inodes dir_sbi = {1..<8}"
  by (auto simp: free_blocks_def free_inodes_def mem_free_bits bit_set_def dir_sbi_def nth_append nth_Cons' BITS_PER_BLOCK_def size_defs split: if_splits)

lemma dir_sbi_inv: "sbi_inv dir_sbi"
  using dir_free
  by (simp add: sbi_inv_def blocks_inv_def inodes_inv_def alloc_inv_def bit_set_def free_blocks_def free_inodes_def)
    (simp add: dir_sbi_def nth_append BITS_PER_BLOCK_def size_defs)

lemma dir_wf_dev: "wf_dev dir_fs"
  by (simp add: wf_dev_def dir_fs_def tiny_fs_def)

text \<open>The same with one file \<open>a\<close> of two blocks (inode 1, index block 13, data in 14 and 15) in the root directory.\<close>

definition file_sbi :: sb_info where
  "file_sbi = dir_sbi\<lparr>nr_free_blocks := 16, nr_free_inodes := 6,
     ifree_bitmap := replicate 2 False @ replicate 6 True @ replicate (BITS_PER_BLOCK - 8) False,
     bfree_bitmap := replicate 16 False @ replicate 16 True @ replicate (BITS_PER_BLOCK - 32) False\<rparr>"

definition one_extent :: "u32 \<Rightarrow> u32 \<Rightarrow> u32 \<Rightarrow> lolelffs_file_ei_block" where
  "one_extent n a len = zero_ei\<lparr>nr_files := n, extents := (extents zero_ei)[0 := zero_extent\<lparr>ee_start := a, ee_len := len\<rparr>]\<rparr>"

definition file_fs :: fs where
  "file_fs = dir_fs\<lparr>sbi := file_sbi,
     icache := (\<lambda>_. None)(0 := Some root_inode, 1 := Some (tiny_inode\<lparr>ci_ei_block := 13\<rparr>)),
     blocks := (\<lambda>_. zero_block)(4 := enc_ei (one_extent 1 5 8),
       5 := enc_dir (zero_dir\<lparr>files := (files zero_dir)[0 := zero_file\<lparr>inode := 1, filename := strncpy [97] LOLELFFS_FILENAME_LEN\<rparr>]\<rparr>),
       13 := enc_ei (one_extent 0 14 2))\<rparr>"

lemma file_free: "free_blocks file_sbi = {16..<32}" "free_inodes file_sbi = {2..<8}"
  by (auto simp: free_blocks_def free_inodes_def mem_free_bits bit_set_def file_sbi_def dir_sbi_def nth_append BITS_PER_BLOCK_def size_defs
      split: if_splits)

lemma file_sbi_inv: "sbi_inv file_sbi"
  using file_free
  by (simp add: sbi_inv_def blocks_inv_def inodes_inv_def alloc_inv_def bit_set_def free_blocks_def free_inodes_def)
    (simp add: file_sbi_def dir_sbi_def nth_append BITS_PER_BLOCK_def size_defs)

lemma wf_one_extent: "wf_ei (one_extent n a len)"
  by (simp add: one_extent_def wf_ei_def zero_ei_def)

lemma wf_zero_dir: "wf_dir (zero_dir\<lparr>files := (files zero_dir)[i := zero_file\<lparr>inode := n, filename := strncpy nm LOLELFFS_FILENAME_LEN\<rparr>]\<rparr>)"
proof -
  have "list_all wf_file (files zero_dir)" by (simp add: zero_dir_def list_all_iff wf_file_def zero_file_def)
  then have "list_all wf_file ((files zero_dir)[i := zero_file\<lparr>inode := n, filename := strncpy nm LOLELFFS_FILENAME_LEN\<rparr>])"
    by (rule list_all_update) (simp add: wf_file_def)
  then show ?thesis by (simp add: wf_dir_def) (simp add: zero_dir_def)
qed

lemma file_wf_dev: "wf_dev file_fs"
  by (simp add: wf_dev_def file_fs_def eic.length_enc dic.length_enc wf_one_extent wf_zero_dir)

lemma file_at:
  "ei_at file_fs 4 = one_extent 1 5 8" "ei_at file_fs 13 = one_extent 0 14 2"
  "dir_at file_fs 5 = zero_dir\<lparr>files := (files zero_dir)[0 := zero_file\<lparr>inode := 1, filename := strncpy [97] LOLELFFS_FILENAME_LEN\<rparr>]\<rparr>"
  "k \<noteq> 4 \<Longrightarrow> k \<noteq> 5 \<Longrightarrow> k \<noteq> 13 \<Longrightarrow> dir_at file_fs k = zero_dir"
  by (simp_all add: ei_at_def dir_at_def file_fs_def eic.dec_enc dic.dec_enc wf_one_extent wf_zero_dir dec_zero_dir)

lemma file_sector: "sector file_fs b = unat b" "inode_of file_fs 0 = root_inode" "readable file_fs k"
  "inode_of file_fs 1 = tiny_inode\<lparr>ci_ei_block := 13\<rparr>"
  by (simp_all add: sector_def file_fs_def file_sbi_def dir_sbi_def tiny_sbi_def inode_of_def dir_fs_def tiny_fs_def)

lemma one_extent_extents:
  "extents (one_extent n a len) = zero_extent\<lparr>ee_start := a, ee_len := len\<rparr> # replicate 169 zero_extent"
  "nr_files (one_extent n a len) = n"
  by (simp_all add: one_extent_def zero_ei_def max_extents numeral_eq_Suc)

lemma remove_in_unused: "remove_in_extents ino (replicate n zero_extent) prev s = (Inr prev, s)"
  by (cases n) (simp_all add: zero_extent_def)

lemma file_remove: "fst (lolelffs_remove_from_dir file_fs 0 1) = Inr ()"
proof -
  let ?d = "dir_at file_fs 5"
  have f: "files ?d = zero_file\<lparr>inode := 1, filename := strncpy [97] LOLELFFS_FILENAME_LEN\<rparr> # replicate 14 zero_file"
    unfolding file_at(3) by (simp add: zero_dir_def files_per_block numeral_eq_Suc)
  have find: "find_ino 1 (files ?d) = Some 0"
    by (simp add: f find_ino_def upt_rec)
  let ?t = "put_dir file_fs 5 (?d\<lparr>files := remove_at 0 (files ?d)\<rparr>)"
  have d6: "inode (files (dir_at ?t 6) ! 0) = 0"
    by (simp add: dir_at_def put_dir_def file_fs_def dec_zero_dir zero_dir_def zero_file_def files_per_block)
  have sec: "sector ?t = sector file_fs" by (rule sector_eq) simp
  have "[0..<8] = [0, 1, 2, 3, 4, 5, 6, 7::nat]" by (simp add: upt_rec)
  then have "remove_in_extent 1 (extent_blocks (zero_extent\<lparr>ee_start := 5, ee_len := 8\<rparr>)) None file_fs = (Inr (Some 5), ?t)"
    using f find d6 by (simp add: extent_blocks_def file_sector sec Let_def)
  then show ?thesis
    by (simp add: lolelffs_remove_from_dir_def Let_def file_sector root_inode_def file_at(1) one_extent_extents remove_in_unused)
qed

lemma unlink_result: "lolelffs_remove_from_dir s dir ino = (Inr (), s1) \<Longrightarrow> fst (lolelffs_unlink s dir ino) = Inr ()"
  by (simp add: lolelffs_unlink_def Let_def)

lemma file_unlink:
  obtains s' where "lolelffs_unlink file_fs 0 1 = (Inr (), s')"
proof -
  obtain s1 where "lolelffs_remove_from_dir file_fs 0 1 = (Inr (), s1)"
    using file_remove by (cases "lolelffs_remove_from_dir file_fs 0 1") simp
  from unlink_result [OF this] that show thesis by (cases "lolelffs_unlink file_fs 0 1") simp
qed

definition link_fs :: fs where
  "link_fs = dir_fs\<lparr>icache := (icache dir_fs)(1 := Some (tiny_inode\<lparr>vi_mode := S_IFLNK OR S_IRWXUGO\<rparr>))\<rparr>"


section \<open>What the inode operations guarantee\<close>

text \<open>
  C12. Creating a file or directory keeps the books. If it fails, for whatever reason, every
  inode and block taken on the way has been given back: free sets and counters are what they
  were. If it succeeds, exactly the returned inode has become used, and one block (the index
  block), or nine when the directory got a new extent of eight.
\<close>

theorem create_accounting:
  assumes inv: "sbi_inv (sbi s)" and wf: "wf_dev s" and mode: "\<not> S_ISLNK mode"
    and cr: "lolelffs_create ker s dir nm mode = (r, s')"
  shows "sbi_inv (sbi s') \<and>
    (case r of
       Inl e \<Rightarrow> free_blocks (sbi s') = free_blocks (sbi s) \<and> free_inodes (sbi s') = free_inodes (sbi s)
         \<and> nr_free_blocks (sbi s') = nr_free_blocks (sbi s) \<and> nr_free_inodes (sbi s') = nr_free_inodes (sbi s)
     | Inr ino \<Rightarrow> unat ino \<in> free_inodes (sbi s) \<and> free_inodes (sbi s') = free_inodes (sbi s) - {unat ino}
         \<and> free_blocks (sbi s') \<subset> free_blocks (sbi s)
         \<and> unat (nr_free_blocks (sbi s)) - unat (nr_free_blocks (sbi s')) \<in> {1, 9})"
proof (cases r)
  case (Inl e)
  with create_taken [OF inv wf mode cr] have t: "taken (sbi s) {} {} (sbi s')" by simp
  with taken_counters [OF t inv] Inl show ?thesis by (simp add: taken_def word_unat_eq_iff)
next
  case (Inr ino)
  with create_taken [OF inv wf mode cr] obtain bno B where
    B: "bno \<notin> B" "B = {} \<or> (\<exists>a. B = range_of a 8)" and t: "taken (sbi s) (insert bno B) {unat ino} (sbi s')"
    by auto
  have "finite B" "card B \<in> {0, 8}" using B(2) by (auto simp: range_of_def)
  with B(1) have "card (insert bno B) \<in> {1, 9}" by auto
  with taken_counters(1) [OF t inv]
  have "unat (nr_free_blocks (sbi s)) - unat (nr_free_blocks (sbi s')) \<in> {1, 9}" by auto
  with t Inr show ?thesis by (auto simp: taken_def)
qed

text \<open>
  C18. Unlinking the last link of a regular file without attributes gives everything back: the
  inode, the index block and every block of its extents become free, nothing else does, the
  counters stay correct, and the index block and every readable data block are overwritten with
  zeros.
\<close>

theorem unlink_file_releases:
  assumes "sbi_inv (sbi s)" and "S_ISREG (vi_mode (inode_of s ino))" and "vi_nlink (inode_of s ino) \<le> 1"
    and "ci_xattr_block (inode_of s ino) = 0" and "dir \<noteq> ino"
    and bno: "bno = ci_ei_block (inode_of s ino)" and "readable s (sector s bno)"
    and "sector s bno \<notin> dir_sectors s (sector s (ci_ei_block (inode_of s dir)))"
    and "es = extents (ei_at s (sector s bno))" and "owned (sbi s) (ext_ranges es @ [(bno, 1)])"
    and "ino \<noteq> 0" "ino < nr_inodes (sbi s)" "unat ino \<notin> free_inodes (sbi s)"
    and "lolelffs_unlink s dir ino = (Inr (), s')"
  shows "sbi_inv (sbi s')
    \<and> free_blocks (sbi s') = free_blocks (sbi s) \<union> set (ranges (ext_ranges es)) \<union> {unat bno}
    \<and> free_inodes (sbi s') = insert (unat ino) (free_inodes (sbi s))
    \<and> blocks s' (sector s bno) = zero_block
    \<and> (\<forall>b \<in> set (concat (map extent_blocks (takeWhile (\<lambda>e. ee_start e \<noteq> 0) es))).
          readable s (sector s b) \<longrightarrow> blocks s' (sector s b) = zero_block)"
proof -
  obtain s1 where rm: "lolelffs_remove_from_dir s dir ino = (Inr (), s1)"
    using assms(14) by (auto simp: lolelffs_unlink_def split: prod.splits sum.splits)
  from unlink_file_effect [OF assms(1-13) rm] assms(14)
  have t: "taken (sbi s') (set (ranges (ext_ranges es @ [(bno, 1)]))) {unat ino} (sbi s)" "sbi_inv (sbi s')"
    "blocks s' (sector s bno) = zero_block"
    "\<forall>b \<in> set (concat (map extent_blocks (takeWhile (\<lambda>e. ee_start e \<noteq> 0) es))).
          readable s (sector s b) \<longrightarrow> blocks s' (sector s b) = zero_block"
    by auto
  moreover have "set (ranges (ext_ranges es @ [(bno, 1)])) = set (ranges (ext_ranges es)) \<union> {unat bno}"
    by (simp add: ranges_append) (simp add: ranges_def)
  ultimately show ?thesis by (auto simp: taken_def)
qed

theorem unlink_file_releases_witness:
  "\<exists>s'. lolelffs_unlink file_fs 0 1 = (Inr (), s') \<and> sbi_inv (sbi s') \<and> free_blocks (sbi s') = {13..<32}
     \<and> free_inodes (sbi s') = {1..<8} \<and> blocks s' 13 = zero_block"
proof -
  obtain s' where ul: "lolelffs_unlink file_fs 0 1 = (Inr (), s')" by (rule file_unlink)
  have sb: "sbi file_fs = file_sbi" by (simp add: file_fs_def)
  have er: "ext_ranges (extents (one_extent 0 14 2)) = [(14, 2)]"
    by (simp add: ext_ranges_def one_extent_extents zero_extent_def)
  have ow: "owned file_sbi (ext_ranges (extents (one_extent 0 14 2)) @ [(13, 1)])"
    unfolding er by (simp add: owned_def ranges_def file_free) (simp add: file_sbi_def dir_sbi_def)
  have ds: "sector file_fs 13 \<notin> dir_sectors file_fs (sector file_fs (ci_ei_block (inode_of file_fs 0)))"
  proof -
    have "unat (5 + of_nat i :: u32) = 5 + i" if "i < 8" for i
      using that unat_add_u32 [of 5 "of_nat i"] by (simp add: unat_of_nat_u32)
    then show ?thesis
      by (auto simp: file_sector root_inode_def dir_sectors_def file_at one_extent_extents live_extents_def extent_blocks_def
          zero_extent_def)
  qed
  have reg: "S_ISREG (vi_mode tiny_inode)" by code_simp
  have m: "1 < nr_inodes file_sbi" by (simp add: file_sbi_def dir_sbi_def)
  have p: "sbi_inv (sbi file_fs)" "S_ISREG (vi_mode (inode_of file_fs 1))" "vi_nlink (inode_of file_fs 1) \<le> 1"
      "ci_xattr_block (inode_of file_fs 1) = 0" "(0::u32) \<noteq> 1" "13 = ci_ei_block (inode_of file_fs 1)" "readable file_fs (sector file_fs 13)"
      "extents (one_extent 0 14 2) = extents (ei_at file_fs (sector file_fs 13))"
      "(1::u32) \<noteq> 0" "1 < nr_inodes (sbi file_fs)" "unat (1::u32) \<notin> free_inodes (sbi file_fs)"
    using file_sbi_inv reg m by (simp_all add: sb file_sector file_at file_free tiny_inode_def)
  note u = unlink_file_releases [OF p(1-7) ds p(8) ow [folded sb] p(9-11) ul]
  have "{16..<32} \<union> set (ranges [(14, 2)]) \<union> {unat (13::u32)} = {13..<32}" by (auto simp: ranges_def)
  moreover have "insert (unat (1::u32)) {2..<8} = {1..<8}" by auto
  moreover have "sector file_fs 13 = 13" by (simp add: file_sector)
  ultimately show ?thesis using u ul unfolding sb er file_free by simp
qed

text \<open>
  C37. Unlinking a symbolic link gives back block 0: a symbolic link has no index block, and the
  code returns block number 0 in its place. The superblock's block is marked free, the free
  counter no longer agrees with the allocator's invariant, and the next request for one block
  finds bit 0 and is taken for a failure, whatever is free.
\<close>

theorem unlink_symlink_frees_block_0:
  assumes inv: "blocks_inv (sbi s)" and nb: "0 < nr_blocks (sbi s)"
    and lnk: "S_ISLNK (vi_mode (inode_of s ino))" and x: "ci_xattr_block (inode_of s ino) = 0"
    and ul: "lolelffs_unlink s dir ino = (Inr (), s')"
  shows "0 \<in> free_blocks (sbi s') \<and> \<not> blocks_inv (sbi s') \<and> fst (get_free_blocks (sbi s') 1) = 0"
proof -
  obtain s1 where rm: "lolelffs_remove_from_dir s dir ino = (Inr (), s1)"
    using ul by (auto simp: lolelffs_unlink_def split: prod.splits sum.splits)
  have b: "sbi s' = put_inode (put_blocks (sbi s) 0 1) ino"
    using unlink_symlink_sbi [OF rm lnk x] ul by auto
  have bit: "bit_set (bfree_bitmap (sbi s')) 0"
    using put_block_0 [OF inv nb] by (simp add: b bit_set_def)
  have n: "0 < unat (nr_blocks (sbi s'))" using nb by (simp add: b word_less_nat_alt)
  have "find_first_bit (bfree_bitmap (sbi s')) (unat (nr_blocks (sbi s'))) = 0"
    using bit n by (simp add: find_first_bit_def find_next_bit.simps)
  then have "fst (get_free_blocks (sbi s') 1) = 0"
    using n by (simp add: get_free_blocks_def get_first_free_bits_def Let_def split: prod.splits)
  with bit n show ?thesis
    by (auto simp: free_blocks_def mem_free_bits blocks_inv_def alloc_inv_def)
qed

theorem unlink_symlink_frees_block_0_witness:
  "\<exists>s'. lolelffs_unlink link_fs 0 1 = (Inr (), s') \<and> 0 \<in> free_blocks (sbi s') \<and> fst (get_free_blocks (sbi s') 1) = 0"
proof -
  have e: "ei_at link_fs k = zero_ei" for k
    by (simp add: link_fs_def dir_fs_def tiny_fs_def ei_at_def dec_zero_ei)
  have rd: "readable link_fs k" for k by (simp add: link_fs_def dir_fs_def tiny_fs_def)
  have "extents zero_ei = zero_extent # replicate 169 zero_extent" by (simp add: zero_ei_def max_extents numeral_eq_Suc)
  then have "lolelffs_remove_from_dir link_fs 0 1 = (Inr (), link_fs)"
    by (simp add: lolelffs_remove_from_dir_def Let_def e rd) (simp add: zero_extent_def)
  from unlink_result [OF this] obtain s' where ul: "lolelffs_unlink link_fs 0 1 = (Inr (), s')"
    by (cases "lolelffs_unlink link_fs 0 1") simp
  have i: "inode_of link_fs 1 = tiny_inode\<lparr>vi_mode := S_IFLNK OR S_IRWXUGO\<rparr>" by (simp add: link_fs_def inode_of_def)
  have sb: "sbi link_fs = dir_sbi" by (simp add: link_fs_def dir_fs_def)
  have "blocks_inv (sbi link_fs)" "0 < nr_blocks (sbi link_fs)"
    using dir_sbi_inv by (simp_all add: sb sbi_inv_def) (simp add: dir_sbi_def)
  moreover have "S_ISLNK (vi_mode (inode_of link_fs 1))" unfolding i by code_simp
  moreover have "ci_xattr_block (inode_of link_fs 1) = 0" by (simp add: i tiny_inode_def)
  ultimately show ?thesis using unlink_symlink_frees_block_0 [OF _ _ _ _ ul] ul by simp
qed

end
