(* ===== verification/Namei_Dir.thy ===== *)
theory Namei_Dir
  imports Namei_Alloc
begin

text \<open>
  Directories as lists of names: what \<open>lolelffs_lookup\<close> finds, and what \<open>lolelffs_create\<close>
  adds.
\<close>

section \<open>A directory as a list of names\<close>

definition data_blocks :: "fs \<Rightarrow> nat \<Rightarrow> u32 list" where
  "data_blocks s kd = concat (map extent_blocks (live_extents (ei_at s kd)))"

definition slots_of :: "fs \<Rightarrow> u32 list \<Rightarrow> lolelffs_file list" where
  "slots_of s bs = concat (map (\<lambda>b. files (dir_at s (sector s b))) bs)"

definition dir_slots :: "fs \<Rightarrow> nat \<Rightarrow> lolelffs_file list" where
  "dir_slots s kd = slots_of s (data_blocks s kd)"

definition live :: "lolelffs_file list \<Rightarrow> lolelffs_file list" where
  "live fl = takeWhile (\<lambda>f. inode f \<noteq> 0) fl"

definition dir_list :: "fs \<Rightarrow> nat \<Rightarrow> (bytes \<times> u32) list" where
  "dir_list s kd = map (\<lambda>f. (cstr (filename f), inode f)) (live (dir_slots s kd))"

definition named :: "bytes \<Rightarrow> lolelffs_file \<Rightarrow> bool" where
  "named nm f \<longleftrightarrow> strncmp_eq (filename f) nm LOLELFFS_FILENAME_LEN"

lemma find_append: "find P (xs @ ys) = (case find P xs of None \<Rightarrow> find P ys | Some x \<Rightarrow> Some x)"
  by (induction xs) auto

lemma scan_files_eq:
  "scan_files fl nm =
     (case find (named nm) (live fl) of
        Some f \<Rightarrow> Found (inode f)
      | None \<Rightarrow> if list_all (\<lambda>f. inode f \<noteq> 0) fl then Continue else Stop)"
  by (induction fl) (auto simp: live_def named_def)

lemma live_append: "live (xs @ ys) = (if list_all (\<lambda>f. inode f \<noteq> 0) xs then xs @ live ys else live xs)"
  by (auto simp: live_def list_all_iff takeWhile_append)

lemma live_all: "list_all (\<lambda>f. inode f \<noteq> 0) xs \<Longrightarrow> live xs = xs"
  by (auto simp: live_def list_all_iff takeWhile_eq_all_conv)

lemma lookup_blocks_eq:
  "\<forall>b \<in> set bs. readable s (sector s b) \<Longrightarrow>
   lookup_blocks s bs nm = Inr (map_option inode (find (named nm) (live (slots_of s bs))))"
proof (induction bs)
  case (Cons b bs)
  let ?fl = "files (dir_at s (sector s b))"
  have "slots_of s (b # bs) = ?fl @ slots_of s bs" by (simp add: slots_of_def)
  with Cons show ?case
    by (auto simp: scan_files_eq live_append find_append live_all split: option.splits)
qed (simp add: slots_of_def live_def)

lemma named_iff:
  assumes "wf_file f" "is_cstr nm" "length nm \<le> LOLELFFS_FILENAME_LEN"
  shows "named nm f \<longleftrightarrow> cstr (filename f) = nm"
proof -
  have "length (cstr (filename f)) \<le> LOLELFFS_FILENAME_LEN"
    using assms(1) length_takeWhile_le [of "\<lambda>b. b \<noteq> 0" "filename f"] by (simp add: wf_file_def cstr_def)
  with assms show ?thesis by (simp add: named_def strncmp_eq_def)
qed

lemma wf_slots: "wf_dev s \<Longrightarrow> f \<in> set (slots_of s bs) \<Longrightarrow> wf_file f"
  using dir_at_wf [of s] by (auto simp: slots_of_def wf_dir_def list_all_iff)

lemma map_of_named:
  "(\<And>f. f \<in> set fl \<Longrightarrow> named nm f \<longleftrightarrow> cstr (filename f) = nm) \<Longrightarrow>
   map_option inode (find (named nm) fl) = map_of (map (\<lambda>f. (cstr (filename f), inode f)) fl) nm"
  by (induction fl) auto

lemma set_live: "set (live fl) \<subseteq> set fl"
  by (auto simp: live_def dest: set_takeWhileD)

lemma lookup_blocks_map:
  assumes "wf_dev s" "\<forall>b \<in> set (data_blocks s kd). readable s (sector s b)"
    and "is_cstr nm" "length nm \<le> LOLELFFS_FILENAME_LEN"
  shows "lookup_blocks s (data_blocks s kd) nm = Inr (map_of (dir_list s kd) nm)"
proof -
  have "named nm f \<longleftrightarrow> cstr (filename f) = nm" if "f \<in> set (live (dir_slots s kd))" for f
    using named_iff [OF wf_slots [OF assms(1)] assms(3,4)] set_live that by (auto simp: dir_slots_def)
  then show ?thesis
    using lookup_blocks_eq [OF assms(2), of nm] map_of_named [of "live (dir_slots s kd)" nm]
    by (simp add: dir_slots_def dir_list_def)
qed

text \<open>Finding an entry behind entries with other names.\<close>

lemma find_live_at:
  assumes "n < length sl" "\<And>i. i < n \<Longrightarrow> inode (sl ! i) \<noteq> 0 \<and> \<not> P (sl ! i)" "inode (sl ! n) \<noteq> 0" "P (sl ! n)"
  shows "find P (live sl) = Some (sl ! n)"
proof -
  have sl: "sl = take n sl @ sl ! n # drop (Suc n) sl" using assms(1) by (rule id_take_nth_drop)
  have "list_all (\<lambda>f. inode f \<noteq> 0) (take n sl)" "\<forall>f \<in> set (take n sl). \<not> P f"
    using assms(1,2) by (auto simp: list_all_iff in_set_conv_nth)
  moreover from this have "find P (take n sl) = None" by (auto simp: find_None_iff)
  ultimately have "find P (live (take n sl @ sl ! n # drop (Suc n) sl)) = Some (sl ! n)"
    using assms(3,4) by (simp add: live_append find_append) (simp add: live_def)
  with sl show ?thesis by simp
qed

section \<open>What lookup finds\<close>

text \<open>
  C21. Looking a name up returns what the directory's list of names holds: the entries up to the
  first empty one, in order, the first with that name; the result is \<open>iget\<close> of its inode number,
  a negative dentry if there is none. Only access time and dirty mark of the directory change in
  the latter case.
\<close>

theorem lookup_correct:
  assumes wf: "wf_dev s" and kd: "kd = sector s (ci_ei_block (inode_of s dir))" "readable s kd"
    and rd: "\<forall>b \<in> set (data_blocks s kd). readable s (sector s b)"
    and nm: "is_cstr nm" "length nm \<le> LOLELFFS_FILENAME_LEN"
  shows "fst (lolelffs_lookup s dir nm) =
    (case map_of (dir_list s kd) nm of
       None \<Rightarrow> Inr None
     | Some ino \<Rightarrow> map_sum id Some (fst (lolelffs_iget s ino)))
    \<and> blocks (snd (lolelffs_lookup s dir nm)) = blocks s \<and> sbi (snd (lolelffs_lookup s dir nm)) = sbi s"
proof -
  have l: "lookup_blocks s (data_blocks s kd) nm = Inr (map_of (dir_list s kd) nm)"
    by (rule lookup_blocks_map [OF wf rd nm])
  note d = lolelffs_lookup_def data_blocks_def [symmetric] inode_steps
  show ?thesis
  proof (cases "map_of (dir_list s kd) nm")
    case None
    with l kd nm(2) show ?thesis by (simp add: d Let_def not_less)
  next
    case (Some ino)
    obtain r s1 where i: "lolelffs_iget s ino = (r, s1)" by fastforce
    with Some l kd nm(2) iget_frame [OF i] show ?thesis
      by (cases r) (simp_all add: d Let_def not_less)
  qed
qed

theorem lookup_correct_witness:
  "fst (lolelffs_lookup file_fs 0 [97]) = Inr (Some 1)"
proof -
  let ?f = "zero_file\<lparr>inode := 1, filename := strncpy [97] LOLELFFS_FILENAME_LEN\<rparr>"
  have e: "live_extents (ei_at file_fs 4) = [zero_extent\<lparr>ee_start := 5, ee_len := 8\<rparr>]"
    by (simp add: file_at(1) live_extents_def one_extent_extents) (simp add: zero_extent_def)
  have db: "data_blocks file_fs 4 = 5 # map (\<lambda>i. 5 + of_nat i) [1..<8]"
    by (simp add: data_blocks_def e extent_blocks_def upt_conv_Cons)
  have "files (dir_at file_fs 5) = ?f # replicate 14 zero_file"
    unfolding file_at(3) by (simp add: zero_dir_def files_per_block numeral_eq_Suc)
  then have "live (dir_slots file_fs 4) = [?f]"
    by (simp add: dir_slots_def slots_of_def db file_sector live_def)
      (simp add: zero_file_def numeral_eq_Suc)
  moreover have "cstr (filename ?f) = [97]" using cstr_strncpy [of "[97]" LOLELFFS_FILENAME_LEN] by (simp add: is_cstr_def size_defs)
  ultimately have l: "map_of (dir_list file_fs 4) [97] = Some 1" by (simp add: dir_list_def)
  have i: "fst (lolelffs_iget file_fs 1) = Inr 1"
    by (simp add: lolelffs_iget_def file_fs_def file_sbi_def dir_sbi_def word_le_nat_alt)
  have k: "4 = sector file_fs (ci_ei_block (inode_of file_fs 0))" by (simp add: file_sector root_inode_def)
  from lookup_correct [OF file_wf_dev k] l i show ?thesis
    by (simp add: file_sector(3) is_cstr_def size_defs)
qed


section \<open>A consistent file system\<close>

text \<open>
  The file system as mkfs makes it and mount loads it: the metadata blocks come first, the inode
  store has room for all inodes, every block can be read, and only data blocks are ever free.
\<close>

definition fs_ok :: "fs \<Rightarrow> bool" where
  "fs_ok s \<longleftrightarrow> mounted s \<and> wf_dev s \<and> sbi_inv (sbi s)
     \<and> unat (nr_inodes (sbi s)) \<le> unat (nr_istore_blocks (sbi s)) * LOLELFFS_INODES_PER_BLOCK
     \<and> (\<forall>b \<in> free_blocks (sbi s). first_data s \<le> b + fs_offset (sbi s))
     \<and> (\<forall>k. fs_offset (sbi s) \<le> k \<and> k < fs_offset (sbi s) + unat (nr_blocks (sbi s)) \<longrightarrow> readable s k)"

lemma istore_sector_less:
  assumes "ino < nr_inodes (sbi s)" "unat (nr_inodes (sbi s)) \<le> unat (nr_istore_blocks (sbi s)) * LOLELFFS_INODES_PER_BLOCK"
  shows "istore_sector s ino < first_ifree s"
proof -
  have "unat ino < unat (nr_istore_blocks (sbi s)) * LOLELFFS_INODES_PER_BLOCK"
    using assms by (simp add: word_less_nat_alt)
  then have "unat ino div LOLELFFS_INODES_PER_BLOCK < unat (nr_istore_blocks (sbi s))"
    by (rule less_mult_imp_div_less)
  then show ?thesis by (simp add: istore_sector_def first_ifree_def)
qed

lemma first_le: "first_ifree s \<le> first_bfree s" "first_bfree s \<le> first_data s" "fs_offset (sbi s) < first_ifree s"
  by (simp_all add: first_data_def first_bfree_def first_ifree_def)

lemma first_cong:
  "nr_istore_blocks (sbi s) = nr_istore_blocks (sbi t) \<Longrightarrow> nr_ifree_blocks (sbi s) = nr_ifree_blocks (sbi t) \<Longrightarrow>
   nr_bfree_blocks (sbi s) = nr_bfree_blocks (sbi t) \<Longrightarrow> fs_offset (sbi s) = fs_offset (sbi t) \<Longrightarrow>
   first_ifree s = first_ifree t \<and> first_data s = first_data t"
  by (simp add: first_data_def first_bfree_def first_ifree_def)

lemma write_inode_data:
  assumes "unat (nr_inodes (sbi s)) \<le> unat (nr_istore_blocks (sbi s)) * LOLELFFS_INODES_PER_BLOCK" "first_data s \<le> k"
    and "lolelffs_write_inode s ino = (r, s')"
  shows "blocks s' k = blocks s k"
proof (cases "ino < nr_inodes (sbi s)")
  case True
  then have "k \<noteq> istore_sector s ino" using istore_sector_less [of ino s] first_le [of s] assms(1,2) by simp
  with assms(3) show ?thesis by (auto simp: write_inode_cases blocks_put_disk_inode split: if_splits)
next
  case False
  with assms(3) show ?thesis by (auto simp: write_inode_cases not_less)
qed

lemma sync_fs_data:
  assumes "mounted s" "first_data s \<le> k" "lolelffs_sync_fs s = (r, s')"
  shows "blocks s' k = blocks s k"
proof -
  obtain s1 where "lolelffs_sync_fs s = (Inr (), s1)" and
    b: "\<And>k. blocks s1 k =
          (if k = fs_offset (sbi s) then enc_super (flush_counters (sbi s) (disk_super s))
           else if first_ifree s \<le> k \<and> k < first_bfree s then chunk (ifree_bitmap (sbi s)) (k - first_ifree s)
           else if first_bfree s \<le> k \<and> k < first_data s then chunk (bfree_bitmap (sbi s)) (k - first_bfree s)
           else blocks s k)"
    using sync_fs_effect [OF assms(1)] by auto
  with assms(3) have "s' = s1" by simp
  with b [of k] assms(2) first_le [of s] show ?thesis by simp
qed

lemma mounted_cong:
  assumes "mounted s" "same_geometry (sbi s) (sbi t)" "readable t = readable s"
  shows "mounted t"
proof -
  have "first_data t = first_data s" using assms(2) first_cong [of t s] by (simp add: same_geometry_def)
  with assms show ?thesis by (simp add: mounted_def same_geometry_def)
qed

text \<open>The commit at the end of a creation changes no data block, and of the directory only times and links.\<close>

lemma create_commit_data:
  assumes "mounted s" "unat (nr_inodes (sbi s)) \<le> unat (nr_istore_blocks (sbi s)) * LOLELFFS_INODES_PER_BLOCK"
    and k: "first_data s \<le> k"
  shows "blocks (create_commit s dir ino mode) k = blocks s k"
proof -
  obtain r1 s1 where w1: "lolelffs_write_inode (mark_inode_dirty s ino) ino = (r1, s1)" by fastforce
  define s2 where "s2 = (if S_ISDIR mode then inc_nlink (touch s1 dir) dir else touch s1 dir)"
  obtain r3 s3 where w3: "lolelffs_write_inode (mark_inode_dirty s2 dir) dir = (r3, s3)" by fastforce
  obtain r4 s4 where w4: "lolelffs_sync_fs s3 = (r4, s4)" by fastforce
  have c: "create_commit s dir ino mode = s4" by (simp add: create_commit_def Let_def w1 w3 w4 s2_def [symmetric])
  note f1 = write_inode_frame [OF w1] and f3 = write_inode_frame [OF w3]
  have f2: "sbi s2 = sbi s1" "readable s2 = readable s1" "blocks s2 = blocks s1" by (simp_all add: s2_def inode_steps)
  have sb: "sbi s1 = sbi s" "sbi s3 = sbi s" "readable s3 = readable s"
    using f1 f2 f3 by (simp_all add: inode_steps)
  have fd: "first_data (mark_inode_dirty s ino) = first_data s" "first_data (mark_inode_dirty s2 dir) = first_data s"
      "first_data s3 = first_data s"
    using first_cong [of "mark_inode_dirty s ino" s] first_cong [of "mark_inode_dirty s2 dir" s] first_cong [of s3 s] sb f2
    by (simp_all add: inode_steps)
  have "blocks s1 k = blocks s k"
    using write_inode_data [OF _ _ w1, of k] assms fd by (simp add: inode_steps)
  moreover have "blocks s3 k = blocks s2 k"
    using write_inode_data [OF _ _ w3, of k] assms fd sb f2 by (simp add: inode_steps)
  moreover have "mounted s3" using mounted_cong [OF assms(1), of s3] sb by simp
  then have "blocks s4 k = blocks s3 k" using sync_fs_data [OF _ _ w4, of k] k fd by simp
  ultimately show ?thesis by (simp add: c f2)
qed

lemma create_commit_inodes:
  assumes "ino \<noteq> dir"
  shows "ci_ei_block (inode_of (create_commit s dir ino mode) dir) = ci_ei_block (inode_of s dir)"
    and "icache (create_commit s dir ino mode) ino \<noteq> None"
proof -
  obtain r1 s1 where w1: "lolelffs_write_inode (mark_inode_dirty s ino) ino = (r1, s1)" by fastforce
  define s2 where "s2 = (if S_ISDIR mode then inc_nlink (touch s1 dir) dir else touch s1 dir)"
  obtain r3 s3 where w3: "lolelffs_write_inode (mark_inode_dirty s2 dir) dir = (r3, s3)" by fastforce
  obtain r4 s4 where w4: "lolelffs_sync_fs s3 = (r4, s4)" by fastforce
  have c: "create_commit s dir ino mode = s4" by (simp add: create_commit_def Let_def w1 w3 w4 s2_def [symmetric])
  have ic: "icache s4 = icache (mark_inode_dirty s2 dir)" "icache s1 = icache (mark_inode_dirty s ino)"
    using write_inode_frame [OF w1] write_inode_frame [OF w3] sync_fs_frames [OF w4] by simp_all
  have i1: "inode_of s1 = inode_of (mark_inode_dirty s ino)" by (rule inode_of_cong [OF ic(2)])
  have i4: "inode_of s4 = inode_of (mark_inode_dirty s2 dir)" by (rule inode_of_cong [OF ic(1)])
  show "ci_ei_block (inode_of (create_commit s dir ino mode) dir) = ci_ei_block (inode_of s dir)"
    using assms i1 by (simp add: c i4 s2_def inode_steps)
  show "icache (create_commit s dir ino mode) ino \<noteq> None"
    using assms by (simp add: c ic s2_def inode_steps)
qed

section \<open>Slots of a directory\<close>

lemma sector_inj [simp]: "sector s a = sector s b \<longleftrightarrow> a = b"
  by (simp add: sector_def word_unat_eq_iff)

lemma length_files: "wf_dev s \<Longrightarrow> length (files (dir_at s k)) = LOLELFFS_FILES_PER_BLOCK"
  using dir_at_wf [of s k] by (simp add: wf_dir_def)

lemma slots_of_Cons: "slots_of s (b # bs) = files (dir_at s (sector s b)) @ slots_of s bs"
  by (simp add: slots_of_def)

lemma length_slots_of: "wf_dev s \<Longrightarrow> length (slots_of s bs) = LOLELFFS_FILES_PER_BLOCK * length bs"
  by (induction bs) (simp_all add: slots_of_Cons length_files slots_of_def [of s "[]"])

lemma nth_slots_of:
  assumes "wf_dev s" "i < length bs" "j < LOLELFFS_FILES_PER_BLOCK"
  shows "slots_of s bs ! (LOLELFFS_FILES_PER_BLOCK * i + j) = files (dir_at s (sector s (bs ! i))) ! j"
  using assms(2)
proof (induction bs arbitrary: i)
  case (Cons b bs)
  show ?case
  proof (cases i)
    case 0
    with assms(1,3) show ?thesis by (simp add: slots_of_Cons nth_append length_files)
  next
    case (Suc i')
    with Cons assms(1) show ?thesis by (simp add: slots_of_Cons nth_append length_files add.assoc)
  qed
qed simp

lemma nth_slots:
  assumes "wf_dev s" "i < LOLELFFS_FILES_PER_BLOCK * length bs"
  shows "slots_of s bs ! i = files (dir_at s (sector s (bs ! (i div LOLELFFS_FILES_PER_BLOCK)))) ! (i mod LOLELFFS_FILES_PER_BLOCK)"
proof -
  have "i div LOLELFFS_FILES_PER_BLOCK < length bs"
    using assms(2) by (simp add: less_mult_imp_div_less mult.commute)
  moreover have "i mod LOLELFFS_FILES_PER_BLOCK < LOLELFFS_FILES_PER_BLOCK" by (simp add: files_per_block)
  ultimately show ?thesis using nth_slots_of [OF assms(1)] by (metis mult_div_mod_eq)
qed

lemma length_extent_blocks [simp]: "length (extent_blocks e) = unat (ee_len e)"
  by (simp add: extent_blocks_def)

lemma nth_extent_blocks: "i < unat (ee_len e) \<Longrightarrow> extent_blocks e ! i = ee_start e + of_nat i"
  by (simp add: extent_blocks_def)

lemma data_blocks_single:
  assumes "wf_ei (ei_at s kd)" "ee_start (extents (ei_at s kd) ! 0) \<noteq> 0" "ee_start (extents (ei_at s kd) ! 1) = 0"
  shows "data_blocks s kd = extent_blocks (extents (ei_at s kd) ! 0)"
proof -
  have "2 \<le> length (extents (ei_at s kd))" using assms(1) by (simp add: wf_ei_def max_extents)
  then obtain e0 e1 es where "extents (ei_at s kd) = e0 # e1 # es"
    by (cases "extents (ei_at s kd)"; cases "tl (extents (ei_at s kd))") auto
  with assms show ?thesis by (simp add: data_blocks_def live_extents_def)
qed

text \<open>Writing an entry changes the entry's position and the number of files, nothing else.\<close>

lemma write_entry_effect:
  assumes wf: "wf_dev s" and "k \<noteq> kd"
  shows "ei_at (write_entry s kd k fi ino nm) kd = (ei_at s kd)\<lparr>nr_files := nr_files (ei_at s kd) + 1\<rparr>"
    and "fi < LOLELFFS_FILES_PER_BLOCK \<Longrightarrow> j \<noteq> kd \<Longrightarrow>
      files (dir_at (write_entry s kd k fi ino nm) j) =
        (if j = k then (files (dir_at s k))[fi := (files (dir_at s k) ! fi)\<lparr>inode := ino, filename := strncpy nm LOLELFFS_FILENAME_LEN\<rparr>]
         else files (dir_at s j))"
  using assms(2) wf_dir_set_entry [OF dir_at_wf [OF wf]] ei_at_wf [OF wf]
  by (simp_all add: write_entry_def set_entry_def Let_def ei_at_put ei_at_put_dir dir_at_put dir_at_put_ei)

section \<open>Small directories\<close>

text \<open>
  A directory with at most one extent of eight blocks and so at most 120 entries: the entries
  fill the first positions, and its data blocks are readable data blocks of the file system that
  are not free.
\<close>

definition small_dir :: "fs \<Rightarrow> nat \<Rightarrow> bool" where
  "small_dir s kd \<longleftrightarrow>
     (let eb = ei_at s kd; n = unat (nr_files eb); e = extents eb ! 0
      in n \<le> 120 \<and> ee_start (extents eb ! 1) = 0
         \<and> (if ee_start e = 0 then n = 0
            else ee_len e = 8 \<and> (\<forall>i < n. inode (dir_slots s kd ! i) \<noteq> 0)
              \<and> (\<forall>b \<in> set (extent_blocks e). readable s (sector s b) \<and> first_data s \<le> sector s b
                    \<and> sector s b \<noteq> kd \<and> unat b \<notin> free_blocks (sbi s))))"

lemma entry_small:
  "n < 120 \<Longrightarrow> entry_ei n = 0 \<and> entry_bi n = n div LOLELFFS_FILES_PER_BLOCK \<and> entry_fi n = n mod LOLELFFS_FILES_PER_BLOCK"
  by (simp add: entry_ei_def entry_bi_def entry_fi_def files_per_ext)

text \<open>How a successful creation proceeds.\<close>

lemma create_success:
  assumes "lolelffs_create ker s dir nm mode = (Inr ino, s')" and mode: "\<not> S_ISLNK mode" and inv: "sbi_inv (sbi s)"
    and kd: "kd = sector s (ci_ei_block (inode_of s dir))"
  obtains s1 e s2 where "length nm \<le> LOLELFFS_FILENAME_LEN" "readable s kd"
    "lolelffs_new_inode ker s dir mode = (Inr ino, s1)" "e = ci_ei_block (inode_of s1 ino)" "ino \<noteq> 0" "e \<noteq> 0"
    "taken (sbi s) {unat e} {unat ino} (sbi s1)" "blocks s1 = blocks s" "readable s1 = readable s" "sector s1 = sector s"
    "add_entry (store s1 (sector s e) zero_block) kd nm ino = (Inr (), s2)" "s' = create_commit s2 dir ino mode"
proof -
  obtain rn s1 where new: "lolelffs_new_inode ker s dir mode = (rn, s1)" by fastforce
  with assms(1) have rn: "rn = Inr ino"
    by (auto simp: lolelffs_create_def Let_def split: if_splits sum.splits prod.splits)
  let ?e = "ci_ei_block (inode_of s1 ino)"
  have t: "ino \<noteq> 0" "?e \<noteq> 0" "taken (sbi s) {unat ?e} {unat ino} (sbi s1)"
    using new_inode_taken [OF inv new] rn mode by simp_all
  have sec: "sector s1 = sector s" using t(3) by (intro sector_cong) (simp add: taken_def same_geometry_def)
  obtain ra s2 where add: "add_entry (store s1 (sector s ?e) zero_block) kd nm ino = (ra, s2)" by fastforce
  have "ra = Inr ()" "s' = create_commit s2 dir ino mode" "length nm \<le> LOLELFFS_FILENAME_LEN" "readable s kd"
    using assms(1) new rn add unfolding kd
    by (auto simp: lolelffs_create_def Let_def sec split: if_splits sum.splits prod.splits)
  with that [OF _ _ _ refl t _ _ sec] new rn add wf_dev_new_inode [OF new] show ?thesis by simp
qed

lemma data_blocks_small:
  assumes "wf_dev s" "ee_start (extents (ei_at s kd) ! 1) = 0"
  shows "data_blocks s kd = (if ee_start (extents (ei_at s kd) ! 0) = 0 then [] else extent_blocks (extents (ei_at s kd) ! 0))"
proof (cases "ee_start (extents (ei_at s kd) ! 0) = 0")
  case True
  have "extents (ei_at s kd) \<noteq> []" using ei_at_wf [OF assms(1), of kd] by (auto simp: wf_ei_def max_extents)
  with True show ?thesis by (cases "extents (ei_at s kd)") (simp_all add: data_blocks_def live_extents_def)
next
  case False
  with data_blocks_single [OF ei_at_wf [OF assms(1)] False assms(2)] show ?thesis by simp
qed

text \<open>The names a directory holds by its own count of files.\<close>

definition names :: "fs \<Rightarrow> nat \<Rightarrow> (bytes \<times> u32) list" where
  "names s kd = map (\<lambda>f. (cstr (filename f), inode f)) (take (unat (nr_files (ei_at s kd))) (dir_slots s kd))"

text \<open>A directory depends on its own blocks only.\<close>

lemma dir_frame:
  assumes "\<forall>k \<in> dir_sectors s kd. blocks t k = blocks s k" "sector t = sector s"
  shows "ei_at t kd = ei_at s kd" "data_blocks t kd = data_blocks s kd" "dir_slots t kd = dir_slots s kd"
    "names t kd = names s kd"
proof -
  show e: "ei_at t kd = ei_at s kd" using assms(1) by (simp add: ei_at_def dir_sectors_def)
  then show d: "data_blocks t kd = data_blocks s kd" by (simp add: data_blocks_def)
  have "dir_at t (sector s b) = dir_at s (sector s b)" if "b \<in> set (data_blocks s kd)" for b
    using assms(1) that by (auto simp: dir_at_def dir_sectors_def data_blocks_def)
  then show sl: "dir_slots t kd = dir_slots s kd"
    unfolding dir_slots_def slots_of_def d assms(2) by (metis (mono_tags, lifting) map_cong)
  show "names t kd = names s kd" by (simp add: names_def e sl)
qed

lemma small_dir_frame:
  assumes "small_dir s kd" "\<forall>k \<in> dir_sectors s kd. blocks t k = blocks s k" "same_geometry (sbi s) (sbi t)"
    "readable t = readable s" "free_blocks (sbi t) \<subseteq> free_blocks (sbi s)"
  shows "small_dir t kd"
proof -
  have sec: "sector t = sector s" using assms(3) by (intro sector_cong) (simp add: same_geometry_def)
  note d = dir_frame [OF assms(2) sec]
  have "first_data t = first_data s" using assms(3) first_cong [of t s] by (simp add: same_geometry_def)
  with assms d sec show ?thesis by (auto simp: small_dir_def Let_def split: if_splits)
qed

lemma fs_ok_cong:
  assumes "fs_ok s" "wf_dev t" "sbi_inv (sbi t)" "same_geometry (sbi s) (sbi t)" "readable t = readable s"
    "free_blocks (sbi t) \<subseteq> free_blocks (sbi s)"
  shows "fs_ok t"
proof -
  have "first_data t = first_data s" using assms(4) first_cong [of t s] by (simp add: same_geometry_def)
  moreover have "mounted t" using mounted_cong [OF _ assms(4,5)] assms(1) by (simp add: fs_ok_def)
  ultimately show ?thesis using assms by (auto simp: fs_ok_def same_geometry_def)
qed

lemma free_block_ok:
  assumes "fs_ok s" "unat b \<in> free_blocks (sbi s)"
  shows "readable s (sector s b)" "first_data s \<le> sector s b"
  using assms by (auto simp: fs_ok_def free_blocks_def mem_free_bits sector_def)

text \<open>The entry's position among the slots.\<close>

lemma write_entry_slots:
  assumes wf: "wf_dev s" and bs: "data_blocks s kd = bs" "distinct bs" "\<forall>b \<in> set bs. sector s b \<noteq> kd"
    and n: "n < LOLELFFS_FILES_PER_BLOCK * length bs"
    and k: "k = sector s (bs ! (n div LOLELFFS_FILES_PER_BLOCK))"
    and s': "s' = write_entry s kd k (n mod LOLELFFS_FILES_PER_BLOCK) ino nm"
  shows "\<exists>f. dir_slots s' kd = (dir_slots s kd)[n := f] \<and> inode f = ino \<and> filename f = strncpy nm LOLELFFS_FILENAME_LEN"
    and "data_blocks s' kd = bs"
proof -
  let ?F = LOLELFFS_FILES_PER_BLOCK
  have q: "n div ?F < length bs" using n by (simp add: less_mult_imp_div_less mult.commute)
  have r: "n mod ?F < ?F" by (simp add: files_per_block)
  have "bs ! (n div ?F) \<in> set bs" using q by simp
  then have kk: "k \<noteq> kd" using bs(3) k by simp
  note eff = write_entry_effect [OF wf kk]
  have e: "extents (ei_at s' kd) = extents (ei_at s kd)" by (simp add: s' eff)
  then show d: "data_blocks s' kd = bs" using bs(1) by (simp add: data_blocks_def live_extents_def)
  have sec: "sector s' = sector s" by (rule sector_eq) (simp add: s')
  have wf': "wf_dev s'" by (simp add: s' wf)
  let ?f = "(files (dir_at s k) ! (n mod ?F))\<lparr>inode := ino, filename := strncpy nm LOLELFFS_FILENAME_LEN\<rparr>"
  have "slots_of s' bs = (slots_of s bs)[n := ?f]"
  proof (rule nth_equalityI)
    show "length (slots_of s' bs) = length ((slots_of s bs)[n := ?f])" by (simp add: length_slots_of wf wf')
    fix i assume "i < length (slots_of s' bs)"
    then have i: "i < ?F * length bs" by (simp add: length_slots_of wf')
    have qi: "i div ?F < length bs" using i by (simp add: less_mult_imp_div_less mult.commute)
    have ji: "sector s (bs ! (i div ?F)) \<noteq> kd" using bs(3) qi by simp
    have "sector s (bs ! (i div ?F)) = k \<longleftrightarrow> i div ?F = n div ?F"
      using k q qi bs(2) by (simp add: nth_eq_iff_index_eq)
    moreover have "i = n \<longleftrightarrow> i div ?F = n div ?F \<and> i mod ?F = n mod ?F" by (metis mult_div_mod_eq)
    moreover have "slots_of s' bs ! i = files (dir_at s' (sector s (bs ! (i div ?F)))) ! (i mod ?F)"
      using i by (simp add: nth_slots wf' sec)
    ultimately show "slots_of s' bs ! i = (slots_of s bs)[n := ?f] ! i"
      using i n r length_files [OF wf] eff(2) [where ino = ino and nm = nm, OF r ji, folded s']
      by (auto simp: nth_slots wf length_slots_of nth_list_update)
  qed
  then have "dir_slots s' kd = (dir_slots s kd)[n := ?f]" by (simp add: dir_slots_def d bs(1))
  then show "\<exists>f. dir_slots s' kd = (dir_slots s kd)[n := f] \<and> inode f = ino \<and> filename f = strncpy nm LOLELFFS_FILENAME_LEN"
    by (intro exI [of _ ?f]) simp
qed

lemma distinct_extent_blocks: "distinct (extent_blocks e)"
proof -
  have "inj_on (\<lambda>i. ee_start e + of_nat i :: u32) {0..<unat (ee_len e)}"
  proof (rule inj_onI)
    fix x y assume "x \<in> {0..<unat (ee_len e)}" "y \<in> {0..<unat (ee_len e)}" "ee_start e + of_nat x = ee_start e + (of_nat y :: u32)"
    moreover from this have "x < 4294967296" "y < 4294967296" using unat_u32_less [of "ee_len e"] by (auto intro: less_trans)
    ultimately show "x = y" by (metis add_left_cancel unat_of_nat_u32)
  qed
  then show ?thesis by (simp add: extent_blocks_def distinct_map)
qed

text \<open>Within the file system an extent's blocks are the numbers of its range.\<close>

lemma extent_blocks_range:
  assumes "unat (ee_start e) + unat (ee_len e) \<le> 4294967296" "a \<in> set (extent_blocks e)"
  shows "unat a \<in> range_of (ee_start e) (ee_len e)"
proof -
  obtain i where i: "i < unat (ee_len e)" "a = ee_start e + of_nat i" using assms(2) by (auto simp: extent_blocks_def)
  then have "unat (of_nat i :: u32) = i" using unat_u32_less [of "ee_len e"] by (intro unat_of_nat_u32) (rule less_trans)
  with i assms(1) show ?thesis using unat_add_u32 [of "ee_start e" "of_nat i"] by (simp add: range_of_def)
qed

lemma free_range_bound:
  assumes "range_of a len \<subseteq> free_blocks b" "len \<noteq> 0"
  shows "unat a + unat len \<le> unat (nr_blocks b)"
proof -
  have "0 < unat len" using assms(2) by (simp add: unat_gt_0)
  then have "unat a + (unat len - 1) \<in> range_of a len" by (simp add: range_of_def)
  with assms(1) have "unat a + (unat len - 1) < unat (nr_blocks b)" by (auto simp: free_blocks_def mem_free_bits)
  with \<open>0 < unat len\<close> show ?thesis by linarith
qed

lemma free_extent_blocks:
  assumes "range_of (ee_start e) (ee_len e) \<subseteq> free_blocks b" "a \<in> set (extent_blocks e)"
  shows "unat a \<in> range_of (ee_start e) (ee_len e)"
proof -
  have "ee_len e \<noteq> 0" using assms(2) by (auto simp: extent_blocks_def)
  with free_range_bound [OF assms(1)] unat_u32_less [of "nr_blocks b"]
  show ?thesis by (intro extent_blocks_range assms(2)) linarith
qed

text \<open>Adding an entry to a small directory: first the extent, if there is none yet, then the entry.\<close>

lemma small_new_extent:
  assumes ok: "fs_ok s" and dir: "small_dir s kd" "ee_start (extents (ei_at s kd) ! 0) = 0"
    and kd: "kd = sector s c" "unat c \<notin> free_blocks (sbi s)"
    and g: "get_free_blocks (sbi s) 8 = (bno, b)" "bno \<noteq> 0"
    and t: "t = put_ei (set_sbi s b) kd (new_extent (ei_at s kd) 0 bno)"
  shows "small_dir t kd" "fs_ok t" "names t kd = names s kd" "ei_at t kd = new_extent (ei_at s kd) 0 bno"
proof -
  have wf: "wf_dev s" and inv: "sbi_inv (sbi s)" using ok by (simp_all add: fs_ok_def)
  have tk: "taken (sbi s) (range_of bno 8) {} b" using get_free_blocks_taken [OF inv g(1)] g(2) by simp
  have wfe: "wf_ei (new_extent (ei_at s kd) 0 bno)" by (intro wf_new_extent ei_at_wf wf)
  show e: "ei_at t kd = new_extent (ei_at s kd) 0 bno" by (simp add: t ei_at_put wfe)
  have sb: "sbi t = b" "readable t = readable s" by (simp_all add: t)
  have "wf_dev (set_sbi s b)" by (rule wf_dev_blocks [OF wf]) simp
  then have wft: "wf_dev t" by (simp add: t wfe)
  show "fs_ok t" using fs_ok_cong [OF ok wft] tk sb by (auto simp: taken_def)
  have n0: "nr_files (ei_at s kd) = 0" using dir by (simp add: small_dir_def Let_def unat_eq_0)
  note x = nth_new_extent [OF ei_at_wf [OF wf], of 0 kd bno]
  have m: "(0::nat) < LOLELFFS_MAX_EXTENTS" by (simp add: max_extents)
  show "names t kd = names s kd" using x m n0 by (simp add: names_def e)
  have sec: "sector t = sector s" using tk sb by (intro sector_cong) (simp add: taken_def same_geometry_def)
  have fd: "first_data t = first_data s" using tk sb first_cong [of t s] by (simp add: taken_def same_geometry_def)
  have "readable t (sector t a) \<and> first_data t \<le> sector t a \<and> sector t a \<noteq> kd \<and> unat a \<notin> free_blocks (sbi t)"
    if "a \<in> set (extent_blocks (extents (ei_at t kd) ! 0))" for a
  proof -
    have "unat a \<in> range_of bno 8"
      using free_extent_blocks [OF _ that, of "sbi s"] x m tk by (simp add: e taken_def)
    with tk have f: "unat a \<in> free_blocks (sbi s)" "unat a \<notin> free_blocks (sbi t)" by (auto simp: taken_def sb)
    with free_block_ok [OF ok f(1)] kd show ?thesis by (auto simp: sec fd sb)
  qed
  with dir x m n0 g(2) show "small_dir t kd" by (simp add: small_dir_def Let_def e)
qed

lemma add_entry_small:
  assumes ok: "fs_ok s" and dir: "small_dir s kd" "unat (nr_files (ei_at s kd)) = n" "n < 120"
    and kd: "kd = sector s c" "unat c \<notin> free_blocks (sbi s)"
    and add: "add_entry s kd nm ino = (Inr (), s')"
  obtains t bs where "small_dir t kd" "fs_ok t" "names t kd = names s kd" "nr_files (ei_at t kd) = nr_files (ei_at s kd)"
    "ee_start (extents (ei_at t kd) ! 0) \<noteq> 0" "bs = extent_blocks (extents (ei_at t kd) ! 0)"
    "s' = write_entry t kd (sector t (bs ! (n div LOLELFFS_FILES_PER_BLOCK))) (n mod LOLELFFS_FILES_PER_BLOCK) ino nm"
    "\<And>k. k \<noteq> kd \<Longrightarrow> blocks t k = blocks s k" "free_blocks (sbi t) \<subseteq> free_blocks (sbi s)" "icache t = icache s"
    "free_inodes (sbi t) = free_inodes (sbi s)"
    "\<forall>b \<in> set bs. b \<in> set (data_blocks s kd) \<or> unat b \<in> free_blocks (sbi s)"
proof -
  have wf: "wf_dev s" and inv: "sbi_inv (sbi s)" using ok by (simp_all add: fs_ok_def)
  have m: "(0::nat) < LOLELFFS_MAX_EXTENTS" by (simp add: max_extents)
  note pos = entry_small [OF dir(3)]
  have nb: "n div LOLELFFS_FILES_PER_BLOCK < 8" using dir(3) by (simp add: files_per_block)
  show thesis
  proof (cases "ee_start (extents (ei_at s kd) ! 0) = 0")
    case True
    obtain bno b where g: "get_free_blocks (sbi s) 8 = (bno, b)" by fastforce
    define t where "t = put_ei (set_sbi s b) kd (new_extent (ei_at s kd) 0 bno)"
    have n0: "n = 0" using dir True by (simp add: small_dir_def Let_def)
    from add_entry_new [OF dir(2) [symmetric], of bno b t _ nm ino] True m pos wf g add
    have b: "bno \<noteq> 0" and s': "s' = write_entry t kd (sector t (bno + of_nat (entry_bi n))) (entry_fi n) ino nm"
      by (auto simp: t_def split: if_splits)
    note t = small_new_extent [OF ok dir(1) True kd g b t_def]
    note x = nth_new_extent [OF ei_at_wf [OF wf] m, of kd bno]
    have tk: "taken (sbi s) (range_of bno 8) {} b" using get_free_blocks_taken [OF inv g] b by simp
    let ?bs = "extent_blocks (extents (ei_at t kd) ! 0)"
    have "?bs ! 0 = bno" using x by (simp add: t(4) nth_extent_blocks)
    then have s'': "s' = write_entry t kd (sector t (?bs ! (n div LOLELFFS_FILES_PER_BLOCK))) (n mod LOLELFFS_FILES_PER_BLOCK) ino nm"
      using s' n0 pos by simp
    have tf: "sbi t = b" "icache t = icache s" "\<And>k. k \<noteq> kd \<Longrightarrow> blocks t k = blocks s k"
      by (simp_all add: t_def put_ei_def)
    show thesis
    proof (rule that [OF t(1-3) _ _ refl s''])
      show "\<forall>a \<in> set ?bs. a \<in> set (data_blocks s kd) \<or> unat a \<in> free_blocks (sbi s)"
      proof
        fix a assume a: "a \<in> set ?bs"
        have "unat a \<in> range_of bno 8"
          using free_extent_blocks [OF _ a, of "sbi s"] x tk by (simp add: t(4) taken_def)
        with tk show "a \<in> set (data_blocks s kd) \<or> unat a \<in> free_blocks (sbi s)" by (auto simp: taken_def)
      qed
    qed (use x b tk in \<open>auto simp: t(4) tf taken_def\<close>)
  next
    case False
    let ?bs = "extent_blocks (extents (ei_at s kd) ! 0)"
    have "ee_len (extents (ei_at s kd) ! 0) = 8" using dir False by (simp add: small_dir_def Let_def)
    then have k: "?bs ! (n div LOLELFFS_FILES_PER_BLOCK) = ee_start (extents (ei_at s kd) ! 0) + of_nat (entry_bi n)"
      using nb pos by (simp add: nth_extent_blocks)
    have s': "s' = write_entry s kd (sector s (?bs ! (n div LOLELFFS_FILES_PER_BLOCK))) (n mod LOLELFFS_FILES_PER_BLOCK) ino nm"
      using add_entry_old [OF dir(2) [symmetric], of _ nm ino] False m pos add k by (auto split: if_splits)
    have "data_blocks s kd = ?bs" using data_blocks_small [OF wf] dir(1) False by (simp add: small_dir_def Let_def)
    with that [OF dir(1) ok refl refl False refl s'] show thesis by simp
  qed
qed

lemma new_inode_other:
  assumes "lolelffs_new_inode ker s dir mode = (Inr ino, s')" "j \<noteq> ino"
  shows "icache s' j = icache s j"
  using assms
  by (auto simp: lolelffs_new_inode_def Let_def lolelffs_iget_def kmalloc_def
      split: if_splits prod.splits sum.splits option.splits list.splits)

lemma wf_dev_write_inode: "wf_dev s \<Longrightarrow> lolelffs_write_inode s ino = (r, s') \<Longrightarrow> wf_dev s'"
  by (auto simp: write_inode_cases wf_disk_of_vinode split: if_splits)

lemma length_chunk: "(i + 1) * BITS_PER_BLOCK \<le> length bm \<Longrightarrow> length (chunk bm i) = LOLELFFS_BLOCK_SIZE"
  unfolding chunk_def by (intro bmc.length_enc) simp

lemma wf_dev_sync_fs:
  assumes "mounted s" "wf_dev s" "lolelffs_sync_fs s = (r, s')"
  shows "wf_dev s'"
proof -
  obtain s1 where s1: "lolelffs_sync_fs s = (Inr (), s1)" and
    b: "\<And>k. blocks s1 k =
          (if k = fs_offset (sbi s) then enc_super (flush_counters (sbi s) (disk_super s))
           else if first_ifree s \<le> k \<and> k < first_bfree s then chunk (ifree_bitmap (sbi s)) (k - first_ifree s)
           else if first_bfree s \<le> k \<and> k < first_data s then chunk (bfree_bitmap (sbi s)) (k - first_bfree s)
           else blocks s k)"
    using sync_fs_effect [OF assms(1)] by auto
  have len: "length (ifree_bitmap (sbi s)) = (first_bfree s - first_ifree s) * BITS_PER_BLOCK"
      "length (bfree_bitmap (sbi s)) = (first_data s - first_bfree s) * BITS_PER_BLOCK"
    using assms(1) by (simp_all add: mounted_def first_data_def first_bfree_def)
  have "length (chunk (ifree_bitmap (sbi s)) i) = LOLELFFS_BLOCK_SIZE" if "i < first_bfree s - first_ifree s" for i
    by (rule length_chunk, unfold len, rule mult_le_mono1) (use that in simp)
  moreover have "length (chunk (bfree_bitmap (sbi s)) i) = LOLELFFS_BLOCK_SIZE" if "i < first_data s - first_bfree s" for i
    by (rule length_chunk, unfold len, rule mult_le_mono1) (use that in simp)
  moreover have "length (enc_super (flush_counters (sbi s) (disk_super s))) = LOLELFFS_BLOCK_SIZE"
    unfolding disk_super_def by (intro suc.length_enc wf_super_flush suc.ok_dec wf_devD assms(2))
  ultimately have "length (blocks s1 k) = LOLELFFS_BLOCK_SIZE" for k
    using wf_devD [OF assms(2), of k] by (auto simp: b diff_less_mono)
  with s1 assms(3) show ?thesis by (simp add: wf_dev_def)
qed

lemma wf_dev_create_commit:
  assumes "mounted s" "wf_dev s"
  shows "wf_dev (create_commit s dir ino mode)"
proof -
  obtain r1 s1 where w1: "lolelffs_write_inode (mark_inode_dirty s ino) ino = (r1, s1)" by fastforce
  define s2 where "s2 = (if S_ISDIR mode then inc_nlink (touch s1 dir) dir else touch s1 dir)"
  obtain r3 s3 where w3: "lolelffs_write_inode (mark_inode_dirty s2 dir) dir = (r3, s3)" by fastforce
  have "wf_dev s1" by (rule wf_dev_write_inode [OF _ w1]) (rule wf_dev_blocks [OF assms(2)], simp add: inode_steps)
  then have "wf_dev (mark_inode_dirty s2 dir)" by (rule wf_dev_blocks) (simp add: s2_def inode_steps)
  then have wf3: "wf_dev s3" by (rule wf_dev_write_inode [OF _ w3])
  have "mounted s3"
    using mounted_cong [OF assms(1), of s3] write_inode_frame [OF w1] write_inode_frame [OF w3]
    by (simp add: s2_def inode_steps)
  then have "wf_dev (snd (lolelffs_sync_fs s3))" using wf_dev_sync_fs [OF _ wf3] by (metis prod.collapse)
  then show ?thesis by (simp add: create_commit_def Let_def w1 w3 s2_def [symmetric])
qed

lemma take_Suc_update: "n < length xs \<Longrightarrow> take (Suc n) (xs[n := v]) = take n xs @ [v]"
  by (simp add: take_Suc_conv_app_nth)

lemma small_dirD:
  assumes "small_dir s kd" "wf_dev s" "ee_start (extents (ei_at s kd) ! 0) \<noteq> 0"
  shows "data_blocks s kd = extent_blocks (extents (ei_at s kd) ! 0)" "length (dir_slots s kd) = 120"
    "ee_len (extents (ei_at s kd) ! 0) = 8" "\<And>i. i < unat (nr_files (ei_at s kd)) \<Longrightarrow> inode (dir_slots s kd ! i) \<noteq> 0"
proof -
  show "data_blocks s kd = extent_blocks (extents (ei_at s kd) ! 0)" "ee_len (extents (ei_at s kd) ! 0) = 8"
      "\<And>i. i < unat (nr_files (ei_at s kd)) \<Longrightarrow> inode (dir_slots s kd ! i) \<noteq> 0"
    using data_blocks_small [OF assms(2)] assms(1,3) by (simp_all add: small_dir_def Let_def)
  then show "length (dir_slots s kd) = 120" by (simp add: dir_slots_def length_slots_of assms(2) files_per_block)
qed

lemma length_names:
  assumes "small_dir s kd" "wf_dev s"
  shows "length (names s kd) = unat (nr_files (ei_at s kd))"
proof (cases "ee_start (extents (ei_at s kd) ! 0) = 0")
  case True
  with assms(1) show ?thesis by (simp add: small_dir_def names_def Let_def)
next
  case False
  with small_dirD(2) [OF assms False] assms(1) show ?thesis by (simp add: small_dir_def names_def Let_def)
qed

lemma write_entry_small:
  assumes ok: "fs_ok t" and dir: "small_dir t kd" "unat (nr_files (ei_at t kd)) = n" "n < 120"
    and e: "ee_start (extents (ei_at t kd) ! 0) \<noteq> 0" and bs: "bs = extent_blocks (extents (ei_at t kd) ! 0)"
    and nm: "is_cstr nm" "length nm \<le> LOLELFFS_FILENAME_LEN" "ino \<noteq> 0"
    and s': "s' = write_entry t kd (sector t (bs ! (n div LOLELFFS_FILES_PER_BLOCK))) (n mod LOLELFFS_FILES_PER_BLOCK) ino nm"
  shows "names s' kd = names t kd @ [(nm, ino)]" "small_dir s' kd" "unat (nr_files (ei_at s' kd)) = Suc n"
proof -
  have wf: "wf_dev t" using ok by (simp add: fs_ok_def)
  note D = small_dirD [OF dir(1) wf e]
  have len: "length bs = 8" using D(3) by (simp add: bs)
  have out: "\<forall>b \<in> set bs. sector t b \<noteq> kd" using dir(1) e bs by (simp add: small_dir_def Let_def)
  have q: "n div LOLELFFS_FILES_PER_BLOCK < length bs" using dir(3) len by (simp add: files_per_block)
  then have k: "sector t (bs ! (n div LOLELFFS_FILES_PER_BLOCK)) \<noteq> kd" using out by simp
  have nn: "n < LOLELFFS_FILES_PER_BLOCK * length bs" using dir(3) len by (simp add: files_per_block)
  have bs': "data_blocks t kd = bs" "distinct bs" using D(1) distinct_extent_blocks by (simp_all add: bs)
  obtain f where f: "dir_slots s' kd = (dir_slots t kd)[n := f]" "inode f = ino" "filename f = strncpy nm LOLELFFS_FILENAME_LEN"
    using write_entry_slots(1) [OF wf bs' out nn refl s'] by auto
  have x: "ei_at s' kd = (ei_at t kd)\<lparr>nr_files := nr_files (ei_at t kd) + 1\<rparr>"
    using write_entry_effect(1) [OF wf k] by (simp add: s')
  show n': "unat (nr_files (ei_at s' kd)) = Suc n"
    using unat_add_u32 [of "nr_files (ei_at t kd)" 1] dir by (simp add: x)
  show "names s' kd = names t kd @ [(nm, ino)]"
    using take_Suc_update [of n "dir_slots t kd" f] D(2) dir(2,3) f cstr_strncpy [OF nm(1,2)]
    by (simp add: names_def n')
  have "extents (ei_at s' kd) = extents (ei_at t kd)" by (simp add: x)
  moreover have "first_data s' = first_data t" "sector s' = sector t" "sbi s' = sbi t" "readable s' = readable t"
    using first_cong [of s' t] sector_eq [of s' t] by (simp_all add: s')
  ultimately show "small_dir s' kd"
    using dir D(2-4) e f nm(3) by (auto simp: small_dir_def Let_def n' nth_list_update less_Suc_eq)
qed

lemma add_entry_names:
  assumes ok: "fs_ok s" and dir: "small_dir s kd" "unat (nr_files (ei_at s kd)) < 120"
    and kd: "kd = sector s c" "unat c \<notin> free_blocks (sbi s)" "first_data s \<le> kd"
    and nm: "is_cstr nm" "length nm \<le> LOLELFFS_FILENAME_LEN" "ino \<noteq> 0"
    and add: "add_entry s kd nm ino = (Inr (), s')"
  shows "names s' kd = names s kd @ [(nm, ino)]" "small_dir s' kd" "fs_ok s'"
    "\<And>k. k \<in> dir_sectors s' kd \<Longrightarrow> first_data s' \<le> k"
proof -
  define n where "n = unat (nr_files (ei_at s kd))"
  obtain t bs where t: "small_dir t kd" "fs_ok t" "names t kd = names s kd" "nr_files (ei_at t kd) = nr_files (ei_at s kd)"
    "ee_start (extents (ei_at t kd) ! 0) \<noteq> 0" "bs = extent_blocks (extents (ei_at t kd) ! 0)"
    "s' = write_entry t kd (sector t (bs ! (n div LOLELFFS_FILES_PER_BLOCK))) (n mod LOLELFFS_FILES_PER_BLOCK) ino nm"
    using add_entry_small [OF ok dir(1) n_def [symmetric] dir(2) [folded n_def] kd(1,2) add] by metis
  note w = write_entry_small [OF t(2,1) _ dir(2) [folded n_def] t(5,6) nm t(7)]
  show "names s' kd = names s kd @ [(nm, ino)]" and sm: "small_dir s' kd" using w(1,2) t(3,4) by (simp_all add: n_def)
  have wf: "wf_dev t" using t(2) by (simp add: fs_ok_def)
  then show ok': "fs_ok s'" using fs_ok_cong [OF t(2), of s'] t(2) by (simp add: t(7) fs_ok_def)
  have geo: "same_geometry (sbi s) (sbi s')"
    using add_entry_taken [OF _ _ add] ok by (auto simp: fs_ok_def taken_def)
  then have fd: "first_data s' = first_data s" using first_cong [of s' s] by (simp add: same_geometry_def)
  fix k assume k: "k \<in> dir_sectors s' kd"
  show "first_data s' \<le> k"
  proof (cases "k = kd")
    case True
    with kd(3) show ?thesis by (simp add: fd)
  next
    case False
    with k obtain b where b: "b \<in> set (data_blocks s' kd)" "k = sector s' b" by (auto simp: dir_sectors_def data_blocks_def)
    with data_blocks_small [of s' kd] sm ok' show ?thesis
      by (auto simp: small_dir_def Let_def fs_ok_def split: if_splits)
  qed
qed

text \<open>A creation, on a small directory of a consistent file system.\<close>

definition dir_ok :: "fs \<Rightarrow> u32 \<Rightarrow> bool" where
  "dir_ok s dir \<longleftrightarrow>
     (let c = ci_ei_block (inode_of s dir); kd = sector s c
      in small_dir s kd \<and> readable s kd \<and> first_data s \<le> kd \<and> unat c \<notin> free_blocks (sbi s) \<and> unat dir \<notin> free_inodes (sbi s))"

definition dir_kd :: "fs \<Rightarrow> u32 \<Rightarrow> nat" where
  "dir_kd s dir = sector s (ci_ei_block (inode_of s dir))"

definition nr_entries :: "fs \<Rightarrow> u32 \<Rightarrow> nat" where
  "nr_entries s dir = unat (nr_files (ei_at s (dir_kd s dir)))"

text \<open>The state in which \<open>lolelffs_create\<close> adds the entry: inode and index block are taken, the latter zeroed.\<close>

lemma create_mid:
  assumes ok: "fs_ok s" and dir: "dir_ok s dir" and kd: "kd = dir_kd s dir"
    and new: "lolelffs_new_inode ker s dir mode = (Inr ino, s1)" "\<not> S_ISLNK mode" "e = ci_ei_block (inode_of s1 ino)"
    and t: "t = store s1 (sector s e) zero_block"
  shows "fs_ok t" "dir_ok t dir" "dir_kd t dir = kd" "names t kd = names s kd" "ei_at t kd = ei_at s kd" "ino \<noteq> dir" "ino \<noteq> 0"
    "first_data t = first_data s" "same_geometry (sbi s) (sbi t)" "readable t = readable s" "e \<noteq> 0" "sector s1 = sector s"
    "unat e \<in> free_blocks (sbi s)" "taken (sbi s) {unat e} {unat ino} (sbi t)"
proof -
  have inv: "sbi_inv (sbi s)" and wf: "wf_dev s" using ok by (simp_all add: fs_ok_def)
  have tk: "taken (sbi s) {unat e} {unat ino} (sbi s1)" and "ino \<noteq> 0" "e \<noteq> 0"
    using new_inode_taken [OF inv new(1)] new(2,3) by simp_all
  then show "ino \<noteq> 0" "e \<noteq> 0" by simp_all
  have b1: "blocks s1 = blocks s" "readable s1 = readable s" using wf_dev_new_inode [OF new(1)] by simp_all
  have sb: "sbi t = sbi s1" "icache t = icache s1" "readable t = readable s" by (simp_all add: t b1)
  show "taken (sbi s) {unat e} {unat ino} (sbi t)" using tk sb by simp
  show geo: "same_geometry (sbi s) (sbi t)" using tk sb by (simp add: taken_def)
  show "readable t = readable s" by fact
  have sec: "sector t = sector s" using geo by (intro sector_cong) (simp add: same_geometry_def)
  then show "sector s1 = sector s" using sector_eq [of t s1] sb by simp
  have wft: "wf_dev t" using wf_dev_blocks [OF wf b1(1)] by (simp add: t)
  show fe: "unat e \<in> free_blocks (sbi s)" using tk by (auto simp: taken_def)
  show ne: "ino \<noteq> dir" using dir tk by (auto simp: dir_ok_def Let_def taken_def)
  then have di: "inode_of t dir = inode_of s dir" using new_inode_other [OF new(1)] sb by (simp add: inode_of_def)
  show kt: "dir_kd t dir = kd" by (simp add: dir_kd_def kd di sec)
  show okt: "fs_ok t" using fs_ok_cong [OF ok wft] tk sb by (auto simp: taken_def)
  have sm: "small_dir s kd" using dir by (simp add: dir_ok_def Let_def kd dir_kd_def)
  have "sector s e \<notin> dir_sectors s kd"
  proof -
    have "sector s e \<noteq> kd" using fe dir by (auto simp: dir_ok_def Let_def kd dir_kd_def)
    moreover have "e \<notin> set (data_blocks s kd)"
      using fe sm data_blocks_small [OF wf, of kd] by (auto simp: small_dir_def Let_def split: if_splits)
    ultimately show ?thesis by (auto simp: dir_sectors_def data_blocks_def)
  qed
  then have fr: "\<forall>k \<in> dir_sectors s kd. blocks t k = blocks s k" by (auto simp: t b1)
  show "names t kd = names s kd" "ei_at t kd = ei_at s kd" using dir_frame [OF fr sec] by simp_all
  show fd: "first_data t = first_data s" using geo first_cong [of t s] by (simp add: same_geometry_def)
  have fs: "free_blocks (sbi t) \<subseteq> free_blocks (sbi s)" "free_inodes (sbi t) \<subseteq> free_inodes (sbi s)"
    using tk sb by (auto simp: taken_def)
  have "small_dir t kd" by (rule small_dir_frame [OF sm fr geo sb(3) fs(1)])
  with dir fs show "dir_ok t dir" by (auto simp: dir_ok_def Let_def di sec fd sb(3) kd dir_kd_def)
qed

lemma dir_ok_sectors:
  assumes "fs_ok s" "dir_ok s dir" "k \<in> dir_sectors s (dir_kd s dir)"
  shows "first_data s \<le> k"
proof (cases "k = dir_kd s dir")
  case True
  with assms(2) show ?thesis by (simp add: dir_ok_def Let_def dir_kd_def)
next
  case False
  with assms(3) obtain b where b: "b \<in> set (data_blocks s (dir_kd s dir))" "k = sector s b"
    by (auto simp: dir_sectors_def data_blocks_def)
  with data_blocks_small [of s "dir_kd s dir"] assms(1,2) show ?thesis
    by (auto simp: dir_ok_def dir_kd_def small_dir_def Let_def fs_ok_def split: if_splits)
qed

lemma commit_dir:
  assumes ok: "fs_ok s" and dir: "dir_ok s dir" and ne: "ino \<noteq> dir" and s': "s' = create_commit s dir ino mode"
  shows "fs_ok s'" "dir_ok s' dir" "dir_kd s' dir = dir_kd s dir" "names s' (dir_kd s dir) = names s (dir_kd s dir)"
    "ei_at s' (dir_kd s dir) = ei_at s (dir_kd s dir)" "icache s' ino \<noteq> None" "sbi s' = sbi s"
proof -
  note m = ok [unfolded fs_ok_def]
  have f: "sbi s' = sbi s" "readable s' = readable s" by (simp_all add: s' create_commit_frame)
  show "sbi s' = sbi s" by fact
  have "wf_dev s'" using wf_dev_create_commit m by (simp add: s')
  then show "fs_ok s'" using fs_ok_cong [OF ok, of s'] m f by simp
  have fr: "\<forall>k \<in> dir_sectors s (dir_kd s dir). blocks s' k = blocks s k"
  proof
    fix k assume "k \<in> dir_sectors s (dir_kd s dir)"
    from dir_ok_sectors [OF ok dir this] show "blocks s' k = blocks s k"
      unfolding s' using m by (intro create_commit_data) simp_all
  qed
  have sec: "sector s' = sector s" by (rule sector_eq) fact
  note ci = create_commit_inodes [OF ne, of s mode, folded s']
  show kd: "dir_kd s' dir = dir_kd s dir" by (simp add: dir_kd_def sec ci(1))
  show "icache s' ino \<noteq> None" by (rule ci(2))
  show "names s' (dir_kd s dir) = names s (dir_kd s dir)" "ei_at s' (dir_kd s dir) = ei_at s (dir_kd s dir)"
    using dir_frame [OF fr sec] by simp_all
  have "small_dir s' (dir_kd s dir)"
    by (rule small_dir_frame [OF _ fr]) (use dir f in \<open>simp_all add: dir_ok_def dir_kd_def Let_def\<close>)
  moreover have "first_data s' = first_data s" using first_cong [of s' s] f by simp
  ultimately show "dir_ok s' dir" using dir by (simp add: dir_ok_def dir_kd_def Let_def sec ci(1) f)
qed

lemma add_entry_dir:
  assumes ok: "fs_ok s" and dir: "dir_ok s dir" "nr_entries s dir < 120" and kd: "kd = dir_kd s dir"
    and nm: "is_cstr nm" "length nm \<le> LOLELFFS_FILENAME_LEN" "ino \<noteq> 0"
    and add: "add_entry s kd nm ino = (Inr (), s')"
  shows "fs_ok s'" "dir_ok s' dir" "dir_kd s' dir = kd" "names s' kd = names s kd @ [(nm, ino)]" "icache s' = icache s"
    "nr_entries s' dir = Suc (nr_entries s dir)"
proof -
  let ?c = "ci_ei_block (inode_of s dir)"
  have d: "small_dir s kd" "unat (nr_files (ei_at s kd)) < 120" "kd = sector s ?c" "unat ?c \<notin> free_blocks (sbi s)" "first_data s \<le> kd"
    using dir by (simp_all add: dir_ok_def Let_def kd dir_kd_def nr_entries_def)
  note a = add_entry_names [OF ok d nm add]
  show "fs_ok s'" "names s' kd = names s kd @ [(nm, ino)]" using a by simp_all
  have "sbi_inv (sbi s)" "wf_dev s" using ok by (simp_all add: fs_ok_def)
  note t = add_entry_taken [OF this add, simplified]
  show ic: "icache s' = icache s" using t by simp
  have i: "inode_of s' = inode_of s" by (rule inode_of_cong) fact
  have geo: "same_geometry (sbi s) (sbi s')" "free_blocks (sbi s') \<subseteq> free_blocks (sbi s)" "free_inodes (sbi s') = free_inodes (sbi s)"
    using t by (auto simp: taken_def)
  have sec: "sector s' = sector s" using geo by (intro sector_cong) (simp add: same_geometry_def)
  show kd': "dir_kd s' dir = kd" by (simp add: dir_kd_def sec i kd)
  have "first_data s' = first_data s" using geo first_cong [of s' s] by (simp add: same_geometry_def)
  with a(2) geo t dir d show "dir_ok s' dir" by (auto simp: dir_ok_def Let_def sec i)
  have "length (names s' kd) = Suc (length (names s kd))" by (simp add: a(1))
  moreover have "length (names s kd) = unat (nr_files (ei_at s kd))" "length (names s' kd) = unat (nr_files (ei_at s' kd))"
    using a(2) d(1) \<open>fs_ok s'\<close> \<open>fs_ok s\<close> by (simp_all add: length_names fs_ok_def)
  ultimately show "nr_entries s' dir = Suc (nr_entries s dir)" by (simp add: nr_entries_def kd kd')
qed

lemma create_names:
  assumes ok: "fs_ok s" and dir: "dir_ok s dir" "nr_entries s dir < 120" and kd: "kd = dir_kd s dir"
    and nm: "is_cstr nm" and mode: "\<not> S_ISLNK mode"
    and cr: "lolelffs_create ker s dir nm mode = (Inr ino, s')"
  shows "fs_ok s'" "dir_ok s' dir" "dir_kd s' dir = kd" "names s' kd = names s kd @ [(nm, ino)]" "ino \<noteq> 0"
    "icache s' ino \<noteq> None" "nr_entries s' dir = Suc (nr_entries s dir)"
proof -
  have inv: "sbi_inv (sbi s)" using ok by (simp add: fs_ok_def)
  obtain s1 e s2 where c: "length nm \<le> LOLELFFS_FILENAME_LEN" "lolelffs_new_inode ker s dir mode = (Inr ino, s1)"
    "e = ci_ei_block (inode_of s1 ino)"
    "add_entry (store s1 (sector s e) zero_block) kd nm ino = (Inr (), s2)" "s' = create_commit s2 dir ino mode"
    using create_success [OF cr mode inv kd [unfolded dir_kd_def]] by metis
  note t = create_mid [OF ok dir(1) kd c(2) mode c(3) refl]
  have n: "nr_entries (store s1 (sector s e) zero_block) dir = nr_entries s dir" using t(3,5) by (simp add: nr_entries_def kd)
  note a = add_entry_dir [OF t(1,2) dir(2) [folded n] t(3) [symmetric] nm c(1) t(7) c(4)]
  note m = commit_dir [OF a(1,2) t(6) c(5), unfolded a(3)]
  show "fs_ok s'" "dir_ok s' dir" "dir_kd s' dir = kd" "icache s' ino \<noteq> None" "ino \<noteq> 0" using m t(7) by simp_all
  show "names s' kd = names s kd @ [(nm, ino)]" using m(4) a(4) t(4) by simp
  show "nr_entries s' dir = Suc (nr_entries s dir)" using m(3,5) a(3,6) n by (simp add: nr_entries_def)
qed

section \<open>When creating succeeds\<close>

lemma iget_succeeds:
  assumes "mounted s" "mem s = []" "ino < nr_inodes (sbi s)"
    and "unat (nr_inodes (sbi s)) \<le> unat (nr_istore_blocks (sbi s)) * LOLELFFS_INODES_PER_BLOCK"
  shows "fst (lolelffs_iget s ino) = Inr ino"
proof -
  have "istore_sector s ino < first_data s" "fs_offset (sbi s) \<le> istore_sector s ino"
    using istore_sector_less [OF assms(3,4)] first_le [of s] by (simp_all add: istore_sector_def)
  with assms(1) have "readable s (istore_sector s ino)" by (simp add: mounted_def)
  with assms(2,3) show ?thesis by (auto simp: lolelffs_iget_def kmalloc_def not_le split: option.splits)
qed

lemma new_inode_succeeds:
  assumes ok: "fs_ok s" and mem: "mem s = []" and free: "free_inodes (sbi s) \<noteq> {}" "free_blocks (sbi s) \<noteq> {}"
    and mode: "S_ISDIR mode \<or> S_ISREG mode"
  obtains ino s1 b where "lolelffs_new_inode ker s dir mode = (Inr ino, s1)"
    "get_free_blocks b 1 = (ci_ei_block (inode_of s1 ino), sbi s1)" "free_blocks b = free_blocks (sbi s)"
proof -
  have inv: "sbi_inv (sbi s)" using ok by (simp add: fs_ok_def)
  have nz: "nr_free_inodes (sbi s) \<noteq> 0" "nr_free_blocks (sbi s) \<noteq> 0"
    using inv free by (auto simp: sbi_inv_def blocks_inv_def inodes_inv_def alloc_inv_def free_inodes_def free_blocks_def)
  obtain ino b where g: "get_free_inode (sbi s) = (ino, b)" by fastforce
  have ino: "ino \<noteq> 0"
  proof
    assume "ino = 0"
    with ia.get_fail [of "sbi s" 1 b] g inv have "\<forall>a. a \<notin> free_inodes (sbi s)" by (simp add: sbi_inv_def)
    with free show False by blast
  qed
  with get_free_inode_taken [OF inv g] have tk: "taken (sbi s) {} {unat ino} b" by simp
  let ?s = "set_sbi s b"
  have ok': "fs_ok ?s" using fs_ok_cong [OF ok, of ?s] tk wf_dev_blocks [of s ?s] ok by (auto simp: taken_def fs_ok_def)
  have "unat ino < unat (nr_inodes b)" using tk by (auto simp: taken_def free_inodes_def mem_free_bits same_geometry_def)
  then have "fst (lolelffs_iget ?s ino) = Inr ino"
    using iget_succeeds [of ?s ino] ok' mem by (simp add: fs_ok_def word_less_nat_alt)
  then obtain s2 where i: "lolelffs_iget ?s ino = (Inr ino, s2)" by (cases "lolelffs_iget ?s ino") simp
  have sb: "sbi s2 = b" using iget_frame [OF i] by simp
  obtain bno b2 where gb: "get_free_blocks b 1 = (bno, b2)" by fastforce
  have bno: "bno \<noteq> 0"
  proof
    assume "bno = 0"
    with ba.get_fail [of b 1 b2] gb tk have "\<forall>a. a \<notin> free_blocks b" by (simp add: taken_def sbi_inv_def)
    with free tk show False by (auto simp: taken_def)
  qed
  let ?r = "upd_inode (set_sbi s2 b2) ino (new_block_inode ker (set_sbi s2 b2) dir mode bno)"
  have "lolelffs_new_inode ker s dir mode = (Inr ino, ?r)"
    using mode nz ino i gb bno sb S_IS_exclusive [of mode] by (auto simp: lolelffs_new_inode_def Let_def g)
  moreover have "ci_ei_block (inode_of ?r ino) = bno" using mode by (auto simp: new_block_inode_def Let_def)
  ultimately show thesis using that [of ino ?r b] gb tk by (simp add: taken_def)
qed

lemma add_entry_succeeds:
  assumes ok: "fs_ok s" and dir: "dir_ok s dir" "nr_entries s dir < 120" and kd: "kd = dir_kd s dir"
    and free: "{a ..< a + 8} \<subseteq> free_blocks (sbi s)"
  shows "fst (add_entry s kd nm ino) = Inr ()"
proof -
  define n where "n = unat (nr_files (ei_at s kd))"
  have n: "n < 120" using dir(2) by (simp add: n_def nr_entries_def kd)
  have sm: "small_dir s kd" using dir by (simp add: dir_ok_def Let_def kd dir_kd_def)
  have wf: "wf_dev s" and inv: "sbi_inv (sbi s)" using ok by (simp_all add: fs_ok_def)
  note pos = entry_small [OF n]
  have m: "(0::nat) < LOLELFFS_MAX_EXTENTS" by (simp add: max_extents)
  show ?thesis
  proof (cases "ee_start (extents (ei_at s kd) ! 0) = 0")
    case True
    then have n0: "n = 0" using sm by (simp add: small_dir_def Let_def n_def)
    obtain bno b where g: "get_free_blocks (sbi s) 8 = (bno, b)" by fastforce
    have bno: "bno \<noteq> 0"
    proof
      assume "bno = 0"
      with ba.get_fail [of "sbi s" 8 b] g inv have "\<not> {a ..< a + 8} \<subseteq> free_blocks (sbi s)" by (simp add: sbi_inv_def)
      with free show False by simp
    qed
    have "taken (sbi s) (range_of bno 8) {} b" using get_free_blocks_taken [OF inv g] bno by simp
    then have "unat bno \<in> free_blocks (sbi s)" by (auto simp: taken_def range_of_def)
    note rd = free_block_ok(1) [OF ok this]
    define t where "t = put_ei (set_sbi s b) kd (new_extent (ei_at s kd) 0 bno)"
    have "sector t = sector s" using get_free_blocks_frame [OF g] by (intro sector_cong) (simp add: t_def)
    with rd have "readable s (sector t (bno + of_nat (entry_bi n)))" using n0 by (simp add: entry_bi_def)
    with add_entry_new [OF n_def, of bno b t _ nm ino] True m pos wf g bno show ?thesis by (simp add: t_def)
  next
    case False
    let ?bs = "extent_blocks (extents (ei_at s kd) ! 0)"
    have "ee_len (extents (ei_at s kd) ! 0) = 8" and rd: "\<forall>b \<in> set ?bs. readable s (sector s b)"
      using sm False by (simp_all add: small_dir_def Let_def)
    moreover have "entry_bi n < 8" using n pos by (simp add: files_per_block)
    ultimately have "ee_start (extents (ei_at s kd) ! 0) + of_nat (entry_bi n) \<in> set ?bs" by (auto simp: extent_blocks_def)
    with rd add_entry_old [OF n_def, of _ nm ino] False m pos show ?thesis by simp
  qed
qed

lemma create_succeeds_step:
  assumes ok: "fs_ok s" and mem: "mem s = []" and dir: "dir_ok s dir" "nr_entries s dir < 120"
    and free: "free_inodes (sbi s) \<noteq> {}" "{a ..< a + 9} \<subseteq> free_blocks (sbi s)"
    and mode: "S_ISDIR mode \<or> S_ISREG mode" and nm: "length nm \<le> LOLELFFS_FILENAME_LEN"
  obtains ino s' where "lolelffs_create ker s dir nm mode = (Inr ino, s')"
proof -
  define kd where "kd = dir_kd s dir"
  have a: "a \<in> free_blocks (sbi s)" using free(2) by auto
  then have "free_blocks (sbi s) \<noteq> {}" by auto
  then obtain ino s1 b where new: "lolelffs_new_inode ker s dir mode = (Inr ino, s1)"
    and gb: "get_free_blocks b 1 = (ci_ei_block (inode_of s1 ino), sbi s1)" "free_blocks b = free_blocks (sbi s)"
    using new_inode_succeeds [OF ok mem free(1) _ mode] by metis
  define e where "e = ci_ei_block (inode_of s1 ino)"
  let ?t = "store s1 (sector s e) zero_block"
  have lnk: "\<not> S_ISLNK mode" using mode S_IS_exclusive by blast
  note t = create_mid [OF ok dir(1) kd_def new lnk e_def refl]
  have fb: "free_blocks (sbi ?t) = free_blocks (sbi s) - {unat e}" using t(14) by (simp add: taken_def)
  have low: "unat e \<le> a"
  proof (rule ccontr)
    assume "\<not> unat e \<le> a"
    then show False using get_free_blocks_lowest [OF _ gb(1), of a] t(11) a gb(2) by (simp add: e_def)
  qed
  have "{Suc a ..< Suc a + 8} \<subseteq> free_blocks (sbi ?t)"
    unfolding fb using free(2) low by auto
  moreover have n: "nr_entries ?t dir < 120" using t(3,5) dir(2) by (simp add: nr_entries_def kd_def)
  ultimately have "fst (add_entry ?t kd nm ino) = Inr ()"
    using add_entry_succeeds [OF t(1,2) n t(3) [symmetric]] by blast
  then obtain s2 where add: "add_entry ?t kd nm ino = (Inr (), s2)" by (cases "add_entry ?t kd nm ino") simp
  have rd: "readable s kd" "readable s1 (sector s e)"
    using dir(1) free_block_ok(1) [OF ok t(13)] t(10) by (simp_all add: dir_ok_def Let_def kd_def dir_kd_def)
  have "unat (nr_files (ei_at s kd)) \<noteq> LOLELFFS_MAX_SUBFILES"
    using dir(2) by (simp add: nr_entries_def kd_def max_subfiles)
  then have "lolelffs_create ker s dir nm mode = (Inr ino, create_commit s2 dir ino mode)"
    using nm rd new add
    by (simp add: lolelffs_create_def Let_def kd_def [unfolded dir_kd_def, symmetric] t(12) e_def [symmetric])
  then show thesis by (rule that)
qed

section \<open>What creation guarantees\<close>


lemma dir_fs_ok: "fs_ok dir_fs"
proof -
  have "mounted dir_fs" by (simp add: mounted_def dir_fs_def tiny_fs_def dir_sbi_def tiny_sbi_def BITS_PER_BLOCK_def size_defs)
  moreover have "free_blocks (sbi dir_fs) = {5..<32}" "sbi_inv (sbi dir_fs)" using dir_free dir_sbi_inv by (simp_all add: dir_fs_def)
  ultimately show ?thesis using dir_wf_dev
    by (auto simp: fs_ok_def first_data_def first_bfree_def first_ifree_def inodes_per_block)
      (auto simp: dir_fs_def dir_sbi_def tiny_sbi_def tiny_fs_def)
qed

lemma dir_fs_kd: "dir_kd dir_fs 0 = 4" "ei_at dir_fs k = zero_ei"
  by (simp_all add: dir_kd_def sector_def dir_fs_def inode_of_def root_inode_def dir_sbi_def tiny_sbi_def ei_at_def tiny_fs_def dec_zero_ei)

lemma dir_fs_dir_ok: "dir_ok dir_fs 0" "nr_entries dir_fs 0 = 0" "names dir_fs 4 = []"
proof -
  have "small_dir dir_fs (dir_kd dir_fs 0)" by (simp add: small_dir_def dir_fs_kd zero_ei_def max_extents zero_extent_def)
  moreover have "free_blocks (sbi dir_fs) = {5..<32}" "free_inodes (sbi dir_fs) = {1..<8}" using dir_free by (simp_all add: dir_fs_def)
  ultimately show "dir_ok dir_fs 0"
    by (auto simp: dir_ok_def Let_def dir_kd_def sector_def first_data_def first_bfree_def first_ifree_def)
      (auto simp: dir_fs_def inode_of_def root_inode_def dir_sbi_def tiny_sbi_def tiny_fs_def)
  show "nr_entries dir_fs 0 = 0" "names dir_fs 4 = []" by (simp_all add: nr_entries_def names_def dir_fs_kd zero_ei_def)
qed

lemma dir_fs_create:
  obtains ino s' where "lolelffs_create ker dir_fs 0 [97] 0x81A4 = (Inr ino, s')"
proof -
  have "free_blocks (sbi dir_fs) = {5..<32}" "free_inodes (sbi dir_fs) = {1..<8}" using dir_free by (simp_all add: dir_fs_def)
  moreover have "S_ISDIR 0x81A4 \<or> S_ISREG 0x81A4" by code_simp
  ultimately show thesis
    using create_succeeds_step [OF dir_fs_ok _ dir_fs_dir_ok(1), of 5 "0x81A4" "[97]" ker] dir_fs_dir_ok that
    by (auto simp: dir_fs_def tiny_fs_def size_defs)
qed

lemma lookup_present:
  assumes ok: "fs_ok s" and dir: "dir_ok s dir" and kd: "kd = dir_kd s dir"
    and nm: "is_cstr nm" "length nm \<le> LOLELFFS_FILENAME_LEN"
    and at: "map_of (names s kd) nm = Some ino" and ino: "icache s ino \<noteq> None" "ino < nr_inodes (sbi s)"
  shows "fst (lolelffs_lookup s dir nm) = Inr (Some ino)"
proof -
  have wf: "wf_dev s" using ok by (simp add: fs_ok_def)
  have sm: "small_dir s kd" "readable s kd" using dir by (simp_all add: dir_ok_def Let_def kd dir_kd_def)
  let ?n = "unat (nr_files (ei_at s kd))" let ?sl = "dir_slots s kd"
  have rd: "\<forall>b \<in> set (data_blocks s kd). readable s (sector s b)"
    using data_blocks_small [OF wf, of kd] sm(1) by (simp add: small_dir_def Let_def)
  have "list_all (\<lambda>f. inode f \<noteq> 0) (take ?n ?sl)"
  proof (cases "ee_start (extents (ei_at s kd) ! 0) = 0")
    case True
    with sm(1) show ?thesis by (simp add: small_dir_def Let_def)
  next
    case False
    with small_dirD [OF sm(1) wf False] show ?thesis by (auto simp: list_all_iff in_set_conv_nth)
  qed
  then have "live ?sl = take ?n ?sl @ live (drop ?n ?sl)"
    using live_append [of "take ?n ?sl" "drop ?n ?sl"] by simp
  then have "map_of (dir_list s kd) nm = Some ino" using at by (auto simp: dir_list_def names_def)
  with lookup_blocks_map [OF wf rd nm] have l: "lookup_blocks s (data_blocks s kd) nm = Inr (Some ino)" by simp
  have "lolelffs_iget s ino = (Inr ino, s)" using ino by (auto simp: lolelffs_iget_def)
  with l sm(2) nm(2) show ?thesis
    by (simp add: lolelffs_lookup_def Let_def data_blocks_def kd dir_kd_def not_less)
qed

text \<open>
  C9. Creating a file or directory appends to the list of the directory's names: in a consistent
  file system with a directory of fewer than 120 entries, a successful creation adds the new name
  with its inode number behind the names there are, keeps the others, and leaves the file system
  and the directory consistent.
\<close>

theorem create_appends:
  assumes "fs_ok s" "dir_ok s dir" "nr_entries s dir < 120" "is_cstr nm" "\<not> S_ISLNK mode"
    and "lolelffs_create ker s dir nm mode = (Inr ino, s')"
  shows "fs_ok s' \<and> dir_ok s' dir \<and> nr_entries s' dir = Suc (nr_entries s dir)
    \<and> names s' (dir_kd s' dir) = names s (dir_kd s dir) @ [(nm, ino)]"
  using create_names [OF assms(1-3) refl assms(4-6)] by simp

theorem create_appends_witness:
  "\<exists>ino s'. lolelffs_create \<lparr>init_owner = (\<lambda>i _ m. i\<lparr>vi_mode := m\<rparr>), evicts = (\<lambda>_. True)\<rparr> dir_fs 0 [97] 0x81A4 = (Inr ino, s')
     \<and> names s' (dir_kd s' 0) = [([97], ino)]"
proof -
  let ?ker = "\<lparr>init_owner = (\<lambda>i _ m. i\<lparr>vi_mode := m\<rparr>), evicts = (\<lambda>_. True)\<rparr>"
  obtain ino s' where c: "lolelffs_create ?ker dir_fs 0 [97] 0x81A4 = (Inr ino, s')" by (rule dir_fs_create)
  have "\<not> S_ISLNK 0x81A4" "is_cstr [97]" by (code_simp, simp add: is_cstr_def)
  with create_appends [OF dir_fs_ok dir_fs_dir_ok(1) _ _ _ c] dir_fs_dir_ok dir_fs_kd c show ?thesis by simp
qed

lemma create_lookup:
  assumes "fs_ok s" "dir_ok s dir" "nr_entries s dir < 120" "is_cstr nm" "\<not> S_ISLNK mode"
    and new: "nm \<notin> fst ` set (names s (dir_kd s dir))"
    and cr: "lolelffs_create ker s dir nm mode = (Inr ino, s')"
  shows "fst (lolelffs_lookup s' dir nm) = Inr (Some ino)"
proof -
  note c = create_names [OF assms(1-3) refl assms(4,5) cr]
  have inv: "sbi_inv (sbi s)" and wf: "wf_dev s" using assms(1) by (simp_all add: fs_ok_def)
  from create_taken [OF inv wf assms(5) cr] obtain B where "taken (sbi s) B {unat ino} (sbi s')" by auto
  then have "unat ino < unat (nr_inodes (sbi s'))"
    by (auto simp: taken_def free_inodes_def mem_free_bits same_geometry_def)
  moreover have "length nm \<le> LOLELFFS_FILENAME_LEN"
    using cr by (auto simp: lolelffs_create_def Let_def split: if_splits)
  moreover have "map_of (names s (dir_kd s dir)) nm = None" using new by (simp add: map_of_eq_None_iff)
  ultimately show ?thesis
    using lookup_present [OF c(1,2) c(3) [symmetric] assms(4), of ino] c(4,6)
    by (simp add: map_add_def word_less_nat_alt)
qed

text \<open>
  What was created can be looked up: after a successful creation of a name the directory did
  not hold, looking the name up returns the inode number the creation returned.
\<close>

theorem create_then_lookup:
  assumes "fs_ok s" "dir_ok s dir" "nr_entries s dir < 120" "is_cstr nm" "\<not> S_ISLNK mode"
    and new: "nm \<notin> fst ` set (names s (dir_kd s dir))"
    and cr: "lolelffs_create ker s dir nm mode = (Inr ino, s')"
  shows "fst (lolelffs_lookup s' dir nm) = Inr (Some ino)"
  using create_lookup [OF assms] .

theorem create_then_lookup_witness:
  "\<exists>ino s'. lolelffs_create \<lparr>init_owner = (\<lambda>i _ m. i\<lparr>vi_mode := m\<rparr>), evicts = (\<lambda>_. True)\<rparr> dir_fs 0 [97] 0x81A4 = (Inr ino, s')
     \<and> fst (lolelffs_lookup s' 0 [97]) = Inr (Some ino)"
proof -
  let ?ker = "\<lparr>init_owner = (\<lambda>i _ m. i\<lparr>vi_mode := m\<rparr>), evicts = (\<lambda>_. True)\<rparr>"
  obtain ino s' where c: "lolelffs_create ?ker dir_fs 0 [97] 0x81A4 = (Inr ino, s')" by (rule dir_fs_create)
  have "\<not> S_ISLNK 0x81A4" "is_cstr [97]" by (code_simp, simp add: is_cstr_def)
  with create_then_lookup [OF dir_fs_ok dir_fs_dir_ok(1) _ _ _ _ c] dir_fs_dir_ok dir_fs_kd c show ?thesis by simp
qed

text \<open>
  C22. Creating succeeds when there is room: in a consistent file system a directory with fewer
  than 120 entries takes a new file or directory if an inode is free, nine consecutive blocks
  are free, the name is not too long and memory can be had.
\<close>

theorem create_succeeds:
  assumes "fs_ok s" "mem s = []" "dir_ok s dir" "nr_entries s dir < 120"
    and "free_inodes (sbi s) \<noteq> {}" "{a ..< a + 9} \<subseteq> free_blocks (sbi s)"
    and "S_ISDIR mode \<or> S_ISREG mode" "length nm \<le> LOLELFFS_FILENAME_LEN"
  shows "\<exists>ino s'. lolelffs_create ker s dir nm mode = (Inr ino, s')"
  using create_succeeds_step [OF assms] by metis

theorem create_succeeds_witness:
  "\<exists>ino s'. lolelffs_create \<lparr>init_owner = (\<lambda>i _ m. i\<lparr>vi_mode := m\<rparr>), evicts = (\<lambda>_. True)\<rparr> dir_fs 0 [98] 0x41ED = (Inr ino, s')"
proof -
  have "free_blocks (sbi dir_fs) = {5..<32}" "free_inodes (sbi dir_fs) = {1..<8}" using dir_free by (simp_all add: dir_fs_def)
  moreover have "S_ISDIR 0x41ED \<or> S_ISREG 0x41ED" by code_simp
  ultimately show ?thesis
    using dir_fs_dir_ok by (intro create_succeeds [OF dir_fs_ok, where a = 5]) (auto simp: dir_fs_def tiny_fs_def size_defs)
qed

theorem create_accounting_witness:
  "\<exists>ino s'. lolelffs_create \<lparr>init_owner = (\<lambda>i _ m. i\<lparr>vi_mode := m\<rparr>), evicts = (\<lambda>_. True)\<rparr> dir_fs 0 [97] 0x81A4 = (Inr ino, s')
     \<and> sbi_inv (sbi s') \<and> free_inodes (sbi s') = {1..<8} - {unat ino}"
proof -
  let ?ker = "\<lparr>init_owner = (\<lambda>i _ m. i\<lparr>vi_mode := m\<rparr>), evicts = (\<lambda>_. True)\<rparr>"
  obtain ino s' where c: "lolelffs_create ?ker dir_fs 0 [97] 0x81A4 = (Inr ino, s')" by (rule dir_fs_create)
  have "\<not> S_ISLNK 0x81A4" by code_simp
  moreover have "sbi_inv (sbi dir_fs)" "free_inodes (sbi dir_fs) = {1..<8}" using dir_sbi_inv dir_free by (simp_all add: dir_fs_def)
  ultimately show ?thesis using create_accounting [OF _ dir_wf_dev _ c] c by simp
qed


end
