(* ===== verification/Encrypt.thy ===== *)
theory Encrypt
  imports Vfs
begin

text \<open>
  Block encryption, \<^verbatim>\<open>src/encrypt.c\<close>: the table \<open>enc_ctx\<close> and its set-up, the encryption and
  decryption of a block with an initialisation vector made of its number, the derivation of the
  user's key from the password (PBKDF2) and the decryption of the master key.

  The kernel's ciphers and hashes are the fields of the parameter \<open>crypto_lib\<close>. \<open>xts_*\<close> and
  \<open>aead_*\<close> are the two transforms as \<open>lolelffs_enc_init\<close> leaves them: the code never calls
  \<open>crypto_skcipher_setkey\<close> or \<open>crypto_aead_setkey\<close> on them, so they take no key here and the
  argument \<open>key\<close> of the functions below is unused, as in the source. \<open>hmac\<close> stands for
  \<open>crypto_shash_init\<close>, \<open>update\<close> and \<open>finup\<close>, or for \<open>crypto_shash_digest\<close>, on one message.
  Requests are allocated with \<open>kmalloc\<close>. The buffers' sizes are explicit where the code goes beyond
  a block: reading or writing past the end of a buffer is \<open>OOPS\<close>.
\<close>

section \<open>The algorithms\<close>

definition LOLELFFS_ENC_MAX_ALGO :: nat where "LOLELFFS_ENC_MAX_ALGO = LOLELFFS_ENC_CHACHA20_POLY"
definition AES_IV_SIZE :: nat where "AES_IV_SIZE = 16"
definition CHACHA20_IV_SIZE :: nat where "CHACHA20_IV_SIZE = 12"
definition CHACHA20_POLY1305_TAG_SIZE :: nat where "CHACHA20_POLY1305_TAG_SIZE = 16"

lemmas enc_ids = LOLELFFS_ENC_NONE_def LOLELFFS_ENC_AES256_XTS_def LOLELFFS_ENC_CHACHA20_POLY_def
  LOLELFFS_ENC_MAX_ALGO_def

definition enc_algo_display_names :: "string list" where
  "enc_algo_display_names = [''none'', ''aes-256-xts'', ''chacha20-poly1305'']"

record crypto_lib =
  xts_alloc :: "errno + unit"
  xts_encrypt :: "bytes \<Rightarrow> bytes \<Rightarrow> errno + bytes"
  xts_decrypt :: "bytes \<Rightarrow> bytes \<Rightarrow> errno + bytes"
  aead_alloc :: "errno + unit"
  aead_setauthsize :: "nat \<Rightarrow> errno + unit"
  aead_encrypt :: "bytes \<Rightarrow> bytes \<Rightarrow> errno + bytes"
  aead_decrypt :: "bytes \<Rightarrow> bytes \<Rightarrow> errno + bytes"
  shash_alloc :: "errno + unit"
  shash_setkey :: "bytes \<Rightarrow> errno + unit"
  hmac :: "bytes \<Rightarrow> bytes \<Rightarrow> errno + bytes"
  ecb_alloc :: "errno + unit"
  ecb_setkey :: "bytes \<Rightarrow> errno + unit"
  ecb_decrypt :: "bytes \<Rightarrow> bytes \<Rightarrow> errno + bytes"

record lolelffs_enc_ctx =
  skcipher :: bool
  aead :: bool
  enc_available :: bool

type_synonym enc_table = "lolelffs_enc_ctx list"

definition zero_enc_ctx :: lolelffs_enc_ctx where
  "zero_enc_ctx = \<lparr>skcipher = False, aead = False, enc_available = False\<rparr>"

definition enc_static :: enc_table where
  "enc_static = replicate (LOLELFFS_ENC_MAX_ALGO + 1) zero_enc_ctx"

definition lolelffs_enc_supported :: "enc_table \<Rightarrow> u8 \<Rightarrow> bool" where
  "lolelffs_enc_supported t algo =
     (if LOLELFFS_ENC_MAX_ALGO < unat algo then False
      else if unat algo = LOLELFFS_ENC_NONE then True
      else enc_available (t ! unat algo))"

definition lolelffs_enc_get_name :: "u8 \<Rightarrow> string" where
  "lolelffs_enc_get_name algo =
     (if LOLELFFS_ENC_MAX_ALGO < unat algo then ''unknown'' else enc_algo_display_names ! unat algo)"

definition lolelffs_enc_tag_size :: "u8 \<Rightarrow> nat" where
  "lolelffs_enc_tag_size algo =
     (if unat algo = LOLELFFS_ENC_CHACHA20_POLY then CHACHA20_POLY1305_TAG_SIZE else 0)"

section \<open>Encryption and decryption of a block\<close>

definition derive_iv_from_block :: "u64 \<Rightarrow> nat \<Rightarrow> bytes" where
  "derive_iv_from_block block_num iv_size =
     (let iv = replicate iv_size 0; n = min 8 iv_size
      in take n (enc64 block_num) @ drop n iv)"

definition lolelffs_encrypt_aes_xts ::
  "crypto_lib \<Rightarrow> enc_table \<Rightarrow> bytes \<Rightarrow> u64 \<Rightarrow> bytes \<Rightarrow> fs \<Rightarrow> (errno + bytes) \<times> fs" where
  "lolelffs_encrypt_aes_xts lib t key block_num src s =
     (if \<not> enc_available (t ! LOLELFFS_ENC_AES256_XTS) then (Inl EOPNOTSUPP, s)
      else
        (let iv = derive_iv_from_block block_num AES_IV_SIZE; (ok, s) = kmalloc s
         in if \<not> ok then (Inl ENOMEM, s) else (xts_encrypt lib iv src, s)))"

definition lolelffs_decrypt_aes_xts ::
  "crypto_lib \<Rightarrow> enc_table \<Rightarrow> bytes \<Rightarrow> u64 \<Rightarrow> bytes \<Rightarrow> fs \<Rightarrow> (errno + bytes) \<times> fs" where
  "lolelffs_decrypt_aes_xts lib t key block_num src s =
     (if \<not> enc_available (t ! LOLELFFS_ENC_AES256_XTS) then (Inl EOPNOTSUPP, s)
      else
        (let iv = derive_iv_from_block block_num AES_IV_SIZE; (ok, s) = kmalloc s
         in if \<not> ok then (Inl ENOMEM, s) else (xts_decrypt lib iv src, s)))"

text \<open>
  The authenticated cipher writes a block and its tag to a destination of \<open>room\<close> bytes, and reads a
  block and its tag from the source.
\<close>

definition lolelffs_encrypt_chacha20_poly ::
  "crypto_lib \<Rightarrow> enc_table \<Rightarrow> bytes \<Rightarrow> u64 \<Rightarrow> bytes \<Rightarrow> nat \<Rightarrow> fs \<Rightarrow> (errno + bytes) \<times> fs" where
  "lolelffs_encrypt_chacha20_poly lib t key block_num src room s =
     (if \<not> enc_available (t ! LOLELFFS_ENC_CHACHA20_POLY) then (Inl EOPNOTSUPP, s)
      else
        (let iv = derive_iv_from_block block_num CHACHA20_IV_SIZE; (ok, s) = kmalloc s
         in if \<not> ok then (Inl ENOMEM, s)
            else
              (case aead_encrypt lib iv src of
                 Inl e \<Rightarrow> (Inl e, s)
               | Inr out \<Rightarrow>
                   if room < LOLELFFS_BLOCK_SIZE + CHACHA20_POLY1305_TAG_SIZE then (Inl OOPS, s)
                   else (Inr out, s))))"

definition lolelffs_decrypt_chacha20_poly ::
  "crypto_lib \<Rightarrow> enc_table \<Rightarrow> bytes \<Rightarrow> u64 \<Rightarrow> bytes \<Rightarrow> fs \<Rightarrow> (errno + bytes) \<times> fs" where
  "lolelffs_decrypt_chacha20_poly lib t key block_num src s =
     (if \<not> enc_available (t ! LOLELFFS_ENC_CHACHA20_POLY) then (Inl EOPNOTSUPP, s)
      else
        (let iv = derive_iv_from_block block_num CHACHA20_IV_SIZE; (ok, s) = kmalloc s
         in if \<not> ok then (Inl ENOMEM, s)
            else
              (case aead_decrypt lib iv (take (LOLELFFS_BLOCK_SIZE + CHACHA20_POLY1305_TAG_SIZE) src) of
                 Inl e \<Rightarrow> (Inl e, s)
               | Inr out \<Rightarrow>
                   if length src < LOLELFFS_BLOCK_SIZE + CHACHA20_POLY1305_TAG_SIZE then (Inl OOPS, s)
                   else (Inr out, s))))"

definition lolelffs_encrypt_block ::
  "crypto_lib \<Rightarrow> enc_table \<Rightarrow> u8 \<Rightarrow> bytes \<Rightarrow> u64 \<Rightarrow> bytes \<Rightarrow> nat \<Rightarrow> fs \<Rightarrow> (errno + bytes) \<times> fs" where
  "lolelffs_encrypt_block lib t algo key block_num src room s =
     (if unat algo = LOLELFFS_ENC_NONE \<or> LOLELFFS_ENC_MAX_ALGO < unat algo then (Inl EINVAL, s)
      else if \<not> enc_available (t ! unat algo) then (Inl EOPNOTSUPP, s)
      else if unat algo = LOLELFFS_ENC_AES256_XTS then lolelffs_encrypt_aes_xts lib t key block_num src s
      else if unat algo = LOLELFFS_ENC_CHACHA20_POLY
        then lolelffs_encrypt_chacha20_poly lib t key block_num src room s
      else (Inl EINVAL, s))"

definition lolelffs_decrypt_block ::
  "crypto_lib \<Rightarrow> enc_table \<Rightarrow> u8 \<Rightarrow> bytes \<Rightarrow> u64 \<Rightarrow> bytes \<Rightarrow> fs \<Rightarrow> (errno + bytes) \<times> fs" where
  "lolelffs_decrypt_block lib t algo key block_num src s =
     (if unat algo = LOLELFFS_ENC_NONE \<or> LOLELFFS_ENC_MAX_ALGO < unat algo then (Inl EINVAL, s)
      else if \<not> enc_available (t ! unat algo) then (Inl EOPNOTSUPP, s)
      else if unat algo = LOLELFFS_ENC_AES256_XTS then lolelffs_decrypt_aes_xts lib t key block_num src s
      else if unat algo = LOLELFFS_ENC_CHACHA20_POLY
        then lolelffs_decrypt_chacha20_poly lib t key block_num src s
      else (Inl EINVAL, s))"

section \<open>Keys\<close>

definition xor_bytes :: "bytes \<Rightarrow> bytes \<Rightarrow> bytes" where
  "xor_bytes a b = map2 (XOR) a b"

text \<open>The loop of \<open>lolelffs_derive_key\<close> with \<open>n\<close> passes to go.\<close>

primrec kdf_loop :: "crypto_lib \<Rightarrow> bytes \<Rightarrow> nat \<Rightarrow> bytes \<Rightarrow> bytes \<Rightarrow> errno + bytes" where
  "kdf_loop lib password 0 temp key_out = Inr key_out"
| "kdf_loop lib password (Suc n) temp key_out =
     (case hmac lib password temp of
        Inl e \<Rightarrow> Inl e
      | Inr temp \<Rightarrow> kdf_loop lib password n temp (xor_bytes key_out temp))"

definition lolelffs_derive_key ::
  "crypto_lib \<Rightarrow> u8 \<Rightarrow> bytes \<Rightarrow> bytes \<Rightarrow> u32 \<Rightarrow> u32 \<Rightarrow> u32 \<Rightarrow> fs \<Rightarrow> (errno + bytes) \<times> fs" where
  "lolelffs_derive_key lib kdf_algo password salt iterations memory parallelism s =
     (if unat kdf_algo \<noteq> LOLELFFS_KDF_PBKDF2 then (Inl EOPNOTSUPP, s)
      else
        (case shash_alloc lib of
           Inl e \<Rightarrow> (Inl e, s)
         | Inr _ \<Rightarrow>
             (case shash_setkey lib password of
                Inl e \<Rightarrow> (Inl e, s)
              | Inr _ \<Rightarrow>
                  (let (ok, s) = kmalloc s
                   in if \<not> ok then (Inl ENOMEM, s)
                      else
                        (let key_out = replicate 32 0; counter = [0, 0, 0, 1]
                         in case hmac lib password (take 32 salt @ counter) of
                              Inl e \<Rightarrow> (Inl e, s)
                            | Inr temp \<Rightarrow>
                                (kdf_loop lib password (unat iterations - 1) temp (xor_bytes key_out temp), s))))))"

definition lolelffs_decrypt_master_key :: "crypto_lib \<Rightarrow> bytes \<Rightarrow> bytes \<Rightarrow> fs \<Rightarrow> (errno + bytes) \<times> fs" where
  "lolelffs_decrypt_master_key lib encrypted_key user_key s =
     (case ecb_alloc lib of
        Inl e \<Rightarrow> (Inl e, s)
      | Inr _ \<Rightarrow>
          (case ecb_setkey lib user_key of
             Inl e \<Rightarrow> (Inl e, s)
           | Inr _ \<Rightarrow>
               (let (ok, s) = kmalloc s
                in if \<not> ok then (Inl ENOMEM, s)
                   else
                     (let (ok, s) = kmalloc s
                      in if \<not> ok then (Inl ENOMEM, s)
                         else (ecb_decrypt lib user_key (take 32 encrypted_key), s)))))"

section \<open>Setting up and cleaning up\<close>

definition lolelffs_enc_init :: "crypto_lib \<Rightarrow> enc_table \<Rightarrow> (errno + unit) \<times> enc_table" where
  "lolelffs_enc_init lib t =
     (let x = LOLELFFS_ENC_AES256_XTS; c = LOLELFFS_ENC_CHACHA20_POLY;
          t = (case xts_alloc lib of
                 Inl _ \<Rightarrow> t[x := (t ! x)\<lparr>skcipher := False, enc_available := False\<rparr>]
               | Inr _ \<Rightarrow> t[x := (t ! x)\<lparr>skcipher := True, enc_available := True\<rparr>]);
          t = (case aead_alloc lib of
                 Inl _ \<Rightarrow> t[c := (t ! c)\<lparr>aead := False, enc_available := False\<rparr>]
               | Inr _ \<Rightarrow>
                   (case aead_setauthsize lib CHACHA20_POLY1305_TAG_SIZE of
                      Inl _ \<Rightarrow> t[c := (t ! c)\<lparr>aead := False, enc_available := False\<rparr>]
                    | Inr _ \<Rightarrow> t[c := (t ! c)\<lparr>aead := True, enc_available := True\<rparr>]))
      in (Inr (), t))"

definition lolelffs_enc_exit :: "enc_table \<Rightarrow> enc_table" where
  "lolelffs_enc_exit t =
     (let x = LOLELFFS_ENC_AES256_XTS; c = LOLELFFS_ENC_CHACHA20_POLY;
          t = (if skcipher (t ! x) then t[x := (t ! x)\<lparr>skcipher := False, enc_available := False\<rparr>] else t)
      in if aead (t ! c) then t[c := (t ! c)\<lparr>aead := False, enc_available := False\<rparr>] else t)"

section \<open>Initialisation vectors\<close>

lemma length_derive_iv [simp]: "length (derive_iv_from_block b n) = n"
  by (simp add: derive_iv_from_block_def Let_def)

lemma derive_iv_prefix: "8 \<le> n \<Longrightarrow> take 8 (derive_iv_from_block b n) = enc64 b"
  by (simp add: derive_iv_from_block_def Let_def)

lemma derive_iv_inj: "8 \<le> n \<Longrightarrow> derive_iv_from_block b n = derive_iv_from_block b' n \<Longrightarrow> b = b'"
  using derive_iv_prefix [of n b] derive_iv_prefix [of n b'] dec_enc_words(3) [of b] dec_enc_words(3) [of b'] by metis

section \<open>PBKDF2\<close>

text \<open>
  The definition of RFC 8018 for a pseudo-random function \<open>prf\<close> and the first output block:
  \<open>U 1 = prf password (salt || INT 1)\<close>, \<open>U (j + 1) = prf password (U j)\<close>, and the key is the
  exclusive or of \<open>U 1\<close> to \<open>U c\<close>.
\<close>

primrec pbkdf2_U :: "(bytes \<Rightarrow> bytes) \<Rightarrow> bytes \<Rightarrow> nat \<Rightarrow> bytes" where
  "pbkdf2_U prf u1 0 = u1"
| "pbkdf2_U prf u1 (Suc j) = prf (pbkdf2_U prf u1 j)"

definition pbkdf2_key :: "(bytes \<Rightarrow> bytes) \<Rightarrow> bytes \<Rightarrow> nat \<Rightarrow> bytes" where
  "pbkdf2_key prf salt c =
     (let u1 = prf (salt @ [0, 0, 0, 1])
      in map (\<lambda>i. fold (\<lambda>j x. x XOR pbkdf2_U prf u1 j ! i) [0..<c] 0) [0..<32])"

lemma pbkdf2_U_shift: "pbkdf2_U prf (prf u) j = prf (pbkdf2_U prf u j)"
  by (induction j) simp_all

lemma fold_xor_start:
  "fold (\<lambda>j x. x XOR f j) js (a :: u8) = a XOR fold (\<lambda>j x. x XOR f j) js 0"
proof (induction js arbitrary: a)
  case (Cons j js)
  show ?case using Cons [of "a XOR f j"] Cons [of "f j"] by (simp add: xor.assoc)
qed simp

lemma pbkdf2_fold_Suc:
  "fold (\<lambda>j x. x XOR pbkdf2_U prf u j ! i) [0..<Suc n] 0 =
     u ! i XOR fold (\<lambda>j x. x XOR pbkdf2_U prf (prf u) j ! i) [0..<n] 0"
proof -
  have "fold (\<lambda>j x. x XOR pbkdf2_U prf u j ! i) [0..<Suc n] 0 =
      fold (\<lambda>j x. x XOR pbkdf2_U prf u j ! i) (map Suc [0..<n]) (u ! i)"
    by (simp only: upt_conv_Cons [of 0 "Suc n"] map_Suc_upt) simp
  also have "\<dots> = fold (\<lambda>j x. x XOR pbkdf2_U prf (prf u) j ! i) [0..<n] (u ! i)"
    by (simp only: fold_map comp_def pbkdf2_U.simps pbkdf2_U_shift)
  finally show ?thesis by (simp only: fold_xor_start [of _ "[0..<n]" "u ! i"])
qed

lemma kdf_loop_pbkdf2:
  assumes "\<And>d. hmac lib password d = Inr (prf d)" "\<And>d. length (prf d) = 32"
  shows "length key_out = 32 \<Longrightarrow> kdf_loop lib password n temp key_out =
    Inr (map (\<lambda>i. key_out ! i XOR fold (\<lambda>j x. x XOR pbkdf2_U prf (prf temp) j ! i) [0..<n] 0) [0..<32])"
proof (induction n arbitrary: temp key_out)
  case 0
  then show ?case using map_nth [of key_out] by simp
next
  case (Suc n)
  have len: "length (xor_bytes key_out (prf temp)) = 32" using Suc.prems assms(2) by (simp add: xor_bytes_def)
  have "kdf_loop lib password (Suc n) temp key_out = kdf_loop lib password n (prf temp) (xor_bytes key_out (prf temp))"
    by (simp add: assms(1))
  also have "\<dots> = Inr (map (\<lambda>i. xor_bytes key_out (prf temp) ! i XOR
      fold (\<lambda>j x. x XOR pbkdf2_U prf (prf (prf temp)) j ! i) [0..<n] 0) [0..<32])"
    by (rule Suc.IH [OF len])
  finally show ?case
    unfolding pbkdf2_fold_Suc using Suc.prems assms(2) by (simp add: xor_bytes_def xor.assoc)
qed

section \<open>What is relied on of the ciphers\<close>

text \<open>
  \<open>cipher_inverse\<close>: decryption under the same vector undoes encryption; the block cipher keeps the
  length, the authenticated one adds its tag. \<open>refuses_unkeyed\<close>: the
  crypto API answers \<open>ENOKEY\<close> for a transform on which no key was set.
\<close>

definition cipher_inverse :: "crypto_lib \<Rightarrow> bool" where
  "cipher_inverse lib \<longleftrightarrow> (\<forall>iv x y. (xts_encrypt lib iv x = Inr y \<longrightarrow> xts_decrypt lib iv y = Inr x \<and> length y = length x)
     \<and> (aead_encrypt lib iv x = Inr y \<longrightarrow> aead_decrypt lib iv y = Inr x
          \<and> length y = length x + CHACHA20_POLY1305_TAG_SIZE))"

definition refuses_unkeyed :: "crypto_lib \<Rightarrow> bool" where
  "refuses_unkeyed lib \<longleftrightarrow> (\<forall>iv x. xts_encrypt lib iv x = Inl ENOKEY \<and> xts_decrypt lib iv x = Inl ENOKEY
     \<and> aead_encrypt lib iv x = Inl ENOKEY \<and> aead_decrypt lib iv x = Inl ENOKEY)"

lemma encrypt_block_cases:
  assumes "lolelffs_encrypt_block lib t algo key n x room s = (Inr y, s')"
  obtains (aes) "unat algo = LOLELFFS_ENC_AES256_XTS" "enc_available (t ! unat algo)"
      "xts_encrypt lib (derive_iv_from_block n AES_IV_SIZE) x = Inr y" "kmalloc s = (True, s')"
  | (chacha) "unat algo = LOLELFFS_ENC_CHACHA20_POLY" "enc_available (t ! unat algo)"
      "aead_encrypt lib (derive_iv_from_block n CHACHA20_IV_SIZE) x = Inr y"
      "LOLELFFS_BLOCK_SIZE + CHACHA20_POLY1305_TAG_SIZE \<le> room" "kmalloc s = (True, s')"
  using assms
  by (auto simp: lolelffs_encrypt_block_def lolelffs_encrypt_aes_xts_def lolelffs_encrypt_chacha20_poly_def
      Let_def not_less split: if_splits prod.splits sum.splits)

lemma encrypt_block_frame:
  "lolelffs_encrypt_block lib t algo key n x room s = (r, s') \<Longrightarrow> s' = s \<or> s' = snd (kmalloc s)"
  by (auto simp: lolelffs_encrypt_block_def lolelffs_encrypt_aes_xts_def lolelffs_encrypt_chacha20_poly_def
      Let_def split: if_splits prod.splits sum.splits)

lemma decrypt_block_frame:
  "lolelffs_decrypt_block lib t algo key n x s = (r, s') \<Longrightarrow> s' = s \<or> s' = snd (kmalloc s)"
  by (auto simp: lolelffs_decrypt_block_def lolelffs_decrypt_aes_xts_def lolelffs_decrypt_chacha20_poly_def
      Let_def split: if_splits prod.splits sum.splits)

lemma decrypt_encrypt:
  assumes "cipher_inverse lib" "lolelffs_encrypt_block lib t algo key n x room s = (Inr y, s')"
    "length x = LOLELFFS_BLOCK_SIZE" "fst (kmalloc u)"
  shows "lolelffs_decrypt_block lib t algo key' n y u = (Inr x, snd (kmalloc u))"
proof -
  obtain u' where u: "kmalloc u = (True, u')" using assms(4) by (cases "kmalloc u") simp
  from assms(2) show ?thesis
  proof (cases rule: encrypt_block_cases)
    case aes
    then have "xts_decrypt lib (derive_iv_from_block n AES_IV_SIZE) y = Inr x"
      using assms(1) by (simp add: cipher_inverse_def)
    then show ?thesis
      using aes u by (simp add: lolelffs_decrypt_block_def lolelffs_decrypt_aes_xts_def enc_ids)
  next
    case chacha
    then have "aead_decrypt lib (derive_iv_from_block n CHACHA20_IV_SIZE) y = Inr x"
      "length y = LOLELFFS_BLOCK_SIZE + CHACHA20_POLY1305_TAG_SIZE"
      using assms(1,3) by (simp_all add: cipher_inverse_def)
    then show ?thesis
      using chacha u by (simp add: lolelffs_decrypt_block_def lolelffs_decrypt_chacha20_poly_def enc_ids)
  qed
qed

section \<open>Properties\<close>

lemma derive_key_eq:
  assumes "\<And>d. hmac lib password d = Inr (prf d)" "\<And>d. length (prf d) = 32"
    "shash_alloc lib = Inr ()" "shash_setkey lib password = Inr ()"
    "length salt = 32" "fst (kmalloc s)" "unat kdf_algo = LOLELFFS_KDF_PBKDF2"
  shows "lolelffs_derive_key lib kdf_algo password salt iterations memory parallelism s =
    (Inr (pbkdf2_key prf salt (max 1 (unat iterations))), snd (kmalloc s))"
proof -
  define u1 where "u1 = prf (salt @ [0, 0, 0, 1])"
  have u1: "length u1 = 32" "xor_bytes (replicate 32 0) u1 = u1"
    using assms(2) by (simp_all add: u1_def xor_bytes_def list_eq_iff_nth_eq)
  obtain s' where "kmalloc s = (True, s')" using assms(6) by (cases "kmalloc s") simp
  then have "lolelffs_derive_key lib kdf_algo password salt iterations memory parallelism s =
      (kdf_loop lib password (unat iterations - 1) u1 u1, snd (kmalloc s))"
    using assms u1 by (simp add: lolelffs_derive_key_def u1_def [symmetric])
  also have "kdf_loop lib password (unat iterations - 1) u1 u1 =
      Inr (map (\<lambda>i. u1 ! i XOR fold (\<lambda>j x. x XOR pbkdf2_U prf (prf u1) j ! i) [0..<unat iterations - 1] 0) [0..<32])"
    using assms(1,2) u1 by (intro kdf_loop_pbkdf2) simp_all
  also have "Inr (map (\<lambda>i. u1 ! i XOR fold (\<lambda>j x. x XOR pbkdf2_U prf (prf u1) j ! i) [0..<unat iterations - 1] 0) [0..<32]) =
      Inr (pbkdf2_key prf salt (Suc (unat iterations - 1)))"
    unfolding pbkdf2_fold_Suc [symmetric] by (simp only: pbkdf2_key_def u1_def Let_def)
  also have "Suc (unat iterations - 1) = max 1 (unat iterations)" by linarith
  finally show ?thesis .
qed

text \<open>
  C28. \<open>lolelffs_derive_key\<close> computes PBKDF2: when the kernel's HMAC works and gives 32 bytes, and
  memory is not exhausted, the key is the exclusive or of the \<open>U\<close> chain of the standard's length,
  for every password, salt and iteration count. A count of 0 is treated as 1.
\<close>

theorem derive_key_pbkdf2:
  assumes "\<forall>d. hmac lib password d = Inr (prf d) \<and> length (prf d) = 32"
    "shash_alloc lib = Inr ()" "shash_setkey lib password = Inr ()"
    "length salt = 32" "fst (kmalloc s)" "unat kdf_algo = LOLELFFS_KDF_PBKDF2"
  shows "fst (lolelffs_derive_key lib kdf_algo password salt iterations memory parallelism s) =
    Inr (pbkdf2_key prf salt (max 1 (unat iterations)))"
  using derive_key_eq [of lib password "prf" salt s kdf_algo] assms by simp

text \<open>An HMAC for evaluation: the exclusive or of all bytes with a running count, 32 times.\<close>

definition toy_hmac :: "bytes \<Rightarrow> bytes \<Rightarrow> bytes" where
  "toy_hmac key d = replicate 32 (fold (\<lambda>b x. 3 * x + b) (key @ d) 1)"

definition toy_crypto :: crypto_lib where
  "toy_crypto = \<lparr>xts_alloc = Inr (), xts_encrypt = (\<lambda>iv x. Inr (map (\<lambda>b. b XOR hd iv) x)),
     xts_decrypt = (\<lambda>iv x. Inr (map (\<lambda>b. b XOR hd iv) x)),
     aead_alloc = Inr (), aead_setauthsize = (\<lambda>n. Inr ()),
     aead_encrypt = (\<lambda>iv x. Inr (x @ replicate 16 (hd iv))),
     aead_decrypt = (\<lambda>iv x. if drop (length x - 16) x = replicate 16 (hd iv) then Inr (take (length x - 16) x) else Inl EBADMSG),
     shash_alloc = Inr (), shash_setkey = (\<lambda>k. Inr ()), hmac = (\<lambda>k d. Inr (toy_hmac k d)),
     ecb_alloc = Inr (), ecb_setkey = (\<lambda>k. Inr ()), ecb_decrypt = (\<lambda>k x. Inr (map2 (XOR) x k))\<rparr>"

definition unkeyed_crypto :: crypto_lib where
  "unkeyed_crypto = toy_crypto\<lparr>xts_encrypt := \<lambda>iv x. Inl ENOKEY, xts_decrypt := \<lambda>iv x. Inl ENOKEY,
     aead_encrypt := \<lambda>iv x. Inl ENOKEY, aead_decrypt := \<lambda>iv x. Inl ENOKEY\<rparr>"

definition toy_enc_table :: enc_table where
  "toy_enc_table = snd (lolelffs_enc_init toy_crypto enc_static)"

lemma toy_inverse: "cipher_inverse toy_crypto"
  by (auto simp: cipher_inverse_def toy_crypto_def CHACHA20_POLY1305_TAG_SIZE_def xor.assoc comp_def)

lemma toy_enc_table_eq: "toy_enc_table = [zero_enc_ctx, \<lparr>skcipher = True, aead = False, enc_available = True\<rparr>,
    \<lparr>skcipher = False, aead = True, enc_available = True\<rparr>]"
  by (simp add: toy_enc_table_def lolelffs_enc_init_def toy_crypto_def enc_static_def enc_ids zero_enc_ctx_def
      Let_def numeral_2_eq_2)

theorem derive_key_pbkdf2_witness:
  "fst (lolelffs_derive_key toy_crypto 2 [112, 119] (replicate 32 7) 3 0 0 tiny_fs) =
    Inr (pbkdf2_key (toy_hmac [112, 119]) (replicate 32 7) 3)"
proof -
  have "fst (kmalloc tiny_fs)" by (simp add: kmalloc_def tiny_fs_def)
  then show ?thesis
    using derive_key_pbkdf2 [of toy_crypto "[112, 119]" "toy_hmac [112, 119]" "replicate 32 7" tiny_fs 2 3 0 0]
    by (simp add: toy_crypto_def toy_hmac_def LOLELFFS_KDF_PBKDF2_def)
qed

text \<open>
  No two blocks share an initialisation vector: for both ciphers the vector has the cipher's
  length and determines the block number it was made from.
\<close>

theorem block_iv_unique:
  "length (derive_iv_from_block b AES_IV_SIZE) = 16 \<and> length (derive_iv_from_block b CHACHA20_IV_SIZE) = 12
    \<and> (derive_iv_from_block b AES_IV_SIZE = derive_iv_from_block b' AES_IV_SIZE \<longleftrightarrow> b = b')
    \<and> (derive_iv_from_block b CHACHA20_IV_SIZE = derive_iv_from_block b' CHACHA20_IV_SIZE \<longleftrightarrow> b = b')"
  using derive_iv_inj [of AES_IV_SIZE b b'] derive_iv_inj [of CHACHA20_IV_SIZE b b']
  by (auto simp: AES_IV_SIZE_def CHACHA20_IV_SIZE_def)



end
