(* ===== verification/Dir.thy ===== *)
theory Dir
  imports Namei_Dir Encrypt
begin

text \<open>
  The operations of an open directory, \<^verbatim>\<open>src/dir.c\<close>: listing (\<open>lolelffs_iterate\<close>) and the two
  requests of \<open>lolelffs_ioctl\<close>. The kernel's part of a listing are parameters: \<open>actor\<close> says whether
  the caller's buffer takes an entry, and \<open>dots\<close> is \<open>dir_emit_dots\<close>.
\<close>

section \<open>Listing\<close>

record dir_context =
  pos :: nat
  emitted :: "(bytes \<times> u32) list"

type_synonym actor = "dir_context \<Rightarrow> bytes \<Rightarrow> u32 \<Rightarrow> bool"
type_synonym dots = "dir_context \<Rightarrow> bool \<times> dir_context"

definition dir_entry :: "lolelffs_file \<Rightarrow> bytes \<times> u32" where
  "dir_entry f = (cstr (filename f), inode f)"

text \<open>The innermost loop, over the entries of a block from number \<open>fi\<close> on.\<close>

fun emit_slots :: "actor \<Rightarrow> lolelffs_file list \<Rightarrow> nat \<Rightarrow> dir_context \<Rightarrow> nat \<times> dir_context" where
  "emit_slots actor [] fi ctx = (fi, ctx)"
| "emit_slots actor (f # fl) fi ctx =
     (if inode f \<noteq> 0 \<and> \<not> actor ctx (cstr (filename f)) (inode f) then (fi, ctx)
      else
        (let ctx = (if inode f \<noteq> 0 then ctx\<lparr>emitted := emitted ctx @ [dir_entry f]\<rparr> else ctx)
         in emit_slots actor fl (Suc fi) (ctx\<lparr>pos := pos ctx + 1\<rparr>)))"

text \<open>
  The loop over the blocks of an extent, from block \<open>bi\<close> on. \<open>fi\<close> is not reset, neither here nor for
  the next extent, and \<open>bi\<close> is not reset for the next extent.
\<close>

function iter_blocks :: "actor \<Rightarrow> fs \<Rightarrow> lolelffs_extent \<Rightarrow> nat \<Rightarrow> nat \<Rightarrow> dir_context \<Rightarrow> (errno + nat \<times> nat) \<times> dir_context" where
  "iter_blocks actor s e bi fi ctx =
     (if bi < unat (ee_len e)
      then (let k = sector s (ee_start e + of_nat bi)
            in if \<not> readable s k then (Inl EIO, ctx)
               else
                 (let d = dir_at s k
                  in if inode (files d ! 0) = 0 then (Inr (bi, fi), ctx)
                     else
                       (let (fi, ctx) = emit_slots actor (drop fi (files d)) fi ctx
                        in iter_blocks actor s e (Suc bi) fi ctx)))
      else (Inr (bi, fi), ctx))"
  by pat_completeness auto
termination by (relation "measure (\<lambda>(_, _, e, bi, _). unat (ee_len e) - bi)") auto

declare iter_blocks.simps [simp del]

fun iter_extents :: "actor \<Rightarrow> fs \<Rightarrow> lolelffs_extent list \<Rightarrow> nat \<Rightarrow> nat \<Rightarrow> dir_context \<Rightarrow> (errno + unit) \<times> dir_context" where
  "iter_extents actor s [] bi fi ctx = (Inr (), ctx)"
| "iter_extents actor s (e # es) bi fi ctx =
     (if ee_start e = 0 then (Inr (), ctx)
      else
        (case iter_blocks actor s e bi fi ctx of
           (Inl err, ctx) \<Rightarrow> (Inl err, ctx)
         | (Inr (bi, fi), ctx) \<Rightarrow> iter_extents actor s es bi fi ctx))"

definition lolelffs_iterate :: "actor \<Rightarrow> dots \<Rightarrow> fs \<Rightarrow> u32 \<Rightarrow> dir_context \<Rightarrow> (errno + unit) \<times> dir_context" where
  "lolelffs_iterate actor dots s dir ctx =
     (let i = inode_of s dir
      in if \<not> S_ISDIR (vi_mode i) then (Inl ENOTDIR, ctx)
         else if LOLELFFS_MAX_SUBFILES + 2 < pos ctx then (Inr (), ctx)
         else
           (let (ok, ctx) = dots ctx
            in if \<not> ok then (Inr (), ctx)
               else
                 (let kd = sector s (ci_ei_block i)
                  in if \<not> readable s kd then (Inl EIO, ctx)
                     else
                       (let p = pos ctx - 2; ei = p div LOLELFFS_FILES_PER_EXT;
                            bi = p mod LOLELFFS_FILES_PER_EXT div LOLELFFS_FILES_PER_BLOCK;
                            fi = p mod LOLELFFS_FILES_PER_BLOCK
                        in iter_extents actor s (drop ei (extents (ei_at s kd))) bi fi ctx))))"

section \<open>Requests\<close>

text \<open>
  The two requests: \<open>UNLOCK\<close> with the password and its length, \<open>None\<close> when it cannot be copied
  from the caller, and \<open>ENC_STATUS\<close> with whether the answer can be copied. A password length of
  more than the 256 bytes of the request's buffer makes the key derivation read beyond it.
\<close>

record lolelffs_ioctl_unlock =
  password :: bytes
  password_len :: u32

record lolelffs_ioctl_enc_status =
  st_enabled :: u32
  st_algorithm :: u32
  st_unlocked :: u32

datatype ioctl_cmd = LOLELFFS_IOC_UNLOCK "lolelffs_ioctl_unlock option" | LOLELFFS_IOC_ENC_STATUS bool | OTHER_CMD

definition ioctl_unlock :: "crypto_lib \<Rightarrow> lolelffs_sb_info \<Rightarrow> lolelffs_ioctl_unlock option \<Rightarrow> fs \<Rightarrow> (errno + unit) \<times> fs" where
  "ioctl_unlock lib csb arg s =
     (if enc_enabled csb = 0 then (Inl EINVAL, s)
      else if enc_unlocked (sbi s) then (Inr (), s)
      else
        (case arg of
           None \<Rightarrow> (Inl EFAULT, s)
         | Some req \<Rightarrow>
             (let pw = (password req)[255 := 0]
              in if 256 < unat (password_len req) then (Inl OOPS, s)
                 else
                   (case lolelffs_derive_key lib (ucast (enc_kdf_algo csb)) (take (unat (password_len req)) pw) (enc_salt csb)
                           (enc_kdf_iterations csb) (enc_kdf_memory csb) (enc_kdf_parallelism csb) s of
                      (Inl e, s) \<Rightarrow> (Inl e, s)
                    | (Inr user_key, s) \<Rightarrow>
                        (case lolelffs_decrypt_master_key lib (enc_master_key csb) user_key s of
                           (Inl e, s) \<Rightarrow> (Inl e, s)
                         | (Inr master_key, s) \<Rightarrow>
                             (Inr (), s\<lparr>sbi := (sbi s)\<lparr>enc_master_key_decrypted := take 32 master_key, enc_unlocked := True\<rparr>\<rparr>))))))"

definition ioctl_status :: "lolelffs_sb_info \<Rightarrow> fs \<Rightarrow> lolelffs_ioctl_enc_status" where
  "ioctl_status csb s =
     \<lparr>st_enabled = enc_enabled csb, st_algorithm = enc_default_algo csb, st_unlocked = (if enc_unlocked (sbi s) then 1 else 0)\<rparr>"

definition lolelffs_ioctl :: "crypto_lib \<Rightarrow> ioctl_cmd \<Rightarrow> fs \<Rightarrow> (errno + lolelffs_ioctl_enc_status option) \<times> fs" where
  "lolelffs_ioctl lib cmd s =
     (if \<not> readable s (sector s 0) then (Inl EIO, s)
      else
        (let csb = info (dec_super (blocks s (sector s 0)))
         in case cmd of
              LOLELFFS_IOC_UNLOCK arg \<Rightarrow> (case ioctl_unlock lib csb arg s of (r, s) \<Rightarrow> (map_sum id (\<lambda>_. None) r, s))
            | LOLELFFS_IOC_ENC_STATUS ok \<Rightarrow> (if ok then Inr (Some (ioctl_status csb s)) else Inl EFAULT, s)
            | OTHER_CMD \<Rightarrow> (Inl ENOTTY, s)))"

section \<open>What a listing gives\<close>

text \<open>
  \<open>dots_ok\<close>: what \<open>dir_emit_dots\<close> does when the caller takes everything: it adds the entries of
  the directory and its parent and moves to position 2, and does nothing from there on.
\<close>

definition dots_ok :: "dots \<Rightarrow> (bytes \<times> u32) list \<Rightarrow> bool" where
  "dots_ok dots ds \<longleftrightarrow> dots \<lparr>pos = 0, emitted = []\<rparr> = (True, \<lparr>pos = 2, emitted = ds\<rparr>)
     \<and> (\<forall>c. 2 \<le> pos c \<longrightarrow> dots c = (True, c))"

text \<open>Repeated calls with one context, as a program reading the directory makes them.\<close>

primrec read_calls :: "actor \<Rightarrow> dots \<Rightarrow> fs \<Rightarrow> u32 \<Rightarrow> nat \<Rightarrow> dir_context \<Rightarrow> (errno + unit) \<times> dir_context" where
  "read_calls actor dots s dir 0 ctx = (Inr (), ctx)"
| "read_calls actor dots s dir (Suc n) ctx =
     (case lolelffs_iterate actor dots s dir ctx of
        (Inl e, ctx) \<Rightarrow> (Inl e, ctx)
      | (Inr _, ctx) \<Rightarrow> read_calls actor dots s dir n ctx)"

lemma emit_slots_all:
  "emit_slots (\<lambda>_ _ _. True) fl fi ctx =
     (fi + length fl, \<lparr>pos = pos ctx + length fl, emitted = emitted ctx @ map dir_entry (filter (\<lambda>f. inode f \<noteq> 0) fl)\<rparr>)"
  by (induction fl arbitrary: fi ctx) (simp_all add: Let_def)

text \<open>Behind the first block of a call nothing is emitted.\<close>

lemma iter_blocks_idle:
  assumes "\<And>b. bi \<le> b \<Longrightarrow> b < unat (ee_len e) \<Longrightarrow> readable s (sector s (ee_start e + of_nat b))"
    and "\<And>k. length (files (dir_at s k)) = LOLELFFS_FILES_PER_BLOCK"
  shows "\<exists>b. iter_blocks actor s e bi LOLELFFS_FILES_PER_BLOCK ctx = (Inr (b, LOLELFFS_FILES_PER_BLOCK), ctx)"
  using assms(1)
proof (induction "unat (ee_len e) - bi" arbitrary: bi)
  case 0
  then show ?case by (simp add: iter_blocks.simps)
next
  case (Suc n)
  then have bi: "bi < unat (ee_len e)" "n = unat (ee_len e) - Suc bi" by simp_all
  from Suc.hyps(1) [OF bi(2)] Suc.prems obtain b where
    "iter_blocks actor s e (Suc bi) LOLELFFS_FILES_PER_BLOCK ctx = (Inr (b, LOLELFFS_FILES_PER_BLOCK), ctx)" by force
  with bi Suc.prems show ?case
    by (simp add: iter_blocks.simps [of actor s e bi] Let_def assms(2))
qed

text \<open>The entries behind the last one are empty.\<close>

definition dir_clean :: "fs \<Rightarrow> nat \<Rightarrow> bool" where
  "dir_clean s kd \<longleftrightarrow> (\<forall>f \<in> set (drop (unat (nr_files (ei_at s kd))) (dir_slots s kd)). inode f = 0)"

lemma filter_front:
  "(\<And>i. i < n \<Longrightarrow> i < length xs \<Longrightarrow> P (xs ! i)) \<Longrightarrow> (\<And>i. n \<le> i \<Longrightarrow> i < length xs \<Longrightarrow> \<not> P (xs ! i)) \<Longrightarrow> filter P xs = take n xs"
proof -
  assume a: "\<And>i. i < n \<Longrightarrow> i < length xs \<Longrightarrow> P (xs ! i)" "\<And>i. n \<le> i \<Longrightarrow> i < length xs \<Longrightarrow> \<not> P (xs ! i)"
  have "\<forall>x \<in> set (take n xs). P x" using a(1) by (auto simp: in_set_conv_nth)
  moreover have "\<forall>x \<in> set (drop n xs). \<not> P x" using a(2) by (auto simp: in_set_conv_nth)
  ultimately have "filter P (take n xs) = take n xs" "filter P (drop n xs) = []" by simp_all
  then show "filter P xs = take n xs" by (metis append_Nil2 append_take_drop_id filter_append)
qed

definition block_entries :: "fs \<Rightarrow> lolelffs_extent \<Rightarrow> nat \<Rightarrow> lolelffs_file list" where
  "block_entries s e b = files (dir_at s (sector s (ee_start e + of_nat b)))"

lemma small_dir_blocks:
  assumes wf: "wf_dev s" and dir: "small_dir s kd" and e: "e = extents (ei_at s kd) ! 0" "ee_start e \<noteq> 0"
  shows "unat (ee_len e) = 8" "unat (nr_files (ei_at s kd)) \<le> 120" "length (dir_slots s kd) = 120"
    "\<And>b. b < 8 \<Longrightarrow> readable s (sector s (ee_start e + of_nat b))"
    "\<And>b j. b < 8 \<Longrightarrow> j < 15 \<Longrightarrow> dir_slots s kd ! (15 * b + j) = block_entries s e b ! j"
proof -
  note D = small_dirD [OF dir wf e(2) [unfolded e(1)], folded e(1)]
  show "unat (ee_len e) = 8" "length (dir_slots s kd) = 120" using D by simp_all
  show "unat (nr_files (ei_at s kd)) \<le> 120" "\<And>b. b < 8 \<Longrightarrow> readable s (sector s (ee_start e + of_nat b))"
    using dir e D(3) by (auto simp: small_dir_def Let_def extent_blocks_def)
  have "dir_slots s kd = concat (map (block_entries s e) [0..<8])"
    using D(1,3) by (simp add: dir_slots_def slots_of_def extent_blocks_def block_entries_def [abs_def] comp_def)
  then show "dir_slots s kd ! (15 * b + j) = block_entries s e b ! j" if "b < 8" "j < 15" for b j
    using nth_concat_uniform [of "map (block_entries s e) [0..<8]" 15 "15 * b + j"] that length_files [OF wf]
    by (simp add: block_entries_def files_per_block)
qed

text \<open>Block \<open>b\<close> of a directory of \<open>n\<close> entries holds its entries from number \<open>15 b\<close> on.\<close>

lemma block_live:
  assumes wf: "wf_dev s" and dir: "small_dir s kd" "dir_clean s kd" and n: "n = unat (nr_files (ei_at s kd))"
    and e: "e = extents (ei_at s kd) ! 0" "ee_start e \<noteq> 0" and b: "b < 8"
  shows "filter (\<lambda>f. inode f \<noteq> 0) (block_entries s e b) = take 15 (drop (15 * b) (take n (dir_slots s kd)))"
    and "inode (block_entries s e b ! 0) \<noteq> 0 \<longleftrightarrow> 15 * b < n"
proof -
  note B = small_dir_blocks [OF wf dir(1) e] and D = small_dirD [OF dir(1) wf e(2) [unfolded e(1)], folded n]
  have len: "length (block_entries s e b) = 15" by (simp add: block_entries_def length_files [OF wf] files_per_block)
  have z: "inode (dir_slots s kd ! i) = 0" if "n \<le> i" "i < 120" for i
  proof -
    have "dir_slots s kd ! i = drop n (dir_slots s kd) ! (i - n)" "i - n < length (drop n (dir_slots s kd))"
      using that B(3) by simp_all
    then have "dir_slots s kd ! i \<in> set (drop n (dir_slots s kd))" by (metis nth_mem)
    then show ?thesis using dir(2) by (simp add: dir_clean_def n)
  qed
  have live: "inode (block_entries s e b ! j) \<noteq> 0 \<longleftrightarrow> 15 * b + j < n" if "j < 15" for j
    using B(5) [OF b that] D(4) [of "15 * b + j"] z [of "15 * b + j"] that b by force
  from live [of 0] show "inode (block_entries s e b ! 0) \<noteq> 0 \<longleftrightarrow> 15 * b < n" by simp
  have "filter (\<lambda>f. inode f \<noteq> 0) (block_entries s e b) = take (n - 15 * b) (block_entries s e b)"
    by (rule filter_front) (use live len in auto)
  also have "\<dots> = take 15 (drop (15 * b) (take n (dir_slots s kd)))"
    using B(2,3) n len B(5) [OF b] by (intro nth_equalityI) auto
  finally show "filter (\<lambda>f. inode f \<noteq> 0) (block_entries s e b) = take 15 (drop (15 * b) (take n (dir_slots s kd)))" .
qed

lemma iter_call:
  assumes wf: "wf_dev s" and dir: "small_dir s kd" "dir_clean s kd" and n: "n = unat (nr_files (ei_at s kd))"
    and e: "e = extents (ei_at s kd) ! 0" "ee_start e \<noteq> 0" and b: "b \<le> 8"
  shows "\<exists>r. iter_blocks (\<lambda>_ _ _. True) s e b 0 ctx = (Inr r,
    if 15 * b < n then \<lparr>pos = pos ctx + 15, emitted = emitted ctx @ map dir_entry (take 15 (drop (15 * b) (take n (dir_slots s kd))))\<rparr>
    else ctx)"
proof -
  note B = small_dir_blocks [OF wf dir(1) e]
  have fpb: "LOLELFFS_FILES_PER_BLOCK = 15" by (simp add: files_per_block)
  show ?thesis
  proof (cases "b < 8")
    case False
    with b n B(1,2) show ?thesis by (simp add: iter_blocks.simps [of _ s e 8])
  next
    case True
    note L = block_live [OF wf dir n e True]
    let ?k = "sector s (ee_start e + of_nat b)"
    have be: "files (dir_at s ?k) = block_entries s e b" "length (block_entries s e b) = 15"
      by (simp_all add: block_entries_def length_files [OF wf] fpb)
    show ?thesis
    proof (cases "15 * b < n")
      case live: True
      let ?c = "\<lparr>pos = pos ctx + 15, emitted = emitted ctx @ map dir_entry (take 15 (drop (15 * b) (take n (dir_slots s kd))))\<rparr>"
      have "iter_blocks (\<lambda>_ _ _. True) s e b 0 ctx = iter_blocks (\<lambda>_ _ _. True) s e (Suc b) 15 ?c"
        using True live L B(1) B(4) [OF True] by (simp add: iter_blocks.simps [of _ s e b] Let_def be emit_slots_all)
      moreover have "\<exists>r. iter_blocks (\<lambda>_ _ _. True) s e (Suc b) 15 ?c = (Inr r, ?c)"
        using iter_blocks_idle [of "Suc b" e s "\<lambda>_ _ _. True" ?c] B(1,4) length_files [OF wf] fpb by auto
      ultimately show ?thesis using live by simp
    qed (use True L B(1) B(4) [OF True] in \<open>simp add: iter_blocks.simps [of _ s e b] Let_def be\<close>)
  qed
qed

definition listed :: "fs \<Rightarrow> nat \<Rightarrow> nat \<Rightarrow> dir_context \<Rightarrow> dir_context" where
  "listed s kd b ctx =
     (if 15 * b < unat (nr_files (ei_at s kd)) then \<lparr>pos = pos ctx + 15, emitted = emitted ctx @ take 15 (drop (15 * b) (names s kd))\<rparr>
      else ctx)"

lemma iter_extents_call:
  assumes wf: "wf_dev s" and dir: "small_dir s kd" "dir_clean s kd" and b: "b \<le> 8"
  shows "iter_extents (\<lambda>_ _ _. True) s (extents (ei_at s kd)) b 0 ctx = (Inr (), listed s kd b ctx)"
proof -
  let ?n = "unat (nr_files (ei_at s kd))"
  have "2 \<le> length (extents (ei_at s kd))" using ei_at_wf [OF wf, of kd] by (simp add: wf_ei_def max_extents)
  then obtain e e' es where x: "extents (ei_at s kd) = e # e' # es"
    by (metis (no_types) Suc_le_length_iff numeral_2_eq_2)
  have e': "ee_start e' = 0" using dir(1) x by (simp add: small_dir_def Let_def)
  show ?thesis
  proof (cases "ee_start e = 0")
    case True
    then have "?n = 0" using dir(1) x by (simp add: small_dir_def Let_def)
    with True show ?thesis by (simp add: x listed_def)
  next
    case False
    have "map dir_entry (take 15 (drop (15 * b) (take ?n (dir_slots s kd)))) = take 15 (drop (15 * b) (names s kd))"
      unfolding names_def by (simp only: take_map drop_map dir_entry_def [abs_def])
    with iter_call [OF wf dir refl _ False b, of ctx] x obtain r
      where "iter_blocks (\<lambda>_ _ _. True) s e b 0 ctx = (Inr r, listed s kd b ctx)" by (auto simp: listed_def)
    with False e' show ?thesis by (cases r) (simp add: x)
  qed
qed

lemma iterate_call:
  assumes wf: "wf_dev s" and dir: "dir_ok s dir" "dir_clean s (dir_kd s dir)" "S_ISDIR (vi_mode (inode_of s dir))"
    and dots: "dots_ok dots ds" and p: "pos ctx = 2 + 15 * b" "b \<le> 8"
  shows "lolelffs_iterate (\<lambda>_ _ _. True) dots s dir ctx = (Inr (), listed s (dir_kd s dir) b ctx)"
proof -
  have d: "small_dir s (dir_kd s dir)" "readable s (dir_kd s dir)" using dir(1) by (simp_all add: dir_ok_def Let_def dir_kd_def)
  have "15 * b mod 30720 = 15 * b" "15 * b div 30720 = 0" using p(2) by simp_all
  then have "lolelffs_iterate (\<lambda>_ _ _. True) dots s dir ctx =
      iter_extents (\<lambda>_ _ _. True) s (extents (ei_at s (dir_kd s dir))) b 0 ctx"
    using dir(3) d dots p by (simp add: lolelffs_iterate_def Let_def dots_ok_def dir_kd_def const_values)
  then show ?thesis using iter_extents_call [OF wf d(1) dir(2) p(2)] by simp
qed

lemma iterate_start:
  "dots_ok dots ds \<Longrightarrow> S_ISDIR (vi_mode (inode_of s dir)) \<Longrightarrow>
   lolelffs_iterate actor dots s dir \<lparr>pos = 0, emitted = []\<rparr> = lolelffs_iterate actor dots s dir \<lparr>pos = 2, emitted = ds\<rparr>"
  by (simp add: lolelffs_iterate_def Let_def dots_ok_def const_values)

lemma read_calls_from:
  assumes wf: "wf_dev s" and dir: "dir_ok s dir" "dir_clean s (dir_kd s dir)" "S_ISDIR (vi_mode (inode_of s dir))"
    and dots: "dots_ok dots ds" and b: "b \<le> 8" "nr_entries s dir \<le> 15 * (b + k)"
  shows "read_calls (\<lambda>_ _ _. True) dots s dir k \<lparr>pos = 2 + 15 * b, emitted = l\<rparr> =
    (Inr (), \<lparr>pos = 2 + 15 * max b ((nr_entries s dir + 14) div 15), emitted = l @ drop (15 * b) (names s (dir_kd s dir))\<rparr>)"
  using b
proof (induction k arbitrary: b l)
  let ?kd = "dir_kd s dir" let ?n = "nr_entries s dir"
  have "small_dir s ?kd" using dir(1) by (simp add: dir_ok_def Let_def dir_kd_def)
  then have ln: "length (names s ?kd) = ?n" "?n \<le> 120"
    using length_names [of s ?kd] wf by (auto simp: nr_entries_def small_dir_def Let_def)
  {
    case 0
    then have "(?n + 14) div 15 \<le> b" by simp
    with 0 ln show ?case by simp
  next
    case (Suc k)
    let ?c = "\<lparr>pos = 2 + 15 * b, emitted = l\<rparr>"
    note c = iterate_call [OF wf dir dots, of ?c b]
    show ?case
    proof (cases "15 * b < ?n")
      case False
      then have "listed s ?kd b ?c = ?c" by (simp add: listed_def nr_entries_def)
      with c Suc.IH [of b l] Suc.prems False show ?thesis by simp
    next
      case True
      let ?l = "l @ take 15 (drop (15 * b) (names s ?kd))"
      have "listed s ?kd b ?c = \<lparr>pos = 2 + 15 * Suc b, emitted = ?l\<rparr>" using True by (simp add: listed_def nr_entries_def)
      moreover have "Suc b \<le> 8" "max (Suc b) ((?n + 14) div 15) = max b ((?n + 14) div 15)" using True ln(2) by simp_all
      moreover have "?l @ drop (15 * Suc b) (names s ?kd) = l @ drop (15 * b) (names s ?kd)"
        using append_take_drop_id [of 15 "drop (15 * b) (names s ?kd)"] by (simp add: add.commute)
      ultimately show ?thesis using c Suc.IH [of "Suc b" ?l] Suc.prems by simp
    qed
  }
qed


definition demo_dots :: dots where
  "demo_dots c = (True, if pos c < 2 then \<lparr>pos = 2, emitted = emitted c @ [([46], 0), ([46, 46], 0)]\<rparr> else c)"

lemma file_dir:
  "dir_ok file_fs 0" "dir_clean file_fs (dir_kd file_fs 0)" "nr_entries file_fs 0 = 1" "names file_fs (dir_kd file_fs 0) = [([97], 1)]"
proof -
  let ?f = "zero_file\<lparr>inode := 1, filename := strncpy [97] LOLELFFS_FILENAME_LEN\<rparr>"
  have kd: "dir_kd file_fs 0 = 4" by (simp add: dir_kd_def file_sector root_inode_def)
  have x: "extents (ei_at file_fs 4) = zero_extent\<lparr>ee_start := 5, ee_len := 8\<rparr> # replicate 169 zero_extent" "nr_files (ei_at file_fs 4) = 1"
    by (simp_all add: file_at one_extent_extents)
  have db: "data_blocks file_fs 4 = [5, 6, 7, 8, 9, 10, 11, 12]"
    using data_blocks_small [OF file_wf_dev, of 4] x by (simp add: zero_extent_def extent_blocks_def upt_rec)
  have f5: "files (dir_at file_fs 5) = ?f # replicate 14 zero_file"
    unfolding file_at(3) by (simp add: zero_dir_def files_per_block numeral_eq_Suc)
  have fk: "files (dir_at file_fs k) = replicate 15 zero_file" if "k \<noteq> 4" "k \<noteq> 5" "k \<noteq> 13" for k
    using file_at(4) [OF that] by (simp add: zero_dir_def files_per_block)
  have sl: "dir_slots file_fs 4 = ?f # replicate 119 zero_file"
    by (simp add: dir_slots_def slots_of_def db file_sector f5 fk flip: replicate_add)
  show "dir_clean file_fs (dir_kd file_fs 0)" "nr_entries file_fs 0 = 1"
    by (simp_all add: dir_clean_def nr_entries_def kd sl x zero_file_def)
  have "cstr (filename ?f) = [97]" using cstr_strncpy [of "[97]" LOLELFFS_FILENAME_LEN] by (simp add: is_cstr_def size_defs)
  then show "names file_fs (dir_kd file_fs 0) = [([97], 1)]" by (simp add: names_def kd sl x)
  have fd: "first_data file_fs = 4"
    by (simp add: first_data_def first_bfree_def first_ifree_def file_fs_def file_sbi_def dir_sbi_def tiny_sbi_def)
  have fb: "free_blocks (sbi file_fs) = {16..<32}" "free_inodes (sbi file_fs) = {2..<8}" using file_free by (simp_all add: file_fs_def)
  have "extent_blocks (extents (ei_at file_fs 4) ! 0) = [5, 6, 7, 8, 9, 10, 11, 12]" by (simp add: x extent_blocks_def upt_rec)
  then have "small_dir file_fs 4"
    by (simp add: small_dir_def Let_def x sl fd fb file_sector zero_extent_def)
  then show "dir_ok file_fs 0"
    using kd by (simp add: dir_ok_def Let_def fd fb file_sector root_inode_def)
qed


section \<open>Unlocking\<close>

lemma decrypt_master_eq:
  assumes "ecb_alloc lib = Inr ()" "ecb_setkey lib key = Inr ()" "mem s = []"
  shows "lolelffs_decrypt_master_key lib ek key s = (ecb_decrypt lib key (take 32 ek), s)"
  using assms by (simp add: lolelffs_decrypt_master_key_def)

text \<open>
  What is relied on of the kernel's crypto API: the allocations and key settings succeed, the HMAC
  \<open>prf\<close> gives 32 bytes, and the block cipher decrypts by \<open>D\<close>.
\<close>

definition crypto_works :: "crypto_lib \<Rightarrow> (bytes \<Rightarrow> bytes \<Rightarrow> bytes) \<Rightarrow> (bytes \<Rightarrow> bytes \<Rightarrow> bytes) \<Rightarrow> bool" where
  "crypto_works lib prf D \<longleftrightarrow> shash_alloc lib = Inr () \<and> ecb_alloc lib = Inr ()
     \<and> (\<forall>k. shash_setkey lib k = Inr () \<and> ecb_setkey lib k = Inr ())
     \<and> (\<forall>k d. hmac lib k d = Inr (prf k d) \<and> length (prf k d) = 32 \<and> ecb_decrypt lib k d = Inr (D k d))"

text \<open>
  Unlocking an encrypted file system that uses PBKDF2: the request succeeds for every password
  that fits the request's buffer, and what is stored as the master key is the decryption, under
  the key derived from that password, of the one in the superblock.
\<close>

lemma ioctl_unlock_stores:
  assumes dev: "wf_dev s" "readable s (sector s 0)" and csb: "csb = info (dec_super (blocks s (sector s 0)))"
    and enc: "enc_enabled csb \<noteq> 0" "\<not> enc_unlocked (sbi s)" "unat (ucast (enc_kdf_algo csb) :: u8) = LOLELFFS_KDF_PBKDF2"
    and mem: "mem s = []" and lib: "crypto_works lib prf D"
    and pw: "length (password req) = 256" "unat (password_len req) \<le> 256"
    and key: "key = pbkdf2_key (prf (take (unat (password_len req)) ((password req)[255 := 0]))) (enc_salt csb) (max 1 (unat (enc_kdf_iterations csb)))"
  shows "lolelffs_ioctl lib (LOLELFFS_IOC_UNLOCK (Some req)) s =
      (Inr None, s\<lparr>sbi := (sbi s)\<lparr>enc_master_key_decrypted := take 32 (D key (enc_master_key csb)), enc_unlocked := True\<rparr>\<rparr>)"
proof -
  have "wf_super (dec_super (blocks s (sector s 0)))" by (rule suc.ok_dec [OF wf_devD [OF dev(1)]])
  then have w: "length (enc_salt csb) = 32" "length (enc_master_key csb) = 32" by (simp_all add: csb wf_super_def wf_sb_def)
  let ?pw = "take (unat (password_len req)) ((password req)[255 := 0])"
  have "lolelffs_derive_key lib (ucast (enc_kdf_algo csb)) ?pw (enc_salt csb) (enc_kdf_iterations csb) (enc_kdf_memory csb)
      (enc_kdf_parallelism csb) s = (Inr key, s)"
    using derive_key_eq [of lib ?pw "prf ?pw" "enc_salt csb" s "ucast (enc_kdf_algo csb)"] lib w mem enc(3)
    by (simp add: crypto_works_def key)
  moreover have "lolelffs_decrypt_master_key lib (enc_master_key csb) key s = (Inr (D key (enc_master_key csb)), s)"
    using decrypt_master_eq [of lib key s] lib mem w by (simp add: crypto_works_def)
  ultimately show ?thesis
    using dev(2) enc(1,2) pw by (simp add: lolelffs_ioctl_def csb [symmetric] ioctl_unlock_def Let_def)
qed

definition locked_super :: superblock where
  "locked_super = \<lparr>info = (lolelffs_sb_info.truncate zero_sbi)\<lparr>magic := LOLELFFS_MAGIC, enc_enabled := 1,
     enc_kdf_algo := 2, enc_kdf_iterations := 3, enc_master_key := replicate 32 9\<rparr>,
     padding = replicate (LOLELFFS_BLOCK_SIZE - sizeof_sb_info) 0\<rparr>"

definition locked_fs :: fs where
  "locked_fs = dir_fs\<lparr>blocks := (\<lambda>_. zero_block)(0 := enc_super locked_super)\<rparr>"

lemma wf_locked_super: "wf_super locked_super"
  by (simp add: wf_super_def locked_super_def wf_sb_def zero_sbi_def lolelffs_sb_info.truncate_def)

lemma toy_crypto_works: "crypto_works toy_crypto toy_hmac (\<lambda>k x. map2 (XOR) x k)"
  by (simp add: crypto_works_def toy_crypto_def toy_hmac_def)

end
