(* ===== verification/Unlock.thy ===== *)
theory Unlock
  imports Dir
begin

text \<open>
  The program that unlocks a mounted file system, \<^verbatim>\<open>src/unlock_lolelffs.c\<close>, on top of the
  requests of \<^verbatim>\<open>src/dir.c\<close>. Its buffers can always be copied, and what it prints is left out.
  \<open>opened\<close> says whether the mount point can be opened.
\<close>

definition check_status :: "crypto_lib \<Rightarrow> fs \<Rightarrow> u32 option" where
  "check_status lib s =
     (case fst (lolelffs_ioctl lib (LOLELFFS_IOC_ENC_STATUS True) s) of
        Inr (Some status) \<Rightarrow> Some (st_unlocked status)
      | _ \<Rightarrow> None)"

definition unlock_request :: "bytes \<Rightarrow> lolelffs_ioctl_unlock" where
  "unlock_request arg =
     (let buf = strncpy arg 255 @ [0] in \<lparr>password = buf, password_len = of_nat (length (cstr buf))\<rparr>)"

definition unlock_main :: "crypto_lib \<Rightarrow> nat \<Rightarrow> bool \<Rightarrow> bytes \<Rightarrow> fs \<Rightarrow> nat \<times> fs" where
  "unlock_main lib argc opened arg s =
     (if argc \<noteq> 3 \<or> \<not> opened then (1, s)
      else
        (case check_status lib s of
           None \<Rightarrow> (1, s)
         | Some unlocked \<Rightarrow>
             if unlocked = 1 then (0, s)
             else
               (case lolelffs_ioctl lib (LOLELFFS_IOC_UNLOCK (Some (unlock_request arg))) s of
                  (Inl _, s) \<Rightarrow> (1, s)
                | (Inr _, s) \<Rightarrow> (0, s))))"

lemma cstr_buffer: "is_cstr arg \<Longrightarrow> cstr (strncpy arg 255 @ [0]) = take 255 arg"
proof -
  assume a: "is_cstr arg"
  have t: "is_cstr (take 255 arg)" using a by (auto simp: is_cstr_def dest: in_set_takeD)
  have "strncpy arg 255 @ [0] = take 255 arg @ replicate (255 - length arg + 1) 0"
    by (simp add: strncpy_def replicate_append_same flip: replicate_Suc)
  moreover have "takeWhile (\<lambda>b. b \<noteq> 0) (xs @ replicate (n + 1) 0) = xs" if "is_cstr xs" for xs :: bytes and n
    using that by (subst takeWhile_append2) (auto simp: is_cstr_def)
  ultimately show ?thesis using t unfolding cstr_def by simp
qed

text \<open>The bytes the key is derived from are the argument's first 255.\<close>

lemma request_password:
  assumes "is_cstr arg"
  shows "length (password (unlock_request arg)) = 256" "unat (password_len (unlock_request arg)) \<le> 256"
    "take (unat (password_len (unlock_request arg))) ((password (unlock_request arg))[255 := 0]) = take 255 arg"
proof -
  have "unat (of_nat (length (take 255 arg)) :: u32) = length (take 255 arg)" by (rule unat_of_nat_u32) simp
  then have n: "unat (password_len (unlock_request arg)) = min (length arg) 255"
    by (simp add: unlock_request_def Let_def cstr_buffer [OF assms])
  then show "length (password (unlock_request arg)) = 256" "unat (password_len (unlock_request arg)) \<le> 256"
    by (simp_all add: unlock_request_def Let_def)
  have "(strncpy arg 255 @ [0])[255 := 0] = strncpy arg 255 @ [0]" by (simp add: list_update_append)
  then show "take (unat (password_len (unlock_request arg))) ((password (unlock_request arg))[255 := 0]) = take 255 arg"
    unfolding n by (simp add: unlock_request_def Let_def) (auto simp: strncpy_def min_def)
qed

text \<open>
  C32. Unlocking accepts any password: on a mounted, encrypted file system that is still locked and
  uses PBKDF2, the unlock program exits with status 0 for every password and the file system
  counts as unlocked. What is stored as the master key is the one of the superblock, decrypted
  under the key PBKDF2 derives from the first 255 bytes of the password. So the password under
  which the superblock's key was encrypted recovers the master key, and nothing tells any other
  password from it.
\<close>

theorem unlock_any_password:
  assumes dev: "wf_dev s" "readable s (sector s 0)" and csb: "csb = info (dec_super (blocks s (sector s 0)))"
    and enc: "enc_enabled csb \<noteq> 0" "\<not> enc_unlocked (sbi s)" "unat (ucast (enc_kdf_algo csb) :: u8) = LOLELFFS_KDF_PBKDF2"
    and mem: "mem s = []" and lib: "crypto_works lib prf D" and arg: "is_cstr arg"
    and key: "key = pbkdf2_key (prf (take 255 arg)) (enc_salt csb) (max 1 (unat (enc_kdf_iterations csb)))"
  shows "unlock_main lib 3 True arg s =
    (0, s\<lparr>sbi := (sbi s)\<lparr>enc_master_key_decrypted := take 32 (D key (enc_master_key csb)), enc_unlocked := True\<rparr>\<rparr>)"
proof -
  note p = request_password [OF arg]
  have st: "check_status lib s = Some 0" using dev(2) enc(2) by (simp add: check_status_def lolelffs_ioctl_def Let_def ioctl_status_def)
  have io: "lolelffs_ioctl lib (LOLELFFS_IOC_UNLOCK (Some (unlock_request arg))) s =
      (Inr None, s\<lparr>sbi := (sbi s)\<lparr>enc_master_key_decrypted := take 32 (D key (enc_master_key csb)), enc_unlocked := True\<rparr>\<rparr>)"
    by (rule ioctl_unlock_stores [OF dev csb enc mem lib p(1,2)]) (simp only: p(3) key)
  show ?thesis unfolding unlock_main_def st io by simp
qed

theorem unlock_any_password_witness:
  "\<exists>key s'. unlock_main toy_crypto 3 True [112, 119] locked_fs = (0, s')
    \<and> enc_unlocked (sbi s') \<and> enc_master_key_decrypted (sbi s') = take 32 (map2 (XOR) (replicate 32 9) key)"
proof -
  have s: "sector locked_fs 0 = 0" "\<And>k. readable locked_fs k" "\<not> enc_unlocked (sbi locked_fs)" "mem locked_fs = []"
    by (simp_all add: locked_fs_def dir_fs_def tiny_fs_def dir_sbi_def tiny_sbi_def sector_def zero_sbi_def)
  have b: "info (dec_super (blocks locked_fs (sector locked_fs 0))) = info locked_super"
    unfolding s(1) by (simp add: locked_fs_def suc.dec_enc wf_locked_super)
  have i: "enc_enabled (info locked_super) \<noteq> 0" "unat (ucast (enc_kdf_algo (info locked_super)) :: u8) = LOLELFFS_KDF_PBKDF2"
    "enc_master_key (info locked_super) = replicate 32 9"
    by (simp_all add: locked_super_def LOLELFFS_KDF_PBKDF2_def)
  have wf: "wf_dev locked_fs" by (simp add: wf_dev_def locked_fs_def suc.length_enc wf_locked_super)
  have c: "is_cstr [112, 119]" by (simp add: is_cstr_def)
  from unlock_any_password [OF wf s(2) refl _ s(3) _ s(4) toy_crypto_works c refl, unfolded b] i show ?thesis by auto
qed

end
