(* ===== verification/Namei_Remove.thy ===== *)
theory Namei_Remove
  imports Namei_Dir
begin

text \<open>
  What \<open>lolelffs_remove_from_dir\<close> does to the list of a directory's names: the entries behind the
  removed one move down by one position, from block to block, up to the first block that starts
  with an empty entry.
\<close>

section \<open>The blocks as one list\<close>

lemma find_ino_Some:
  "find_ino ino fl = Some i \<longleftrightarrow> i < length fl \<and> inode (fl ! i) = ino \<and> (\<forall>j < i. inode (fl ! j) \<noteq> ino)"
  by (auto simp: find_ino_def find_Some_iff)

lemma find_ino_None: "find_ino ino fl = None \<longleftrightarrow> (\<forall>f \<in> set fl. inode f \<noteq> ino)"
  by (auto simp: find_ino_def find_None_iff all_set_conv_all_nth)

lemma length_remove_at: "i < length fl \<Longrightarrow> length (remove_at i fl) = length fl"
  by (simp add: remove_at_def)

lemma wf_dir_remove_at: "wf_dir d \<Longrightarrow> i < LOLELFFS_FILES_PER_BLOCK \<Longrightarrow> wf_dir (d\<lparr>files := remove_at i (files d)\<rparr>)"
  by (auto simp: wf_dir_def remove_at_def list_all_iff wf_file_def zero_file_def dest: in_set_takeD in_set_dropD)

text \<open>The blocks the loop visits.\<close>

definition used_blocks :: "fs \<Rightarrow> u32 list \<Rightarrow> u32 list" where
  "used_blocks s bs = takeWhile (\<lambda>b. inode (files (dir_at s (sector s b)) ! 0) \<noteq> 0) bs"

lemma pull_effect:
  assumes wf: "wf_dev s" and ne: "kp \<noteq> k"
  shows "wf_dev (pull s kp k)"
    and "files (dir_at (pull s kp k) kp) = (files (dir_at s kp))[LOLELFFS_FILES_PER_BLOCK - 1 := files (dir_at s k) ! 0]"
    and "files (dir_at (pull s kp k) k) = remove_at 0 (files (dir_at s k))"
    and "\<And>j. j \<noteq> kp \<Longrightarrow> j \<noteq> k \<Longrightarrow> blocks (pull s kp k) j = blocks s j"
proof -
  define q where "q = (dir_at s kp)\<lparr>files := (files (dir_at s kp))[LOLELFFS_FILES_PER_BLOCK - 1 := files (dir_at s k) ! 0]\<rparr>"
  have "wf_file (files (dir_at s k) ! 0)"
    using dir_at_wf [OF wf, of k] by (simp add: wf_dir_def list_all_length files_per_block)
  then have wp: "wf_dir q" using dir_at_wf [OF wf, of kp] by (simp add: q_def wf_dir_def list_all_update)
  have wk: "wf_dir ((dir_at s k)\<lparr>files := remove_at 0 (files (dir_at s k))\<rparr>)"
    by (rule wf_dir_remove_at [OF dir_at_wf [OF wf]]) (simp add: files_per_block)
  have d: "dir_at (put_dir s kp q) k = dir_at s k" using ne by (simp add: dir_at_put [OF wp])
  have eq: "pull s kp k = put_dir (put_dir s kp q) k ((dir_at s k)\<lparr>files := remove_at 0 (files (dir_at s k))\<rparr>)"
    unfolding pull_def Let_def q_def [symmetric] d by (rule refl)
  have fq: "files q = (files (dir_at s kp))[LOLELFFS_FILES_PER_BLOCK - 1 := files (dir_at s k) ! 0]" by (simp add: q_def)
  show "wf_dev (pull s kp k)" unfolding eq using wf wp wk by simp
  show "files (dir_at (pull s kp k) kp) = (files (dir_at s kp))[LOLELFFS_FILES_PER_BLOCK - 1 := files (dir_at s k) ! 0]"
    "files (dir_at (pull s kp k) k) = remove_at 0 (files (dir_at s k))"
    using ne fq by (simp_all add: eq dir_at_put [OF wk] dir_at_put [OF wp])
  show "\<And>j. j \<noteq> kp \<Longrightarrow> j \<noteq> k \<Longrightarrow> blocks (pull s kp k) j = blocks s j" by (simp add: eq)
qed

lemma slots_of_cong:
  "(\<And>b. b \<in> set bs \<Longrightarrow> blocks t (sector t b) = blocks s (sector s b)) \<Longrightarrow> slots_of t bs = slots_of s bs"
  by (auto simp: slots_of_def dir_at_def intro!: arg_cong [where f = concat] map_cong)

lemma used_blocks_cong:
  "(\<And>b. b \<in> set bs \<Longrightarrow> blocks t (sector t b) = blocks s (sector s b)) \<Longrightarrow> used_blocks t bs = used_blocks s bs"
  by (auto simp: used_blocks_def dir_at_def intro!: takeWhile_cong)

text \<open>Once the entry is found: every block hands its first entry to the one before it.\<close>

lemma remove_rest:
  assumes "remove_in_extent ino bs (Some kp) s = (r, s')" and "wf_dev s"
    and "distinct bs" "\<forall>b \<in> set bs. readable s (sector s b) \<and> sector s b \<noteq> kp"
    and "last (files (dir_at s kp)) = zero_file"
  shows "(\<exists>p. r = Inr (Some p)) \<and> wf_dev s'
    \<and> files (dir_at s' kp) @ slots_of s' (used_blocks s bs) = butlast (files (dir_at s kp)) @ slots_of s (used_blocks s bs) @ [zero_file]
    \<and> (\<forall>k. k \<noteq> kp \<and> k \<notin> sector s ` set (used_blocks s bs) \<longrightarrow> blocks s' k = blocks s k)"
  using assms
proof (induction bs arbitrary: kp s)
  case Nil
  have "files (dir_at s kp) \<noteq> []" using length_files [OF Nil(2), of kp] by (auto simp: files_per_block)
  with Nil show ?case using append_butlast_last_id [of "files (dir_at s kp)"] by (auto simp: used_blocks_def slots_of_def)
next
  case (Cons b bs)
  let ?k = "sector s b" let ?fp = "files (dir_at s kp)" let ?fk = "files (dir_at s (sector s b))"
  have len: "length ?fp = LOLELFFS_FILES_PER_BLOCK" "length ?fk = LOLELFFS_FILES_PER_BLOCK" using length_files [OF Cons.prems(2)] by simp_all
  then have ne: "?fp \<noteq> []" "?fk \<noteq> []" by (auto simp: files_per_block)
  show ?case
  proof (cases "inode (?fk ! 0) = 0")
    case True
    then have "used_blocks s (b # bs) = []" "r = Inr (Some kp)" "s' = s"
      using Cons.prems by (auto simp: used_blocks_def Let_def)
    then show ?thesis using Cons.prems append_butlast_last_id [OF ne(1)] by (simp add: slots_of_def)
  next
    case False
    let ?t = "pull s kp ?k"
    have kk: "kp \<noteq> ?k" using Cons.prems(4) by auto
    note P = pull_effect [OF Cons.prems(2) kk]
    have run: "remove_in_extent ino bs (Some ?k) ?t = (r, s')" using Cons.prems False by (simp add: Let_def)
    have other: "blocks ?t (sector ?t c) = blocks s (sector s c)" if "c \<in> set bs" for c
      using that Cons.prems(3,4) by (auto intro!: P(4))
    have u: "used_blocks ?t bs = used_blocks s bs" by (rule used_blocks_cong) (rule other)
    have v: "slots_of ?t (used_blocks s bs) = slots_of s (used_blocks s bs)"
      by (rule slots_of_cong, rule other) (auto simp: used_blocks_def dest: set_takeWhileD)
    have fk: "files (dir_at ?t ?k) = tl ?fk @ [zero_file]" unfolding P(3) by (simp add: remove_at_def drop_Suc)
    have fp: "files (dir_at ?t kp) = butlast ?fp @ [hd ?fk]"
      unfolding P(2) using len ne by (simp add: hd_conv_nth list_update_append butlast_conv_take list_eq_iff_nth_eq nth_list_update nth_append files_per_block)
    have IH: "(\<exists>p. r = Inr (Some p)) \<and> wf_dev s'
        \<and> files (dir_at s' ?k) @ slots_of s' (used_blocks s bs) = tl ?fk @ slots_of s (used_blocks s bs) @ [zero_file]
        \<and> (\<forall>k. k \<noteq> ?k \<and> k \<notin> sector s ` set (used_blocks s bs) \<longrightarrow> blocks s' k = blocks ?t k)"
      using Cons.IH [OF run P(1)] Cons.prems(3,4) u v fk by auto
    have uc: "used_blocks s (b # bs) = b # used_blocks s bs" using False by (simp add: used_blocks_def)
    have sec: "sector s' = sector s"
      using remove_in_extent_frame [OF Cons.prems(1)] by (intro sector_eq) simp
    have "kp \<notin> sector s ` set (used_blocks s bs)"
      using Cons.prems(4) by (auto simp: used_blocks_def dest: set_takeWhileD)
    then have "files (dir_at s' kp) = butlast ?fp @ [hd ?fk]" using IH kk fp by (simp add: dir_at_def)
    then have "files (dir_at s' kp) @ slots_of s' (used_blocks s (b # bs))
        = butlast ?fp @ slots_of s (used_blocks s (b # bs)) @ [zero_file]"
      using IH ne(2) by (simp add: uc slots_of_Cons sec)
    with IH P(4) show ?thesis by (auto simp: uc)
  qed
qed

lemma find_ino_append:
  "find_ino ino (xs @ ys) = (case find_ino ino xs of Some i \<Rightarrow> Some i | None \<Rightarrow> map_option ((+) (length xs)) (find_ino ino ys))"
proof (cases "find_ino ino xs")
  case None
  then have xs: "\<forall>j < length xs. inode (xs ! j) \<noteq> ino" by (simp add: find_ino_None all_set_conv_all_nth)
  show ?thesis
  proof (cases "find_ino ino ys")
    case None': None
    with None have "find_ino ino (xs @ ys) = None" by (auto simp: find_ino_None)
    with None None' show ?thesis by simp
  next
    case (Some i)
    then have "find_ino ino (xs @ ys) = Some (length xs + i)"
      using xs by (auto simp: find_ino_Some nth_append)
    with None Some show ?thesis by simp
  qed
next
  case (Some i)
  then have "find_ino ino (xs @ ys) = Some i" by (auto simp: find_ino_Some nth_append)
  with Some show ?thesis by simp
qed

lemma remove_at_append:
  "remove_at (length xs + i) (xs @ ys) = xs @ remove_at i ys"
  "i < length xs \<Longrightarrow> butlast (remove_at i xs) @ ys @ [zero_file] = remove_at i (xs @ ys)"
  by (simp_all add: remove_at_def butlast_append)

lemma remove_extent_effect:
  assumes "remove_in_extent ino bs None s = (r, s')" and "wf_dev s"
    and "distinct bs" "\<forall>b \<in> set bs. readable s (sector s b)"
  shows "wf_dev s' \<and> (\<forall>k. k \<notin> sector s ` set (used_blocks s bs) \<longrightarrow> blocks s' k = blocks s k)
    \<and> (case find_ino ino (slots_of s (used_blocks s bs)) of
         None \<Rightarrow> r = Inr None \<and> s' = s
       | Some i \<Rightarrow> (\<exists>p. r = Inr (Some p)) \<and> slots_of s' (used_blocks s bs) = remove_at i (slots_of s (used_blocks s bs)))"
  using assms
proof (induction bs)
  case Nil
  then show ?case by (simp add: used_blocks_def slots_of_def find_ino_def)
next
  case (Cons b bs)
  let ?k = "sector s b" let ?d = "dir_at s (sector s b)"
  have sec: "sector s' = sector s" using remove_in_extent_frame [OF Cons.prems(1)] by (intro sector_eq) simp
  have kb: "?k \<notin> sector s ` set (used_blocks s bs)"
    using Cons.prems(3) by (auto simp: used_blocks_def dest: set_takeWhileD)
  have len: "length (files ?d) = LOLELFFS_FILES_PER_BLOCK" using length_files [OF Cons.prems(2)] .
  show ?case
  proof (cases "inode (files ?d ! 0) = 0")
    case True
    then show ?thesis using Cons.prems by (auto simp: used_blocks_def slots_of_def find_ino_def Let_def)
  next
    case used: False
    have uc: "used_blocks s (b # bs) = b # used_blocks s bs" using used by (simp add: used_blocks_def)
    show ?thesis
    proof (cases "find_ino ino (files ?d)")
      case None
      with Cons.prems used have "remove_in_extent ino bs None s = (r, s')" by (simp add: Let_def)
      note IH = Cons.IH [OF this Cons.prems(2)]
      with Cons.prems(3,4) kb have "dir_at s' ?k = ?d" by (simp add: dir_at_def)
      with IH Cons.prems(3,4) None show ?thesis
        by (auto simp: uc slots_of_Cons sec find_ino_append remove_at_append split: option.splits)
    next
      case (Some fi)
      then have fi: "fi < LOLELFFS_FILES_PER_BLOCK" by (simp add: find_ino_Some len)
      let ?t = "put_dir s ?k (?d\<lparr>files := remove_at fi (files ?d)\<rparr>)"
      have run: "remove_in_extent ino bs (Some ?k) ?t = (r, s')" using Cons.prems used Some by (simp add: Let_def)
      have wd: "wf_dir (?d\<lparr>files := remove_at fi (files ?d)\<rparr>)" by (rule wf_dir_remove_at [OF dir_at_wf [OF Cons.prems(2)] fi])
      have ft: "files (dir_at ?t ?k) = remove_at fi (files ?d)" by (simp add: dir_at_put [OF wd])
      have other: "blocks ?t (sector ?t c) = blocks s (sector s c)" if "c \<in> set bs" for c
        using that Cons.prems(3) by auto
      have u: "used_blocks ?t bs = used_blocks s bs" by (rule used_blocks_cong) (rule other)
      have v: "slots_of ?t (used_blocks s bs) = slots_of s (used_blocks s bs)"
        by (rule slots_of_cong, rule other) (auto simp: used_blocks_def dest: set_takeWhileD)
      have "last (files (dir_at ?t ?k)) = zero_file" unfolding ft by (simp add: remove_at_def)
      then have R: "(\<exists>p. r = Inr (Some p)) \<and> wf_dev s'
          \<and> files (dir_at s' ?k) @ slots_of s' (used_blocks s bs) = butlast (remove_at fi (files ?d)) @ slots_of s (used_blocks s bs) @ [zero_file]
          \<and> (\<forall>k. k \<noteq> ?k \<and> k \<notin> sector s ` set (used_blocks s bs) \<longrightarrow> blocks s' k = blocks ?t k)"
        using remove_rest [OF run] Cons.prems wd u v ft by auto
      then show ?thesis
        using Some fi len by (auto simp: uc slots_of_Cons sec find_ino_append remove_at_append(2))
    qed
  qed
qed

section \<open>Deleting from the list of names\<close>

fun delete_ino :: "u32 \<Rightarrow> (bytes \<times> u32) list \<Rightarrow> (bytes \<times> u32) list" where
  "delete_ino ino [] = []"
| "delete_ino ino (p # ps) = (if snd p = ino then ps else p # delete_ino ino ps)"

lemma delete_ino_split: "\<forall>p \<in> set xs. snd p \<noteq> ino \<Longrightarrow> snd p = ino \<Longrightarrow> delete_ino ino (xs @ p # ys) = xs @ ys"
  by (induction xs) auto

lemma delete_ino_absent: "\<forall>p \<in> set xs. snd p \<noteq> ino \<Longrightarrow> delete_ino ino xs = xs"
  by (induction xs) auto

lemma take_remove_at:
  assumes "i < n" "n \<le> length fl"
  shows "take (n - 1) (remove_at i fl @ rest) = take i fl @ drop (Suc i) (take n fl)"
  using assms by (simp add: remove_at_def take_drop)

lemma delete_ino_slots:
  assumes f: "find_ino ino fl = Some i" and n: "i < n" "n \<le> length fl"
  shows "map (\<lambda>f. (cstr (filename f), inode f)) (take (n - 1) (remove_at i fl @ rest)) =
     delete_ino ino (map (\<lambda>f. (cstr (filename f), inode f)) (take n fl))"
proof -
  let ?g = "\<lambda>f. (cstr (filename f), inode f)"
  have "take n fl = take i fl @ fl ! i # drop (Suc i) (take n fl)"
    using id_take_nth_drop [of i "take n fl"] n by simp
  then have "map ?g (take n fl) = map ?g (take i fl) @ ?g (fl ! i) # map ?g (drop (Suc i) (take n fl))" by (rule trans [OF arg_cong [OF _, of _ _ "map ?g"]]) simp
  moreover have "\<forall>p \<in> set (map ?g (take i fl)). snd p \<noteq> ino" using f n by (auto simp: find_ino_Some in_set_conv_nth)
  moreover have "snd (?g (fl ! i)) = ino" using f by (simp add: find_ino_Some)
  ultimately show ?thesis
    unfolding take_remove_at [OF n] using delete_ino_split [of "map ?g (take i fl)" ino "?g (fl ! i)"] by simp
qed

lemma used_blocks_cover:
  assumes wf: "wf_dev s" and n: "n \<le> LOLELFFS_FILES_PER_BLOCK * length bs" and live: "\<And>i. i < n \<Longrightarrow> inode (slots_of s bs ! i) \<noteq> 0"
  shows "n \<le> length (slots_of s (used_blocks s bs))"
    and "\<exists>rest. bs = used_blocks s bs @ rest \<and> slots_of s bs = slots_of s (used_blocks s bs) @ slots_of s rest"
proof -
  let ?m = "length (used_blocks s bs)"
  show "n \<le> length (slots_of s (used_blocks s bs))"
  proof (rule ccontr)
    assume a: "\<not> n \<le> length (slots_of s (used_blocks s bs))"
    then have m: "LOLELFFS_FILES_PER_BLOCK * ?m < n" by (simp add: length_slots_of wf)
    with n have "LOLELFFS_FILES_PER_BLOCK * ?m < LOLELFFS_FILES_PER_BLOCK * length bs" by linarith
    then have "?m < length bs" by simp
    then have "inode (files (dir_at s (sector s (bs ! ?m))) ! 0) = 0"
      using nth_length_takeWhile [of "\<lambda>b. inode (files (dir_at s (sector s b)) ! 0) \<noteq> 0" bs] by (simp add: used_blocks_def)
    with nth_slots_of [OF wf \<open>?m < length bs\<close>, of 0] live [OF m] show False by (simp add: files_per_block)
  qed
  let ?rest = "dropWhile (\<lambda>b. inode (files (dir_at s (sector s b)) ! 0) \<noteq> 0) bs"
  have bs: "bs = used_blocks s bs @ ?rest" by (simp add: used_blocks_def)
  moreover have "slots_of s (used_blocks s bs @ ?rest) = slots_of s (used_blocks s bs) @ slots_of s ?rest" by (simp add: slots_of_def)
  ultimately show "\<exists>rest. bs = used_blocks s bs @ rest \<and> slots_of s bs = slots_of s (used_blocks s bs) @ slots_of s rest" by auto
qed

text \<open>The blocks of the directory's extent after the removal.\<close>

lemma remove_blocks:
  assumes run: "remove_in_extent ino bs None s = (r, s')" and wf: "wf_dev s"
    and bs: "distinct bs" "\<forall>b \<in> set bs. readable s (sector s b)"
    and n: "n \<le> LOLELFFS_FILES_PER_BLOCK * length bs" "\<And>i. i < n \<Longrightarrow> inode (slots_of s bs ! i) \<noteq> 0"
    and ino: "ino \<in> inode ` set (take n (slots_of s bs))"
  shows "\<exists>p. r = Inr (Some p)" "wf_dev s'" "\<And>k. k \<notin> sector s ` set bs \<Longrightarrow> blocks s' k = blocks s k"
    "\<And>j. j < n - 1 \<Longrightarrow> inode (slots_of s' bs ! j) \<noteq> 0"
    "map (\<lambda>f. (cstr (filename f), inode f)) (take (n - 1) (slots_of s' bs))
      = delete_ino ino (map (\<lambda>f. (cstr (filename f), inode f)) (take n (slots_of s bs)))"
proof -
  let ?U = "slots_of s (used_blocks s bs)"
  note E = remove_extent_effect [OF run wf bs]
  show "wf_dev s'" using E by simp
  obtain rest where rest: "bs = used_blocks s bs @ rest" and sl: "slots_of s bs = ?U @ slots_of s rest"
    using used_blocks_cover(2) [OF wf n] by blast
  have nU: "n \<le> length ?U" by (rule used_blocks_cover(1) [OF wf n])
  have sub: "set (used_blocks s bs) \<subseteq> set bs" "set (used_blocks s bs) \<inter> set rest = {}"
    using rest bs(1) distinct_append [of "used_blocks s bs" rest] by (auto simp: used_blocks_def dest: set_takeWhileD)
  show "blocks s' k = blocks s k" if "k \<notin> sector s ` set bs" for k using E that sub(1) by blast
  have tk: "take n (slots_of s bs) = take n ?U" using nU by (simp add: sl)
  then obtain j where j: "j < n" "inode (?U ! j) = ino" using ino nU by (auto simp: in_set_conv_nth)
  then obtain i where i: "find_ino ino ?U = Some i"
    using nU by (cases "find_ino ino ?U") (auto simp: find_ino_None)
  have "\<not> j < i" using i j by (auto simp: find_ino_Some)
  then have i': "i < n" "i < length ?U" using i j by (auto simp: find_ino_Some)
  show "\<exists>p. r = Inr (Some p)" using E i by simp
  have sec: "sector s' = sector s" using remove_in_extent_frame [OF run] by (intro sector_eq) simp
  have "sector s b \<notin> sector s ` set (used_blocks s bs)" if "b \<in> set rest" for b using that sub(2) by auto
  then have "slots_of s' rest = slots_of s rest" unfolding sec using E by (intro slots_of_cong) (simp add: sec)
  moreover have "slots_of s' bs = slots_of s' (used_blocks s bs) @ slots_of s' rest"
    by (subst rest) (simp add: slots_of_def)
  ultimately have s': "slots_of s' bs = remove_at i ?U @ slots_of s rest" using E i by simp
  show "map (\<lambda>f. (cstr (filename f), inode f)) (take (n - 1) (slots_of s' bs))
      = delete_ino ino (map (\<lambda>f. (cstr (filename f), inode f)) (take n (slots_of s bs)))"
    unfolding s' tk by (rule delete_ino_slots [OF i i'(1) nU])
  fix j assume j: "j < n - 1"
  have "slots_of s' bs ! j \<in> set (take (n - 1) (slots_of s' bs))"
    using j nU i' by (auto simp: s' in_set_conv_nth length_remove_at nth_append intro!: exI [of _ j])
  also have "take (n - 1) (slots_of s' bs) = take i ?U @ drop (Suc i) (take n ?U)" unfolding s' by (rule take_remove_at [OF i'(1) nU])
  also have "set (take i ?U @ drop (Suc i) (take n ?U)) \<subseteq> set (take n (slots_of s bs))"
    using set_take_subset_set_take [of i n ?U] i'(1) set_drop_subset [of "Suc i" "take n ?U"] by (simp add: tk)
  finally obtain m where "m < n" "slots_of s' bs ! j = slots_of s bs ! m" by (auto simp: in_set_conv_nth)
  with n(2) show "inode (slots_of s' bs ! j) \<noteq> 0" by simp
qed

lemma remove_small:
  assumes ok: "fs_ok s" and dir: "dir_ok s dir" and kd: "kd = dir_kd s dir" and ino: "ino \<in> snd ` set (names s kd)"
  obtains s' where "lolelffs_remove_from_dir s dir ino = (Inr (), s')" "wf_dev s'" "small_dir s' kd"
    "names s' kd = delete_ino ino (names s kd)" "unat (nr_files (ei_at s' kd)) = unat (nr_files (ei_at s kd)) - 1"
proof -
  let ?eb = "ei_at s kd" let ?n = "unat (nr_files ?eb)" let ?e = "extents ?eb ! 0" let ?bs = "extent_blocks ?e"
  have wf: "wf_dev s" using ok by (simp add: fs_ok_def)
  have sm: "small_dir s kd" "readable s kd" using dir by (simp_all add: dir_ok_def Let_def kd dir_kd_def)
  have "names s kd \<noteq> []" using ino by auto
  then have n0: "?n \<noteq> 0" by (auto simp: names_def)
  then have e: "ee_start ?e \<noteq> 0" using sm(1) by (auto simp: small_dir_def Let_def)
  note D = small_dirD [OF sm(1) wf e]
  have bs: "distinct ?bs" "\<forall>b \<in> set ?bs. readable s (sector s b) \<and> sector s b \<noteq> kd" "?n \<le> LOLELFFS_FILES_PER_BLOCK * length ?bs"
    using sm(1) e D(3) distinct_extent_blocks by (auto simp: small_dir_def Let_def files_per_block)
  have ds: "dir_slots s kd = slots_of s ?bs" by (simp add: dir_slots_def D(1))
  obtain r s1 where run: "remove_in_extent ino ?bs None s = (r, s1)" by fastforce
  have "ino \<in> inode ` set (take ?n (slots_of s ?bs))" using ino by (auto simp: names_def ds image_image)
  note R = remove_blocks [OF run wf bs(1) _ bs(3) D(4) [unfolded ds] this]
  have rd: "\<forall>b \<in> set ?bs. readable s (sector s b)" using bs(2) by simp
  obtain e1 es where ex: "extents ?eb = ?e # e1 # es" "ee_start e1 = 0"
  proof -
    have "2 \<le> length (extents ?eb)" using ei_at_wf [OF wf, of kd] by (simp add: wf_ei_def max_extents)
    then obtain e1 es where "extents ?eb = ?e # e1 # es" by (cases "extents ?eb"; cases "tl (extents ?eb)") auto
    moreover from this have "extents ?eb ! 1 = e1" by (metis One_nat_def nth_Cons_0 nth_Cons_Suc)
    ultimately show thesis using sm(1) that by (metis small_dir_def)
  qed
  have f: "readable s1 = readable s" "sbi s1 = sbi s" "icache s1 = icache s" using remove_in_extent_frame [OF run] by simp_all
  have "kd \<notin> sector s ` set ?bs" using bs(2) by auto
  then have ei: "ei_at s1 kd = ?eb" using R(3) [OF rd] by (simp add: ei_at_def)
  define s' where "s' = put_ei s1 kd (?eb\<lparr>nr_files := nr_files ?eb - 1\<rparr>)"
  have wi: "wf_ei (?eb\<lparr>nr_files := nr_files ?eb - 1\<rparr>)" using ei_at_wf [OF wf, of kd] by (simp add: wf_ei_def)
  obtain p where p: "r = Inr (Some p)" using R(1) [OF rd] by auto
  have "remove_in_extents ino (extents ?eb) None s = (Inr (Some p), s1)" using e by (subst ex(1)) (simp add: run p ex(2))
  then have "lolelffs_remove_from_dir s dir ino = (Inr (), s')"
    using sm(2) by (simp add: lolelffs_remove_from_dir_def Let_def dir_kd_def [symmetric] kd [symmetric] ei s'_def)
  moreover have wf': "wf_dev s'" using R(2) [OF rd] wi by (simp add: s'_def)
  have x: "ei_at s' kd = ?eb\<lparr>nr_files := nr_files ?eb - 1\<rparr>" by (simp add: s'_def ei_at_put [OF wi])
  have n': "unat (nr_files (ei_at s' kd)) = ?n - 1" using n0 by (simp add: x unat_minus_one unat_gt_0 [symmetric])
  have sec: "sector s' = sector s" by (rule sector_eq) (simp add: s'_def f)
  have "dir_at s' (sector s b) = dir_at s1 (sector s b)" if "b \<in> set ?bs" for b
    using that bs(2) by (simp add: s'_def dir_at_put_ei)
  then have sl: "slots_of s' ?bs = slots_of s1 ?bs"
    unfolding slots_of_def sec using sector_eq [OF f(2)] by (auto intro!: arg_cong [where f = concat] map_cong)
  have "data_blocks s' kd = ?bs" using data_blocks_small [OF wf', of kd] sm(1) e by (simp add: x small_dir_def Let_def)
  then have ds': "dir_slots s' kd = slots_of s1 ?bs" by (simp add: dir_slots_def sl)
  have "names s' kd = delete_ino ino (names s kd)" using R(5) [OF rd] by (simp add: names_def n' ds' ds)
  moreover have "sbi s' = sbi s" "readable s' = readable s" by (simp_all add: s'_def f)
  then have "small_dir s' kd"
    using sm(1) e R(4) [OF rd] first_cong [of s' s] n' by (auto simp: small_dir_def Let_def x ds' sec)
  ultimately show thesis using that wf' n' by simp
qed

text \<open>Removing an entry keeps the file system and the directory consistent.\<close>

lemma remove_dir:
  assumes ok: "fs_ok s" and dir: "dir_ok s dir" and kd: "kd = dir_kd s dir" and ino: "ino \<in> snd ` set (names s kd)"
  obtains s' where "lolelffs_remove_from_dir s dir ino = (Inr (), s')" "fs_ok s'" "dir_ok s' dir" "dir_kd s' dir = kd"
    "names s' kd = delete_ino ino (names s kd)" "sbi s' = sbi s" "icache s' = icache s"
    "\<And>k. k \<notin> dir_sectors s kd \<Longrightarrow> blocks s' k = blocks s k"
proof -
  obtain s' where s': "lolelffs_remove_from_dir s dir ino = (Inr (), s')" "wf_dev s'" "small_dir s' kd"
    "names s' kd = delete_ino ino (names s kd)"
    using remove_small [OF assms] by metis
  note f = remove_from_dir_frame [OF s'(1)]
  have "fs_ok s'" using fs_ok_cong [OF ok s'(2)] ok f by (simp add: fs_ok_def)
  moreover have i: "inode_of s' = inode_of s" using f by (intro inode_of_cong) simp
  moreover have sec: "sector s' = sector s" using f by (intro sector_eq) simp
  then have "dir_kd s' dir = kd" by (simp add: dir_kd_def i kd)
  moreover have "first_data s' = first_data s" using f first_cong [of s' s] by simp
  then have "dir_ok s' dir" using dir s'(3) f by (simp add: dir_ok_def Let_def i sec kd dir_kd_def)
  ultimately show thesis using that s' f by (simp add: kd dir_kd_def)
qed

section \<open>What removing and linking guarantee\<close>

text \<open>
  C10. Removing an entry deletes from the list of the directory's names: in a consistent file system,
  removing an inode number that a directory of up to 120 entries holds succeeds, takes out the
  first entry with that number, keeps all others in their order (across the blocks of the
  directory), leaves file system and directory consistent and changes no other block.
\<close>

theorem remove_deletes:
  assumes "fs_ok s" "dir_ok s dir" "ino \<in> snd ` set (names s (dir_kd s dir))"
  shows "\<exists>s'. lolelffs_remove_from_dir s dir ino = (Inr (), s') \<and> fs_ok s' \<and> dir_ok s' dir
    \<and> names s' (dir_kd s' dir) = delete_ino ino (names s (dir_kd s dir)) \<and> sbi s' = sbi s
    \<and> (\<forall>k. k \<notin> dir_sectors s (dir_kd s dir) \<longrightarrow> blocks s' k = blocks s k)"
  using remove_dir [OF assms(1,2) refl assms(3)] by metis

theorem remove_deletes_witness:
  "\<exists>ino s1 s2. lolelffs_create \<lparr>init_owner = (\<lambda>i _ m. i\<lparr>vi_mode := m\<rparr>), evicts = (\<lambda>_. True)\<rparr> dir_fs 0 [97] 0x81A4 = (Inr ino, s1)
     \<and> names s1 (dir_kd s1 0) = [([97], ino)] \<and> lolelffs_remove_from_dir s1 0 ino = (Inr (), s2) \<and> names s2 (dir_kd s2 0) = []"
proof -
  let ?ker = "\<lparr>init_owner = (\<lambda>i _ m. i\<lparr>vi_mode := m\<rparr>), evicts = (\<lambda>_. True)\<rparr>"
  obtain ino s1 where c: "lolelffs_create ?ker dir_fs 0 [97] 0x81A4 = (Inr ino, s1)" by (rule dir_fs_create)
  have "\<not> S_ISLNK 0x81A4" "is_cstr [97]" by (code_simp, simp add: is_cstr_def)
  then have s1: "fs_ok s1" "dir_ok s1 0" "names s1 (dir_kd s1 0) = [([97], ino)]"
    using create_names [OF dir_fs_ok dir_fs_dir_ok(1) _ refl _ _ c] dir_fs_dir_ok dir_fs_kd by simp_all
  with remove_deletes [OF s1(1,2), of ino] c show ?thesis by auto
qed

lemma dir_unchanged:
  assumes "fs_ok s" "dir_ok s dir" "blocks t = blocks s" "readable t = readable s" "sbi t = sbi s" "sector t = sector s"
    and "ci_ei_block (inode_of t dir) = ci_ei_block (inode_of s dir)"
  shows "fs_ok t \<and> dir_ok t dir \<and> dir_kd t dir = dir_kd s dir \<and> names t (dir_kd s dir) = names s (dir_kd s dir)"
proof -
  have k: "dir_kd t dir = dir_kd s dir" using assms(6,7) by (simp add: dir_kd_def)
  have fr: "\<forall>k \<in> dir_sectors s (dir_kd s dir). blocks t k = blocks s k" using assms(3) by simp
  have wf: "wf_dev t" using assms(1,3) by (auto simp: fs_ok_def intro: wf_dev_blocks)
  have "fs_ok t" using fs_ok_cong [OF assms(1) wf] assms by (simp add: fs_ok_def)
  moreover have "small_dir t (dir_kd s dir)"
    using small_dir_frame [OF _ fr] assms by (simp add: dir_ok_def Let_def dir_kd_def)
  then have "dir_ok t dir" using assms first_cong [of t s] k by (simp add: dir_ok_def Let_def dir_kd_def)
  moreover have "names t (dir_kd s dir) = names s (dir_kd s dir)" using dir_frame(4) [OF fr assms(6)] .
  ultimately show ?thesis using k by simp
qed

lemma link_names:
  assumes ok: "fs_ok s" and dir: "dir_ok s dir" "nr_entries s dir < 120" and kd: "kd = dir_kd s dir"
    and nm: "is_cstr nm" "length nm \<le> LOLELFFS_FILENAME_LEN" "ino \<noteq> 0"
    and l: "lolelffs_link s ino dir nm = (Inr (), s')"
  shows "fs_ok s' \<and> dir_ok s' dir \<and> dir_kd s' dir = kd \<and> names s' kd = names s kd @ [(nm, ino)]
    \<and> inode_of s' ino = (inode_of s ino)\<lparr>vi_nlink := vi_nlink (inode_of s ino) + 1, vi_dirty := True\<rparr>"
proof -
  obtain s1 where add: "add_entry s kd nm ino = (Inr (), s1)" and s': "s' = mark_inode_dirty (inc_nlink s1 ino) ino"
    using l by (auto simp: lolelffs_link_def Let_def kd dir_kd_def split: if_splits prod.splits sum.splits)
  note a = add_entry_dir [OF ok dir kd nm add]
  have i: "inode_of s1 = inode_of s" using a(5) by (rule inode_of_cong)
  have f: "blocks s' = blocks s1" "readable s' = readable s1" "sbi s' = sbi s1" "sector s' = sector s1"
    by (simp_all add: s' inode_steps)
  have e: "ci_ei_block (inode_of s' dir) = ci_ei_block (inode_of s1 dir)" by (simp add: s' inode_steps)
  then show ?thesis using dir_unchanged [OF a(1,2) f] a(3,4) by (simp add: s' inode_steps i)
qed

lemma unlink_link:
  assumes ok: "fs_ok s" and dir: "dir_ok s dir" and kd: "kd = dir_kd s dir" and ino: "ino \<in> snd ` set (names s kd)"
    and i: "\<not> S_ISLNK (vi_mode (inode_of s ino))" "\<not> S_ISDIR (vi_mode (inode_of s ino))" "1 < vi_nlink (inode_of s ino)" "dir \<noteq> ino"
  shows "\<exists>s'. lolelffs_unlink s dir ino = (Inr (), s') \<and> fs_ok s' \<and> dir_ok s' dir \<and> dir_kd s' dir = kd
    \<and> names s' kd = delete_ino ino (names s kd) \<and> sbi s' = sbi s \<and> vi_nlink (inode_of s' ino) = vi_nlink (inode_of s ino) - 1"
proof -
  obtain s1 where r: "lolelffs_remove_from_dir s dir ino = (Inr (), s1)" "fs_ok s1" "dir_ok s1 dir" "dir_kd s1 dir = kd"
    "names s1 kd = delete_ino ino (names s kd)" "sbi s1 = sbi s" "icache s1 = icache s"
    by (rule remove_dir [OF ok dir kd ino]) blast
  have i1: "inode_of s1 = inode_of s" using r(7) by (rule inode_of_cong)
  define s' where "s' = mark_inode_dirty (drop_nlink (mark_inode_dirty (touch s1 dir) dir) ino) ino"
  have "lolelffs_unlink s dir ino = (Inr (), s')"
    using r(1) i by (simp add: lolelffs_unlink_def Let_def s'_def inode_steps i1)
  moreover have f: "blocks s' = blocks s1" "readable s' = readable s1" "sbi s' = sbi s1" "sector s' = sector s1"
    by (simp_all add: s'_def inode_steps)
  moreover have e: "ci_ei_block (inode_of s' dir) = ci_ei_block (inode_of s1 dir)" by (simp add: s'_def inode_steps)
  note d = dir_unchanged [OF r(2,3) f e]
  moreover have "vi_nlink (inode_of s' ino) = vi_nlink (inode_of s ino) - 1" using i(4) by (simp add: s'_def inode_steps i1)
  ultimately show ?thesis using r by auto
qed


definition spare_fs :: fs where
  "spare_fs = put_vinode dir_fs 5 (tiny_inode\<lparr>vi_mode := 0x81A4, vi_nlink := 1\<rparr>)"

lemma spare_ok: "fs_ok spare_fs" "dir_ok spare_fs 0" "names spare_fs (dir_kd spare_fs 0) = []" "nr_entries spare_fs 0 = 0"
proof -
  have f: "blocks spare_fs = blocks dir_fs" "readable spare_fs = readable dir_fs" "sbi spare_fs = sbi dir_fs"
    "sector spare_fs = sector dir_fs" "ci_ei_block (inode_of spare_fs 0) = ci_ei_block (inode_of dir_fs 0)"
    by (simp_all add: spare_fs_def)
  note d = dir_unchanged [OF dir_fs_ok dir_fs_dir_ok(1) f]
  then show "fs_ok spare_fs" "dir_ok spare_fs 0" by simp_all
  show "names spare_fs (dir_kd spare_fs 0) = []" using d dir_fs_kd(1) dir_fs_dir_ok(3) by simp
  have "ei_at spare_fs = ei_at dir_fs" by (rule at_cong(1)) (rule f(1))
  then show "nr_entries spare_fs 0 = 0" using d dir_fs_dir_ok(2) by (simp add: nr_entries_def)
qed


end
