(* ===== verification/Xattr_Ops.thy ===== *)
theory Xattr_Ops
  imports Namei_Dir
begin

text \<open>
  Reading, setting, deleting and listing extended attributes, \<^verbatim>\<open>src/xattr.c\<close>. The attributes of
  an inode are a byte string of entries that is spread over the blocks of its attribute index; the
  functions read it into a buffer (a list here), change the list and write it back. Reading past
  the end of the buffer is \<open>OOPS\<close>. A name is the list of its bytes without the final zero.
\<close>

section \<open>The entries\<close>

record lolelffs_xattr_entry =
  name_len :: u8
  name_index :: u8
  value_len :: u16
  value_offset :: u32
  x_reserved :: u32

definition sizeof_xattr_entry :: nat where "sizeof_xattr_entry = 12"

definition enc_xentry :: "lolelffs_xattr_entry \<Rightarrow> bytes" where
  "enc_xentry e = enc8 (name_len e) @ enc8 (name_index e) @ enc16 (value_len e) @ enc32 (value_offset e) @ enc32 (x_reserved e)"

definition dec_xentry :: "bytes \<Rightarrow> lolelffs_xattr_entry" where
  "dec_xentry bs = \<lparr>name_len = get8 0 bs, name_index = get8 1 bs, value_len = get16 2 bs,
     value_offset = get32 4 bs, x_reserved = get32 8 bs\<rparr>"

interpretation xnc: codec enc_xentry dec_xentry "\<lambda>_. True" sizeof_xattr_entry
proof
  fix e :: lolelffs_xattr_entry
  show "length (enc_xentry e) = sizeof_xattr_entry" by (simp add: enc_xentry_def sizeof_xattr_entry_def)
  show "dec_xentry (enc_xentry e) = e"
    by (cases e) (simp add: enc_xentry_def dec_xentry_def codec_simps)
next
  fix bs :: bytes
  assume "length bs = sizeof_xattr_entry"
  then show "enc_xentry (dec_xentry bs) = bs"
    by (simp add: enc_xentry_def dec_xentry_def sizeof_xattr_entry_def codec_simps)
qed simp

definition XATTR_CREATE :: u32 where "XATTR_CREATE = 1"
definition XATTR_REPLACE :: u32 where "XATTR_REPLACE = 2"

definition xattr_prefixes :: "string list" where
  "xattr_prefixes = [''user.'', ''trusted.'', ''system.'', ''security.'']"

definition align4 :: "nat \<Rightarrow> nat" where
  "align4 n = (n + 3) div 4 * 4"

definition entry_at :: "bytes \<Rightarrow> nat \<Rightarrow> lolelffs_xattr_entry" where
  "entry_at data offset = dec_xentry (bytes_at offset sizeof_xattr_entry data)"

definition entry_size :: "lolelffs_xattr_entry \<Rightarrow> nat" where
  "entry_size e = align4 (sizeof_xattr_entry + unat (name_len e) + 1 + unat (value_len e))"

definition next_offset :: "bytes \<Rightarrow> nat \<Rightarrow> nat" where
  "next_offset data offset = align4 (offset + sizeof_xattr_entry + (unat (name_len (entry_at data offset)) + 1)
     + unat (value_len (entry_at data offset)))"

lemma align4_ge: "n \<le> align4 n"
  unfolding align4_def by linarith

lemma next_offset_gt: "offset < next_offset data offset"
  unfolding next_offset_def by (rule less_le_trans [OF _ align4_ge]) (simp add: sizeof_xattr_entry_def)

function lolelffs_xattr_find_entry :: "bytes \<Rightarrow> nat \<Rightarrow> bytes \<Rightarrow> nat \<Rightarrow> errno + nat option" where
  "lolelffs_xattr_find_entry data idx name offset =
     (if offset + sizeof_xattr_entry \<le> length data then
        (let entry = entry_at data offset
         in if name_len entry = 0 then Inr None
            else if unat (name_index entry) = idx \<and> unat (name_len entry) = length name then
              (if length data < offset + sizeof_xattr_entry + length name then Inl OOPS
               else if bytes_at (offset + sizeof_xattr_entry) (length name) data = name then Inr (Some offset)
               else lolelffs_xattr_find_entry data idx name (next_offset data offset))
            else lolelffs_xattr_find_entry data idx name (next_offset data offset))
      else Inr None)"
  by pat_completeness auto
termination
proof (relation "measure (\<lambda>(data, idx, name, offset). length data - offset)", goal_cases)
  case (2 data idx name offset x)
  then show ?case using next_offset_gt [of offset data] by (simp add: sizeof_xattr_entry_def)
next
  case (3 data idx name offset x)
  then show ?case using next_offset_gt [of offset data] by (simp add: sizeof_xattr_entry_def)
qed simp

declare lolelffs_xattr_find_entry.simps [simp del]

section \<open>The data blocks\<close>

definition xei_blocks :: "lolelffs_xattr_ei_block \<Rightarrow> u32 list" where
  "xei_blocks ei = concat (map extent_blocks (takeWhile (\<lambda>e. ee_start e \<noteq> 0) (xextents ei)))"

fun read_xblocks :: "fs \<Rightarrow> u32 list \<Rightarrow> nat \<Rightarrow> bytes \<Rightarrow> errno + bytes" where
  "read_xblocks s [] want data = Inr data"
| "read_xblocks s (b # bs) want data =
     (if \<not> readable s (sector s b) then Inl EIO
      else
        (let data = data @ take (min LOLELFFS_BLOCK_SIZE (want - length data)) (blocks s (sector s b))
         in if want \<le> length data then Inr data else read_xblocks s bs want data))"

definition lolelffs_xattr_read_data :: "fs \<Rightarrow> lolelffs_xattr_ei_block \<Rightarrow> (errno + bytes) \<times> fs" where
  "lolelffs_xattr_read_data s ei =
     (if total_size ei = 0 then (Inr [], s)
      else
        (let (ok, s) = kmalloc s
         in if \<not> ok then (Inl ENOMEM, s)
            else (read_xblocks s (xei_blocks ei) (unat (total_size ei)) [], s)))"

fun write_xblocks :: "fs \<Rightarrow> u32 list \<Rightarrow> bytes \<Rightarrow> bool \<times> fs" where
  "write_xblocks s [] data = (True, s)"
| "write_xblocks s (b # bs) data =
     (if data = [] then (True, s)
      else if \<not> readable s (sector s b) then (False, s)
      else
        (let chunk = take LOLELFFS_BLOCK_SIZE data
         in write_xblocks (store s (sector s b) (chunk @ replicate (LOLELFFS_BLOCK_SIZE - length chunk) 0))
              bs (drop LOLELFFS_BLOCK_SIZE data)))"

section \<open>Getting an attribute\<close>

text \<open>
  The result is the length of the value and, if there is a buffer of \<open>room\<close> bytes, the value
  copied to it.
\<close>

definition lolelffs_xattr_get :: "fs \<Rightarrow> u32 \<Rightarrow> nat \<Rightarrow> bytes \<Rightarrow> nat option \<Rightarrow> (errno + nat \<times> bytes) \<times> fs" where
  "lolelffs_xattr_get s ino idx name buffer =
     (let x = ci_xattr_block (inode_of s ino)
      in if x = 0 then (Inl ENODATA, s)
         else if \<not> readable s (sector s x) then (Inl EIO, s)
         else
           (case lolelffs_xattr_read_data s (xei_at s (sector s x)) of
              (Inl err, s) \<Rightarrow> (Inl err, s)
            | (Inr data, s) \<Rightarrow>
                if data = [] then (Inl ENODATA, s)
                else
                  (case lolelffs_xattr_find_entry data idx name 0 of
                     Inl err \<Rightarrow> (Inl err, s)
                   | Inr None \<Rightarrow> (Inl ENODATA, s)
                   | Inr (Some offset) \<Rightarrow>
                       (let entry = entry_at data offset; vlen = unat (value_len entry);
                            voff = offset + unat (value_offset entry)
                        in case buffer of
                             None \<Rightarrow> (Inr (vlen, []), s)
                           | Some room \<Rightarrow>
                               if room < vlen then (Inl ERANGE, s)
                               else if length data < voff + vlen then (Inl OOPS, s)
                               else (Inr (vlen, bytes_at voff vlen data), s)))))"

section \<open>Setting and deleting an attribute\<close>

text \<open>
  Taking an entry out of the buffer; \<^term>\<open>None\<close> if the entry claims to be longer than the buffer,
  so that the new size wraps around.
\<close>

definition cut_entry :: "bytes \<Rightarrow> nat \<Rightarrow> bytes option" where
  "cut_entry data offset =
     (let esize = entry_size (entry_at data offset)
      in if offset + esize < length data then Some (take offset data @ drop (offset + esize) data)
         else if esize \<le> length data then Some (take (length data - esize) data)
         else None)"

definition xattr_delete :: "fs \<Rightarrow> u32 \<Rightarrow> nat \<Rightarrow> bytes \<Rightarrow> (errno + unit) \<times> fs" where
  "xattr_delete s ino idx name =
     (let x = ci_xattr_block (inode_of s ino); k = sector s x
      in if x = 0 then (Inl ENODATA, s)
         else if \<not> readable s k then (Inl EIO, s)
         else
           (case lolelffs_xattr_read_data s (xei_at s k) of
              (Inl err, s) \<Rightarrow> (Inl err, s)
            | (Inr data, s) \<Rightarrow>
                (case lolelffs_xattr_find_entry data idx name 0 of
                   Inl err \<Rightarrow> (Inl err, s)
                 | Inr None \<Rightarrow> (Inl ENODATA, s)
                 | Inr (Some offset) \<Rightarrow>
                     (case cut_entry data offset of
                        None \<Rightarrow> (Inl OOPS, s)
                      | Some new_data \<Rightarrow>
                          (let ei = xei_at s k;
                               s = put_xei s k (ei\<lparr>total_size := of_nat (length new_data), xcount := xcount ei - 1\<rparr>);
                               (ok, s) = write_xblocks s (xei_blocks ei) new_data
                           in if \<not> ok then (Inl EIO, s) else (Inr (), mark_inode_dirty s ino))))))"

text \<open>The attribute index of the inode, made if there is none yet.\<close>

definition xattr_index :: "fs \<Rightarrow> u32 \<Rightarrow> (errno + nat) \<times> fs" where
  "xattr_index s ino =
     (let x = ci_xattr_block (inode_of s ino)
      in if x = 0 then
           (let (x, b) = get_free_blocks (sbi s) 1; s = set_sbi s b
            in if x = 0 then (Inl ENOSPC, s)
               else if \<not> readable s (sector s x)
               then (Inl EIO, upd_inode (set_sbi s (put_blocks (sbi s) x 1)) ino (\<lambda>i. i\<lparr>ci_xattr_block := 0\<rparr>))
               else (Inr (sector s x), store (upd_inode s ino (\<lambda>i. i\<lparr>ci_xattr_block := x\<rparr>)) (sector s x) zero_block))
         else if \<not> readable s (sector s x) then (Inl EIO, s)
         else (Inr (sector s x), s))"

definition new_entry :: "nat \<Rightarrow> bytes \<Rightarrow> bytes \<Rightarrow> bytes" where
  "new_entry idx name value =
     (let e = \<lparr>name_len = of_nat (length name), name_index = of_nat idx, value_len = of_nat (length value),
               value_offset = of_nat (sizeof_xattr_entry + length name + 1), x_reserved = 0\<rparr>;
          raw = enc_xentry e @ name @ [0] @ value
      in raw @ replicate (align4 (length raw) - length raw) 0)"

text \<open>Room for the data: the first extent is replaced if it is missing or too short.\<close>

definition xattr_room :: "fs \<Rightarrow> nat \<Rightarrow> u32 \<Rightarrow> (errno + unit) \<times> fs" where
  "xattr_room s k blocks_needed =
     (let ei = xei_at s k; e = xextents ei ! 0
      in if ee_start e = 0 \<or> ee_len e < blocks_needed then
           (let (new_blocks, b) = get_free_blocks (sbi s) blocks_needed
            in if new_blocks = 0 then (Inl ENOSPC, set_sbi s b)
               else
                 (let b = (if ee_start e \<noteq> 0 then put_blocks b (ee_start e) (ee_len e) else b)
                  in (Inr (), put_xei (set_sbi s b) k
                        (ei\<lparr>xextents := (xextents ei)[0 := e\<lparr>ee_block := 0, ee_start := new_blocks, ee_len := blocks_needed\<rparr>]\<rparr>))))
         else (Inr (), s))"

definition xattr_store :: "fs \<Rightarrow> u32 \<Rightarrow> nat \<Rightarrow> bytes \<Rightarrow> (errno + unit) \<times> fs" where
  "xattr_store s ino k new_data =
     (case xattr_room s k (of_nat ((length new_data + LOLELFFS_BLOCK_SIZE - 1) div LOLELFFS_BLOCK_SIZE)) of
        (Inl err, s) \<Rightarrow> (Inl err, s)
      | (Inr _, s) \<Rightarrow>
          (case write_xblocks s (extent_blocks (xextents (xei_at s k) ! 0)) new_data of
             (False, s) \<Rightarrow> (Inl EIO, s)
           | (True, s) \<Rightarrow>
               (let ei = xei_at s k;
                    s = put_xei s k (ei\<lparr>total_size := of_nat (length new_data), xcount := xcount ei + 1\<rparr>)
                in (Inr (), mark_inode_dirty s ino))))"

definition xattr_put :: "fs \<Rightarrow> u32 \<Rightarrow> nat \<Rightarrow> bytes \<Rightarrow> bytes \<Rightarrow> u32 \<Rightarrow> (errno + unit) \<times> fs" where
  "xattr_put s ino idx name value flags =
     (case xattr_index s ino of
        (Inl err, s) \<Rightarrow> (Inl err, s)
      | (Inr k, s) \<Rightarrow>
          (case lolelffs_xattr_read_data s (xei_at s k) of
             (Inl err, s) \<Rightarrow> (Inl err, s)
           | (Inr data, s) \<Rightarrow>
               (case lolelffs_xattr_find_entry data idx name 0 of
                  Inl err \<Rightarrow> (Inl err, s)
                | Inr found \<Rightarrow>
                    if found \<noteq> None \<and> flags AND XATTR_CREATE \<noteq> 0 then (Inl EEXIST, s)
                    else if found = None \<and> flags AND XATTR_REPLACE \<noteq> 0 then (Inl ENODATA, s)
                    else
                      (let new_size = length (new_entry idx name value);
                           rest = (case found of None \<Rightarrow> Some data | Some offset \<Rightarrow> cut_entry data offset);
                           s = (if found = None then s
                                else put_xei s k ((xei_at s k)\<lparr>xcount := xcount (xei_at s k) - 1\<rparr>))
                       in case rest of
                            None \<Rightarrow>
                              if length data + new_size < entry_size (entry_at data (the found))
                              then (Inl ENOSPC, s) else (Inl OOPS, s)
                          | Some data \<Rightarrow>
                              if LOLELFFS_BLOCK_SIZE * 8 < length data + new_size then (Inl ENOSPC, s)
                              else
                                (let (ok, s) = kmalloc s
                                 in if \<not> ok then (Inl ENOMEM, s)
                                    else xattr_store s ino k (data @ new_entry idx name value))))))"

definition lolelffs_xattr_set ::
  "fs \<Rightarrow> u32 \<Rightarrow> nat \<Rightarrow> bytes \<Rightarrow> bytes option \<Rightarrow> u32 \<Rightarrow> (errno + unit) \<times> fs" where
  "lolelffs_xattr_set s ino idx name value flags =
     (if length name = 0 \<or> 255 < length name then (Inl EINVAL, s)
      else
        (case value of
           None \<Rightarrow> xattr_delete s ino idx name
         | Some v \<Rightarrow> if 65535 < length v then (Inl ENOSPC, s) else xattr_put s ino idx name v flags))"

section \<open>Listing the names\<close>

text \<open>
  The loop of \<open>lolelffs_listxattr\<close>: \<open>acc\<close> is what was written so far; without a buffer only its
  length counts.
\<close>

function list_entries :: "bytes \<Rightarrow> nat option \<Rightarrow> nat \<Rightarrow> bytes \<Rightarrow> errno + bytes" where
  "list_entries data buffer offset acc =
     (if offset + sizeof_xattr_entry \<le> length data then
        (let entry = entry_at data offset; nlen = unat (name_len entry)
         in if name_len entry = 0 then Inr acc
            else if length xattr_prefixes \<le> unat (name_index entry) then Inl OOPS
            else
              (let prefix = map (of_char :: char \<Rightarrow> u8) (xattr_prefixes ! unat (name_index entry));
                   out = (if buffer = None then replicate (length prefix + nlen + 1) 0
                          else prefix @ bytes_at (offset + sizeof_xattr_entry) nlen data @ [0])
               in if buffer \<noteq> None \<and> the buffer < length acc + (length prefix + nlen + 1) then Inl ERANGE
                  else if buffer \<noteq> None \<and> length data < offset + sizeof_xattr_entry + nlen then Inl OOPS
                  else list_entries data buffer (next_offset data offset) (acc @ out)))
      else Inr acc)"
  by pat_completeness auto
termination
proof (relation "measure (\<lambda>(data, buffer, offset, acc). length data - offset)", goal_cases)
  case (2 data buffer offset acc x xa xb xc)
  then show ?case using next_offset_gt [of offset data] by (simp add: sizeof_xattr_entry_def)
qed simp

declare list_entries.simps [simp del]

definition lolelffs_listxattr :: "fs \<Rightarrow> u32 \<Rightarrow> nat option \<Rightarrow> (errno + bytes) \<times> fs" where
  "lolelffs_listxattr s ino buffer =
     (let x = ci_xattr_block (inode_of s ino)
      in if x = 0 then (Inr [], s)
         else if \<not> readable s (sector s x) then (Inl EIO, s)
         else
           (case lolelffs_xattr_read_data s (xei_at s (sector s x)) of
              (Inl err, s) \<Rightarrow> (Inl err, s)
            | (Inr data, s) \<Rightarrow> if data = [] then (Inr [], s) else (list_entries data buffer 0 [], s)))"

section \<open>The handlers\<close>

text \<open>
  The handlers of the name spaces. The kernel chooses one by the prefix of the full name and
  passes the rest of it as the name. There is none for the prefix \<open>system.\<close>.
\<close>

record xattr_handler =
  prefix :: string
  handler_flags :: nat

definition LOLELFFS_XATTR_INDEX_USER :: nat where "LOLELFFS_XATTR_INDEX_USER = 0"
definition LOLELFFS_XATTR_INDEX_TRUSTED :: nat where "LOLELFFS_XATTR_INDEX_TRUSTED = 1"
definition LOLELFFS_XATTR_INDEX_SYSTEM :: nat where "LOLELFFS_XATTR_INDEX_SYSTEM = 2"
definition LOLELFFS_XATTR_INDEX_SECURITY :: nat where "LOLELFFS_XATTR_INDEX_SECURITY = 3"

definition lolelffs_xattr_handler_get ::
  "xattr_handler \<Rightarrow> fs \<Rightarrow> u32 \<Rightarrow> bytes \<Rightarrow> nat option \<Rightarrow> (errno + nat \<times> bytes) \<times> fs" where
  "lolelffs_xattr_handler_get handler s ino name buffer = lolelffs_xattr_get s ino (handler_flags handler) name buffer"

definition lolelffs_xattr_handler_set ::
  "xattr_handler \<Rightarrow> fs \<Rightarrow> u32 \<Rightarrow> bytes \<Rightarrow> bytes option \<Rightarrow> u32 \<Rightarrow> (errno + unit) \<times> fs" where
  "lolelffs_xattr_handler_set handler s ino name value flags = lolelffs_xattr_set s ino (handler_flags handler) name value flags"

definition lolelffs_xattr_handlers :: "xattr_handler list" where
  "lolelffs_xattr_handlers =
     [\<lparr>prefix = ''user.'', handler_flags = LOLELFFS_XATTR_INDEX_USER\<rparr>,
      \<lparr>prefix = ''trusted.'', handler_flags = LOLELFFS_XATTR_INDEX_TRUSTED\<rparr>,
      \<lparr>prefix = ''security.'', handler_flags = LOLELFFS_XATTR_INDEX_SECURITY\<rparr>]"

end
