(* ===== verification/Compress.thy ===== *)
theory Compress
  imports Vfs
begin

text \<open>
  Block compression, \<^verbatim>\<open>src/compress.c\<close>: the table \<open>comp_ctx\<close> of the algorithms the module
  could set up, its initialisation and clean-up, and the compression and decompression of a block.
  LZ4 and zlib are the kernel's: they are the fields of the parameter \<open>comp_lib\<close>, and what is
  relied on of them are the named hypotheses \<open>lz4_exact\<close> and \<open>zlib_stream\<close>. The zstd branch is
  compiled out (\<open>LOLELFFS_ENABLE_ZSTD\<close> is 0), so its table entry is never available. A null
  workspace that is handed to a compressor is \<open>OOPS\<close>.
\<close>

section \<open>The algorithms\<close>

definition LOLELFFS_COMP_MAX_ALGO :: nat where "LOLELFFS_COMP_MAX_ALGO = LOLELFFS_COMP_ZSTD"

lemmas comp_ids = LOLELFFS_COMP_NONE_def LOLELFFS_COMP_LZ4_def LOLELFFS_COMP_ZLIB_def
  LOLELFFS_COMP_ZSTD_def LOLELFFS_COMP_MAX_ALGO_def

definition comp_algo_names :: "string list" where
  "comp_algo_names = [''none'', ''lz4'', ''zlib'', ''zstd'']"

text \<open>
  The kernel's compressors. \<open>LZ4_compress_default\<close> gives the bytes it writes, none of them when it
  fails; \<open>LZ4_decompress_safe\<close> gives \<^term>\<open>None\<close> for a negative result; \<open>deflate\<close> and
  \<open>inflate\<close> give the output when they return \<open>Z_STREAM_END\<close>.
\<close>

record comp_lib =
  LZ4_MEM_COMPRESS :: nat
  LZ4_compress_default :: "bytes \<Rightarrow> nat \<Rightarrow> bytes"
  LZ4_decompress_safe :: "bytes \<Rightarrow> nat \<Rightarrow> bytes option"
  zlib_deflate_workspacesize :: nat
  zlib_deflateInit :: bool
  zlib_deflate :: "bytes \<Rightarrow> nat \<Rightarrow> bytes option"
  zlib_deflateEnd :: bool
  zlib_inflateInit :: bool
  zlib_inflate :: "bytes \<Rightarrow> nat \<Rightarrow> bytes option"
  zlib_inflateEnd :: bool

record lolelffs_comp_ctx =
  workspace :: bool
  workspace_size :: nat
  available :: bool

type_synonym comp_table = "lolelffs_comp_ctx list"

definition zero_comp_ctx :: lolelffs_comp_ctx where
  "zero_comp_ctx = \<lparr>workspace = False, workspace_size = 0, available = False\<rparr>"

definition comp_static :: comp_table where
  "comp_static = replicate (LOLELFFS_COMP_MAX_ALGO + 1) zero_comp_ctx"

definition lolelffs_comp_supported :: "comp_table \<Rightarrow> u8 \<Rightarrow> bool" where
  "lolelffs_comp_supported t algo =
     (if LOLELFFS_COMP_MAX_ALGO < unat algo then False
      else if unat algo = LOLELFFS_COMP_NONE then True
      else available (t ! unat algo))"

definition lolelffs_comp_get_name :: "u8 \<Rightarrow> string" where
  "lolelffs_comp_get_name algo =
     (if LOLELFFS_COMP_MAX_ALGO < unat algo then ''unknown'' else comp_algo_names ! unat algo)"

section \<open>Compression and decompression\<close>

definition lolelffs_compress_lz4 :: "comp_lib \<Rightarrow> comp_table \<Rightarrow> bytes \<Rightarrow> errno + bytes" where
  "lolelffs_compress_lz4 lib t src =
     (if \<not> workspace (t ! LOLELFFS_COMP_LZ4) then Inl OOPS
      else
        (let out = LZ4_compress_default lib src LOLELFFS_BLOCK_SIZE
         in if length out = 0 then Inl EIO else Inr out))"

definition lolelffs_decompress_lz4 :: "comp_lib \<Rightarrow> bytes \<Rightarrow> nat \<Rightarrow> errno + bytes" where
  "lolelffs_decompress_lz4 lib src dst_len =
     (case LZ4_decompress_safe lib src dst_len of
        None \<Rightarrow> Inl EIO
      | Some out \<Rightarrow> if length out \<noteq> dst_len then Inl EIO else Inr out)"

definition lolelffs_compress_zlib :: "comp_lib \<Rightarrow> comp_table \<Rightarrow> bytes \<Rightarrow> errno + bytes" where
  "lolelffs_compress_zlib lib t src =
     (if \<not> workspace (t ! LOLELFFS_COMP_ZLIB) then Inl OOPS
      else if \<not> zlib_deflateInit lib then Inl EIO
      else
        (case zlib_deflate lib src LOLELFFS_BLOCK_SIZE of
           None \<Rightarrow> Inl EIO
         | Some out \<Rightarrow> if \<not> zlib_deflateEnd lib then Inl EIO else Inr out))"

definition lolelffs_decompress_zlib :: "comp_lib \<Rightarrow> comp_table \<Rightarrow> bytes \<Rightarrow> nat \<Rightarrow> errno + bytes" where
  "lolelffs_decompress_zlib lib t src dst_len =
     (if \<not> workspace (t ! LOLELFFS_COMP_ZLIB) then Inl OOPS
      else if \<not> zlib_inflateInit lib then Inl EIO
      else
        (case zlib_inflate lib src dst_len of
           None \<Rightarrow> Inl EIO
         | Some out \<Rightarrow>
             if \<not> zlib_inflateEnd lib then Inl EIO
             else if length out \<noteq> dst_len then Inl EIO
             else Inr out))"

definition lolelffs_compress_block :: "comp_lib \<Rightarrow> comp_table \<Rightarrow> u8 \<Rightarrow> bytes \<Rightarrow> errno + bytes" where
  "lolelffs_compress_block lib t algo src =
     (if unat algo = LOLELFFS_COMP_NONE \<or> LOLELFFS_COMP_MAX_ALGO < unat algo then Inl EINVAL
      else if \<not> available (t ! unat algo) then Inl EOPNOTSUPP
      else
        (case (if unat algo = LOLELFFS_COMP_LZ4 then lolelffs_compress_lz4 lib t src
               else if unat algo = LOLELFFS_COMP_ZLIB then lolelffs_compress_zlib lib t src
               else Inl EINVAL) of
           Inl e \<Rightarrow> Inl e
         | Inr out \<Rightarrow> if length src \<le> length out then Inl E2BIG else Inr out))"

definition lolelffs_decompress_block ::
  "comp_lib \<Rightarrow> comp_table \<Rightarrow> u8 \<Rightarrow> bytes \<Rightarrow> nat \<Rightarrow> errno + bytes" where
  "lolelffs_decompress_block lib t algo src dst_len =
     (if unat algo = LOLELFFS_COMP_NONE \<or> LOLELFFS_COMP_MAX_ALGO < unat algo then Inl EINVAL
      else if \<not> available (t ! unat algo) then Inl EOPNOTSUPP
      else if unat algo = LOLELFFS_COMP_LZ4 then lolelffs_decompress_lz4 lib src dst_len
      else if unat algo = LOLELFFS_COMP_ZLIB then lolelffs_decompress_zlib lib t src dst_len
      else Inl EINVAL)"

section \<open>Setting up and cleaning up\<close>

text \<open>\<open>vmalloc_lz4\<close> and \<open>vmalloc_zlib\<close> say whether the two allocations succeed.\<close>

definition lolelffs_comp_init :: "comp_lib \<Rightarrow> bool \<Rightarrow> bool \<Rightarrow> comp_table \<Rightarrow> (errno + unit) \<times> comp_table" where
  "lolelffs_comp_init lib vmalloc_lz4 vmalloc_zlib t =
     (let t = t[LOLELFFS_COMP_LZ4 :=
                  \<lparr>workspace = vmalloc_lz4, workspace_size = LZ4_MEM_COMPRESS lib, available = vmalloc_lz4\<rparr>];
          t = t[LOLELFFS_COMP_ZLIB :=
                  \<lparr>workspace = vmalloc_zlib, workspace_size = zlib_deflate_workspacesize lib, available = vmalloc_zlib\<rparr>];
          t = t[LOLELFFS_COMP_ZSTD := \<lparr>workspace = False, workspace_size = 0, available = False\<rparr>]
      in if \<not> vmalloc_lz4 \<and> \<not> vmalloc_zlib then (Inl ENOMEM, t) else (Inr (), t))"

definition comp_release :: "lolelffs_comp_ctx \<Rightarrow> lolelffs_comp_ctx" where
  "comp_release c = (if workspace c then c\<lparr>workspace := False, available := False\<rparr> else c)"

definition lolelffs_comp_exit :: "comp_table \<Rightarrow> comp_table" where
  "lolelffs_comp_exit t = take (LOLELFFS_COMP_LZ4) t @ map comp_release (drop (LOLELFFS_COMP_LZ4) t)"

text \<open>The tables the module can have: the zeroed static one, then any loads and unloads.\<close>

inductive comp_reachable :: "comp_lib \<Rightarrow> comp_table \<Rightarrow> bool" for lib where
  start: "comp_reachable lib comp_static"
| loads: "comp_reachable lib t \<Longrightarrow> comp_reachable lib (snd (lolelffs_comp_init lib a b t))"
| unloads: "comp_reachable lib t \<Longrightarrow> comp_reachable lib (lolelffs_comp_exit t)"

text \<open>The table's invariant: four entries, and an algorithm that is available has its workspace.\<close>

definition comp_ok :: "comp_table \<Rightarrow> bool" where
  "comp_ok t \<longleftrightarrow> length t = 4 \<and> list_all (\<lambda>c. available c \<longrightarrow> workspace c) t
     \<and> \<not> available (t ! 0) \<and> \<not> available (t ! 3)"

lemma list4: "length t = 4 \<Longrightarrow> \<exists>a b c d. t = [a, b, c, d]"
  by (auto simp: length_Suc_conv numeral_eq_Suc)

lemma comp_static_eq: "comp_static = [zero_comp_ctx, zero_comp_ctx, zero_comp_ctx, zero_comp_ctx]"
  by (simp add: comp_static_def comp_ids numeral_eq_Suc)

lemma comp_init_eq: "snd (lolelffs_comp_init lib x y [a, b, c, d]) =
    [a, \<lparr>workspace = x, workspace_size = LZ4_MEM_COMPRESS lib, available = x\<rparr>,
     \<lparr>workspace = y, workspace_size = zlib_deflate_workspacesize lib, available = y\<rparr>,
     \<lparr>workspace = False, workspace_size = 0, available = False\<rparr>]"
  by (simp add: lolelffs_comp_init_def Let_def comp_ids numeral_2_eq_2 numeral_3_eq_3)

lemma comp_exit_eq: "lolelffs_comp_exit [a, b, c, d] = [a, comp_release b, comp_release c, comp_release d]"
  by (simp add: lolelffs_comp_exit_def comp_ids)

lemma comp_ok_eq: "comp_ok [a, b, c, d] \<longleftrightarrow> \<not> available a \<and> (available b \<longrightarrow> workspace b)
    \<and> (available c \<longrightarrow> workspace c) \<and> \<not> available d"
  by (auto simp: comp_ok_def numeral_3_eq_3)

lemma comp_ok_static: "comp_ok comp_static"
  by (simp add: comp_static_eq comp_ok_eq zero_comp_ctx_def)

lemma comp_okE: "comp_ok t \<Longrightarrow> (\<And>a b c d. t = [a, b, c, d] \<Longrightarrow> comp_ok [a, b, c, d] \<Longrightarrow> P) \<Longrightarrow> P"
  using list4 [of t] by (auto simp: comp_ok_def)

lemma comp_ok_init: "comp_ok t \<Longrightarrow> comp_ok (snd (lolelffs_comp_init lib a b t))"
  by (erule comp_okE) (simp add: comp_init_eq comp_ok_eq)

lemma comp_ok_exit: "comp_ok t \<Longrightarrow> comp_ok (lolelffs_comp_exit t)"
  by (erule comp_okE) (auto simp: comp_exit_eq comp_ok_eq comp_release_def)

lemma comp_reachable_ok: "comp_reachable lib t \<Longrightarrow> comp_ok t"
  by (induction rule: comp_reachable.induct) (simp_all add: comp_ok_static comp_ok_init comp_ok_exit)

lemma comp_ok_workspace: "comp_ok t \<Longrightarrow> n \<le> LOLELFFS_COMP_MAX_ALGO \<Longrightarrow> available (t ! n) \<Longrightarrow> workspace (t ! n)"
  by (auto simp: comp_ok_def list_all_length comp_ids )

lemma comp_ok_supported:
  "comp_ok t \<Longrightarrow> lolelffs_comp_supported t algo = (unat algo = LOLELFFS_COMP_NONE
    \<or> (unat algo = LOLELFFS_COMP_LZ4 \<or> unat algo = LOLELFFS_COMP_ZLIB) \<and> available (t ! unat algo))"
proof (erule comp_okE)
  fix a b c d
  assume t: "t = [a, b, c, d]" and ok: "comp_ok [a, b, c, d]"
  define n where "n = unat algo"
  have "3 < n \<or> n = 0 \<or> n = 1 \<or> n = 2 \<or> n = 3" by linarith
  then show "lolelffs_comp_supported t algo = (unat algo = LOLELFFS_COMP_NONE
    \<or> (unat algo = LOLELFFS_COMP_LZ4 \<or> unat algo = LOLELFFS_COMP_ZLIB) \<and> available (t ! unat algo))"
    using ok unfolding lolelffs_comp_supported_def t comp_ok_eq comp_ids n_def [symmetric]
    by (elim disjE) simp_all
qed

lemma comp_exit_supported:
  assumes "comp_ok t"
  shows "lolelffs_comp_supported (lolelffs_comp_exit t) algo = (unat algo = LOLELFFS_COMP_NONE)"
proof -
  have "\<not> available (lolelffs_comp_exit t ! LOLELFFS_COMP_LZ4)
    \<and> \<not> available (lolelffs_comp_exit t ! LOLELFFS_COMP_ZLIB)"
    by (rule comp_okE [OF assms]) (auto simp: comp_exit_eq comp_release_def comp_ok_eq comp_ids)
  then show ?thesis
    using comp_ok_supported [OF comp_ok_exit [OF assms], of algo] by auto
qed

lemma compress_no_oops:
  assumes "comp_ok t"
  shows "lolelffs_compress_block lib t algo x \<noteq> Inl OOPS"
proof (cases "unat algo \<le> LOLELFFS_COMP_MAX_ALGO \<and> available (t ! unat algo)")
  case True
  then have "workspace (t ! unat algo)" by (auto intro: comp_ok_workspace [OF assms])
  then show ?thesis
    by (auto simp: lolelffs_compress_block_def lolelffs_compress_lz4_def lolelffs_compress_zlib_def Let_def
        split: sum.splits option.splits if_splits)
qed (auto simp: lolelffs_compress_block_def)

lemma decompress_no_oops:
  assumes "comp_ok t"
  shows "lolelffs_decompress_block lib t algo x n \<noteq> Inl OOPS"
proof (cases "unat algo \<le> LOLELFFS_COMP_MAX_ALGO \<and> available (t ! unat algo)")
  case True
  then have "workspace (t ! unat algo)" by (auto intro: comp_ok_workspace [OF assms])
  then show ?thesis
    by (auto simp: lolelffs_decompress_block_def lolelffs_decompress_lz4_def lolelffs_decompress_zlib_def
        split: option.splits if_splits)
qed (auto simp: lolelffs_decompress_block_def)

section \<open>What is relied on of the compressors\<close>

text \<open>
  LZ4: a block that was compressed into \<open>c\<close> is restored from exactly \<open>c\<close>, whose length is part of
  the call. zlib: the stream carries its own end, so what follows it in the input is not looked at.
\<close>

definition lz4_exact :: "comp_lib \<Rightarrow> bool" where
  "lz4_exact lib \<longleftrightarrow> (\<forall>x n. LZ4_compress_default lib x n \<noteq> [] \<longrightarrow>
     LZ4_decompress_safe lib (LZ4_compress_default lib x n) (length x) = Some x)"

definition zlib_stream :: "comp_lib \<Rightarrow> bool" where
  "zlib_stream lib \<longleftrightarrow> zlib_inflateInit lib \<and> zlib_inflateEnd lib \<and>
     (\<forall>x n c rest. zlib_deflate lib x n = Some c \<longrightarrow> zlib_inflate lib (c @ rest) (length x) = Some x)"

lemma zlib_streamD:
  "zlib_stream lib \<Longrightarrow> zlib_deflate lib x n = Some c \<Longrightarrow> zlib_inflate lib (c @ rest) (length x) = Some x"
  by (simp add: zlib_stream_def)

lemma compress_block_cases:
  assumes "lolelffs_compress_block lib t algo x = Inr c"
  obtains (lz4) "unat algo = LOLELFFS_COMP_LZ4" "available (t ! unat algo)" "workspace (t ! unat algo)"
      "c = LZ4_compress_default lib x LOLELFFS_BLOCK_SIZE" "c \<noteq> []" "length c < length x"
  | (zlib) "unat algo = LOLELFFS_COMP_ZLIB" "available (t ! unat algo)" "workspace (t ! unat algo)"
      "zlib_deflate lib x LOLELFFS_BLOCK_SIZE = Some c" "length c < length x"
  using assms
  by (auto simp: lolelffs_compress_block_def lolelffs_compress_lz4_def lolelffs_compress_zlib_def Let_def
      split: if_splits option.splits sum.splits)

lemma compress_block_shorter: "lolelffs_compress_block lib t algo x = Inr c \<Longrightarrow> length c < length x"
  by (erule compress_block_cases)

text \<open>A zlib block is restored from the zero-padded block that holds it.\<close>

lemma decompress_zlib_padded:
  assumes "zlib_stream lib" "lolelffs_compress_block lib t algo x = Inr c" "unat algo = LOLELFFS_COMP_ZLIB"
  shows "lolelffs_decompress_block lib t algo (c @ rest) (length x) = Inr x"
  using assms(2) assms(1,3) zlib_streamD [OF assms(1), of x LOLELFFS_BLOCK_SIZE c rest]
  by (cases rule: compress_block_cases)
    (auto simp: lolelffs_decompress_block_def lolelffs_decompress_zlib_def comp_ids zlib_stream_def)

section \<open>Properties\<close>

text \<open>
  C29. Compression loses nothing: when \<open>lolelffs_compress_block\<close> succeeds its output is shorter than
  the input, and \<open>lolelffs_decompress_block\<close> with the same algorithm, given exactly that output and
  the length of the input, gives the input back.
\<close>

theorem compress_roundtrip:
  assumes "lz4_exact lib" "zlib_stream lib" "lolelffs_compress_block lib t algo x = Inr c"
  shows "length c < length x \<and> lolelffs_decompress_block lib t algo c (length x) = Inr x"
  using assms(3)
proof (cases rule: compress_block_cases)
  case lz4
  then show ?thesis
    using assms(1) by (simp add: lolelffs_decompress_block_def lolelffs_decompress_lz4_def lz4_exact_def comp_ids)
next
  case zlib
  then show ?thesis
    using assms decompress_zlib_padded [OF assms(2,3), of "[]"] by simp
qed

text \<open>A run-length code for both compressors: a byte and how often it is repeated.\<close>

definition toy_compress :: "bytes \<Rightarrow> nat \<Rightarrow> bytes" where
  "toy_compress x n = (if 2 \<le> length x \<and> length x < 256 \<and> x = replicate (length x) (hd x) \<and> 2 \<le> n
     then [of_nat (length x), hd x] else [])"

definition toy_expand :: "bytes \<Rightarrow> nat \<Rightarrow> bytes option" where
  "toy_expand c n = (case c of k # b # rest \<Rightarrow> Some (replicate (unat k) b) | _ \<Rightarrow> None)"

definition toy_lib :: comp_lib where
  "toy_lib = \<lparr>LZ4_MEM_COMPRESS = 16384, LZ4_compress_default = toy_compress, LZ4_decompress_safe = toy_expand,
     zlib_deflate_workspacesize = 268104, zlib_deflateInit = True,
     zlib_deflate = (\<lambda>x n. if toy_compress x n = [] then None else Some (toy_compress x n)), zlib_deflateEnd = True,
     zlib_inflateInit = True, zlib_inflate = toy_expand, zlib_inflateEnd = True\<rparr>"

definition toy_table :: comp_table where
  "toy_table = snd (lolelffs_comp_init toy_lib True True comp_static)"

lemma toy_restores: "toy_compress x n \<noteq> [] \<Longrightarrow> toy_expand (toy_compress x n @ rest) m = Some x"
  by (auto simp: toy_compress_def toy_expand_def unat_of_nat split: if_splits)

lemma toy_lz4: "lz4_exact toy_lib"
  using toy_restores [of _ _ "[]"] by (simp add: lz4_exact_def toy_lib_def)

lemma toy_zlib: "zlib_stream toy_lib"
  using toy_restores by (auto simp: zlib_stream_def toy_lib_def split: if_splits)

lemma toy_table_eq: "toy_table = [zero_comp_ctx,
    \<lparr>workspace = True, workspace_size = 16384, available = True\<rparr>,
    \<lparr>workspace = True, workspace_size = 268104, available = True\<rparr>, zero_comp_ctx]"
  by (simp add: toy_table_def comp_static_eq comp_init_eq toy_lib_def zero_comp_ctx_def)

theorem compress_roundtrip_witness:
  "lolelffs_decompress_block toy_lib toy_table (of_nat LOLELFFS_COMP_LZ4) [5, 7] 5 = Inr [7, 7, 7, 7, 7]"
proof -
  have "lolelffs_compress_block toy_lib toy_table (of_nat LOLELFFS_COMP_LZ4) [7, 7, 7, 7, 7] = Inr [5, 7]"
    by (simp add: lolelffs_compress_block_def lolelffs_compress_lz4_def toy_table_eq comp_ids toy_lib_def
        toy_compress_def const_values)
  from compress_roundtrip [OF toy_lz4 toy_zlib this] show ?thesis by (simp add: numeral_eq_Suc)
qed

text \<open>
  C30. Whatever loads and unloads of the module there were and whichever allocations failed, a table
  entry that says it is available has its workspace, and only LZ4 and zlib can be available. So no
  call of \<open>lolelffs_compress_block\<close> or \<open>lolelffs_decompress_block\<close> runs a compressor on a null
  workspace, and after \<open>lolelffs_comp_exit\<close> every algorithm but none is refused.
\<close>

theorem comp_table_safe:
  assumes "comp_reachable lib t"
  shows "lolelffs_compress_block lib t algo x \<noteq> Inl OOPS
    \<and> lolelffs_decompress_block lib t algo x n \<noteq> Inl OOPS
    \<and> (lolelffs_comp_supported t algo = (unat algo = LOLELFFS_COMP_NONE
         \<or> (unat algo = LOLELFFS_COMP_LZ4 \<or> unat algo = LOLELFFS_COMP_ZLIB) \<and> available (t ! unat algo)))
    \<and> (available (t ! LOLELFFS_COMP_LZ4) \<longrightarrow> workspace (t ! LOLELFFS_COMP_LZ4))
    \<and> (available (t ! LOLELFFS_COMP_ZLIB) \<longrightarrow> workspace (t ! LOLELFFS_COMP_ZLIB))
    \<and> (lolelffs_comp_supported (lolelffs_comp_exit t) algo = (unat algo = LOLELFFS_COMP_NONE))"
proof -
  have ok: "comp_ok t" by (rule comp_reachable_ok [OF assms])
  have "LOLELFFS_COMP_LZ4 \<le> LOLELFFS_COMP_MAX_ALGO" "LOLELFFS_COMP_ZLIB \<le> LOLELFFS_COMP_MAX_ALGO"
    by (simp_all add: comp_ids)
  then show ?thesis
    using comp_ok_workspace [OF ok] comp_ok_supported [OF ok] comp_exit_supported [OF ok]
      compress_no_oops [OF ok] decompress_no_oops [OF ok] by blast
qed

theorem comp_table_safe_witness:
  "lolelffs_comp_supported toy_table (of_nat LOLELFFS_COMP_LZ4) \<and> \<not> lolelffs_comp_supported (lolelffs_comp_exit toy_table) (of_nat LOLELFFS_COMP_LZ4)"
proof -
  have "comp_reachable toy_lib toy_table"
    unfolding toy_table_def by (intro comp_reachable.intros)
  from comp_table_safe [OF this, of "of_nat LOLELFFS_COMP_LZ4"] show ?thesis
    by (simp add: toy_table_eq comp_ids)
qed

end
