(* ===== verification/File.thy ===== *)
theory File
  imports Namei_Dir Compress Encrypt
begin

text \<open>
  Regular files, \<^verbatim>\<open>src/file.c\<close>: the mapping of a file's blocks to sectors, reading a page through
  decryption and decompression, writing a page back through compression and encryption, and the
  two halves of a write system call. The page cache is the kernel's: the functions take the page's
  position and contents. \<open>mpage_writepages\<close>, \<open>block_write_begin\<close> and \<open>generic_write_end\<close> are
  parameters; so is the page cache's answer to which pages are dirty. A folio is one page of the
  size of a block, \<open>kmap\<close> does not fail, and file positions and sizes are not negative.
\<close>

section \<open>From file blocks to sectors\<close>

definition file_extent :: "lolelffs_file_ei_block \<Rightarrow> nat \<Rightarrow> u32 \<Rightarrow> u32 \<Rightarrow> lolelffs_file_ei_block" where
  "file_extent index extent bno alloc_size =
     index\<lparr>extents := (extents index)[extent := (extents index ! extent)\<lparr>ee_start := bno, ee_len := alloc_size,
        ee_block := (if extent \<noteq> 0
          then ee_block (extents index ! (extent - 1)) + ee_len (extents index ! (extent - 1)) else 0)\<rparr>]\<rparr>"

definition index_sector :: "fs \<Rightarrow> u32 \<Rightarrow> nat" where
  "index_sector s ino = sector s (ci_ei_block (inode_of s ino))"

text \<open>
  The result is the sector the buffer is mapped to, \<^term>\<open>None\<close> if it is left unmapped. The block
  number goes through an \<open>int\<close>.
\<close>

definition lolelffs_file_get_block :: "u32 \<Rightarrow> u64 \<Rightarrow> bool \<Rightarrow> fs \<Rightarrow> (errno + nat option) \<times> fs" where
  "lolelffs_file_get_block ino iblock create s =
     (if unat LOLELFFS_MAX_BLOCKS_PER_EXTENT * LOLELFFS_MAX_EXTENTS \<le> unat iblock then (Inl EFBIG, s)
      else if \<not> readable s (index_sector s ino) then (Inl EIO, s)
      else
        (let k = index_sector s ino; index = ei_at s k; extent = lolelffs_ext_search index (ucast iblock)
         in if extent = - 1 then (Inl EFBIG, s)
            else
              (let e = extents index ! unat extent
               in if ee_start e = 0 then
                    (if \<not> create then (Inr None, s)
                     else
                       (let alloc_size = calc_optimal_extent_size (sbi s) (ucast (vi_blocks (inode_of s ino))) False;
                            (bno, b) = get_free_blocks (sbi s) alloc_size; s = set_sbi s b
                        in if bno = 0 then (Inl ENOSPC, s)
                           else (Inr (Some (int_sector s bno)),
                                 put_ei s k (file_extent index (unat extent) bno alloc_size))))
                  else (Inr (Some (int_sector s (ee_start e + ucast iblock - ee_block e))), s))))"

section \<open>Reading a page\<close>

text \<open>The two steps on the way from the block to the page.\<close>

definition page_decrypt ::
  "crypto_lib \<Rightarrow> enc_table \<Rightarrow> u8 \<Rightarrow> u64 \<Rightarrow> bytes \<Rightarrow> fs \<Rightarrow> (errno + bytes) \<times> fs" where
  "page_decrypt el et enc_algo iblock source_buf s =
     (if unat enc_algo \<noteq> LOLELFFS_ENC_NONE \<and> lolelffs_enc_supported et enc_algo then
        (if \<not> enc_unlocked (sbi s) then (Inl EPERM, s)
         else
           (let (ok, s) = kmalloc s
            in if \<not> ok then (Inl ENOMEM, s)
               else lolelffs_decrypt_block el et enc_algo (enc_master_key_decrypted (sbi s)) iblock source_buf s))
      else (Inr source_buf, s))"

definition page_decompress :: "comp_lib \<Rightarrow> comp_table \<Rightarrow> u8 \<Rightarrow> bytes \<Rightarrow> errno + bytes" where
  "page_decompress cl ct comp_algo source_buf =
     (if unat comp_algo \<noteq> LOLELFFS_COMP_NONE \<and> lolelffs_comp_supported ct comp_algo
      then lolelffs_decompress_block cl ct comp_algo source_buf LOLELFFS_BLOCK_SIZE
      else Inr source_buf)"

definition lolelffs_read_folio ::
  "comp_lib \<Rightarrow> comp_table \<Rightarrow> crypto_lib \<Rightarrow> enc_table \<Rightarrow> u32 \<Rightarrow> u64 \<Rightarrow> fs \<Rightarrow> (errno + bytes) \<times> fs" where
  "lolelffs_read_folio cl ct el et ino pos s =
     (let iblock = drop_bit 12 pos
      in if vi_size (inode_of s ino) \<le> pos then (Inr zero_block, s)
         else if \<not> readable s (index_sector s ino) then (Inl EIO, s)
         else
           (let index = ei_at s (index_sector s ino);
                extent_idx = lolelffs_ext_search index (ucast iblock);
                e = extents index ! unat extent_idx
            in if extent_idx = - 1 \<or> ee_start e = 0 then (Inr zero_block, s)
               else
                 (let phys_block = ee_start e + (ucast iblock - ee_block e);
                      comp_algo = ucast (ee_comp_algo e) :: u8; enc_algo = ee_enc_algo e;
                      kb = sector s phys_block + fs_offset (sbi s)
                  in if \<not> readable s kb then (Inl EIO, s)
                     else
                       (case page_decrypt el et enc_algo iblock (blocks s kb) s of
                          (Inl err, s) \<Rightarrow> (Inl err, s)
                        | (Inr source_buf, s) \<Rightarrow> (page_decompress cl ct comp_algo source_buf, s)))))"

section \<open>Writing a page back\<close>

text \<open>
  The two steps on the working buffer. Compression gives the buffer, the algorithm that was used
  and the extent's flag; its errors are ignored, except that undefined behaviour stays undefined.
\<close>

definition page_compress ::
  "comp_lib \<Rightarrow> comp_table \<Rightarrow> u8 \<Rightarrow> bytes \<Rightarrow> fs \<Rightarrow> (errno + bytes \<times> u8 \<times> u16) \<times> fs" where
  "page_compress cl ct comp_algo work_buf s =
     (let plain = Inr (work_buf, of_nat LOLELFFS_COMP_NONE, 0)
      in if unat comp_algo \<noteq> LOLELFFS_COMP_NONE \<and> lolelffs_comp_supported ct comp_algo then
           (let (ok, s) = kmalloc s
            in if \<not> ok then (plain, s)
               else
                 (case lolelffs_compress_block cl ct comp_algo work_buf of
                    Inl err \<Rightarrow> (if err = OOPS then Inl OOPS else plain, s)
                  | Inr c \<Rightarrow>
                      if length c < LOLELFFS_BLOCK_SIZE * 95 div 100
                      then (Inr (c @ replicate (LOLELFFS_BLOCK_SIZE - length c) 0, comp_algo, LOLELFFS_EXT_COMPRESSED), s)
                      else (plain, s)))
         else (plain, s))"

definition page_encrypt ::
  "crypto_lib \<Rightarrow> enc_table \<Rightarrow> u8 \<Rightarrow> u64 \<Rightarrow> bytes \<Rightarrow> fs \<Rightarrow> (errno + bytes \<times> u8 \<times> u16) \<times> fs" where
  "page_encrypt el et enc_algo iblock work_buf s =
     (if unat enc_algo \<noteq> LOLELFFS_ENC_NONE \<and> lolelffs_enc_supported et enc_algo then
        (let (ok, s) = kmalloc s
         in if \<not> ok then (Inl ENOMEM, s)
            else if \<not> enc_unlocked (sbi s) then (Inl EPERM, s)
            else
              (case lolelffs_encrypt_block el et enc_algo (enc_master_key_decrypted (sbi s)) iblock work_buf
                      LOLELFFS_BLOCK_SIZE s of
                 (Inl err, s) \<Rightarrow> (Inl err, s)
               | (Inr enc_buf, s) \<Rightarrow> (Inr (take LOLELFFS_BLOCK_SIZE enc_buf, enc_algo, LOLELFFS_EXT_ENCRYPTED), s)))
      else (Inr (work_buf, of_nat LOLELFFS_ENC_NONE, 0), s))"

definition tag_extent :: "lolelffs_file_ei_block \<Rightarrow> nat \<Rightarrow> u8 \<Rightarrow> u8 \<Rightarrow> u16 \<Rightarrow> lolelffs_file_ei_block" where
  "tag_extent index x used_comp_algo used_enc_algo flags =
     index\<lparr>extents := (extents index)[x := (extents index ! x)\<lparr>ee_comp_algo := ucast used_comp_algo,
        ee_enc_algo := used_enc_algo, ee_flags := flags\<rparr>]\<rparr>"

definition lolelffs_writepage_locked ::
  "comp_lib \<Rightarrow> comp_table \<Rightarrow> crypto_lib \<Rightarrow> enc_table \<Rightarrow> u32 \<Rightarrow> u64 \<Rightarrow> bytes \<Rightarrow> fs \<Rightarrow> (errno + unit) \<times> fs" where
  "lolelffs_writepage_locked cl ct el et ino iblock page s =
     (let k = index_sector s ino
      in if \<not> readable s k then (Inl EIO, s)
         else
           (let index = ei_at s k; extent_idx = lolelffs_ext_search index (ucast iblock);
                e = extents index ! unat extent_idx
            in if extent_idx = - 1 \<or> ee_start e = 0 then (Inl EIO, s)
               else
                 (let phys_block = ee_start e + (ucast iblock - ee_block e);
                      comp_algo = (if comp_enabled (sbi s) \<noteq> 0 then ucast (comp_default_algo (sbi s)) else of_nat LOLELFFS_COMP_NONE);
                      enc_algo = (if enc_enabled (sbi s) \<noteq> 0 then ucast (enc_default_algo (sbi s)) else of_nat LOLELFFS_ENC_NONE);
                      (ok, s) = kmalloc s
                  in if \<not> ok then (Inl ENOMEM, s)
                     else
                       (case page_compress cl ct comp_algo page s of
                          (Inl err, s) \<Rightarrow> (Inl err, s)
                        | (Inr (work_buf, used_comp_algo, comp_flag), s) \<Rightarrow>
                            (case page_encrypt el et enc_algo iblock work_buf s of
                               (Inl err, s) \<Rightarrow> (Inl err, s)
                             | (Inr (work_buf, used_enc_algo, enc_flag), s) \<Rightarrow>
                                 (let flags = comp_flag OR enc_flag; kb = sector s phys_block
                                  in if \<not> readable s kb then (Inl EIO, s)
                                     else
                                       (let s = store s kb work_buf; index = ei_at s k; e = extents index ! unat extent_idx
                                        in if ucast used_comp_algo \<noteq> ee_comp_algo e \<or> used_enc_algo \<noteq> ee_enc_algo e
                                              \<or> flags \<noteq> ee_flags e
                                           then (Inr (), put_ei s k (tag_extent index (unat extent_idx) used_comp_algo used_enc_algo flags))
                                           else (Inr (), s))))))))"

text \<open>
  \<open>lolelffs_writepages\<close>: \<open>dirty_pages\<close> gives the pages the page cache has tagged as dirty in a
  range, in order, each with whether it is still dirty once it is locked.
\<close>

fun write_dirty ::
  "comp_lib \<Rightarrow> comp_table \<Rightarrow> crypto_lib \<Rightarrow> enc_table \<Rightarrow> u32 \<Rightarrow> int \<Rightarrow> (u64 \<times> bool \<times> bytes) list \<Rightarrow> fs \<Rightarrow> (errno + unit) \<times> fs" where
  "write_dirty cl ct el et ino nr_to_write [] s = (Inr (), s)"
| "write_dirty cl ct el et ino nr_to_write ((iblock, dirty, page) # ps) s =
     (if \<not> dirty then write_dirty cl ct el et ino nr_to_write ps s
      else
        (case lolelffs_writepage_locked cl ct el et ino iblock page s of
           (Inl err, s) \<Rightarrow> (Inl err, s)
         | (Inr _, s) \<Rightarrow>
             if nr_to_write \<le> 0 then (Inr (), s) else write_dirty cl ct el et ino nr_to_write ps s))"

record writeback_control =
  range_cyclic :: bool
  range_start :: u64
  range_end :: u64
  nr_to_write :: int

definition lolelffs_writepages ::
  "((u64 \<Rightarrow> bool \<Rightarrow> fs \<Rightarrow> (errno + nat option) \<times> fs) \<Rightarrow> fs \<Rightarrow> (errno + unit) \<times> fs) \<Rightarrow>
   (u64 \<Rightarrow> u64 \<Rightarrow> (u64 \<times> bool \<times> bytes) list) \<Rightarrow> u64 \<Rightarrow>
   comp_lib \<Rightarrow> comp_table \<Rightarrow> crypto_lib \<Rightarrow> enc_table \<Rightarrow> u32 \<Rightarrow> writeback_control \<Rightarrow> fs \<Rightarrow> (errno + unit) \<times> fs" where
  "lolelffs_writepages mpage_writepages dirty_pages writeback_index cl ct el et ino wbc s =
     (if enc_enabled (sbi s) = 0 \<and> comp_enabled (sbi s) = 0
      then mpage_writepages (lolelffs_file_get_block ino) s
      else
        (let index = (if range_cyclic wbc then writeback_index else drop_bit 12 (range_start wbc));
             last = (if range_cyclic wbc then - 1 else drop_bit 12 (range_end wbc))
         in write_dirty cl ct el et ino (nr_to_write wbc) (if index \<le> last then dirty_pages index last else []) s))"

section \<open>The two halves of a write\<close>

fun drop_used :: "lolelffs_extent list \<Rightarrow> lolelffs_extent list" where
  "drop_used [] = []"
| "drop_used (e # es) = (if ee_start e = 0 then e # es else zero_extent # drop_used es)"

text \<open>The loop that gives back the extents from \<open>i\<close> on, up to the first unused one, and zeroes them.\<close>

definition release_from :: "fs \<Rightarrow> nat \<Rightarrow> nat \<Rightarrow> fs" where
  "release_from s k i =
     (let index = ei_at s k; es = drop i (extents index)
      in put_ei (set_sbi s (put_extents (sbi s) es)) k (index\<lparr>extents := take i (extents index) @ drop_used es\<rparr>))"

definition lolelffs_write_begin ::
  "((u64 \<Rightarrow> bool \<Rightarrow> fs \<Rightarrow> (errno + nat option) \<times> fs) \<Rightarrow> u64 \<Rightarrow> u32 \<Rightarrow> fs \<Rightarrow> (errno + unit) \<times> fs) \<Rightarrow>
   u32 \<Rightarrow> u64 \<Rightarrow> u32 \<Rightarrow> fs \<Rightarrow> (errno + unit) \<times> fs" where
  "lolelffs_write_begin block_write_begin ino pos len s =
     (if of_nat LOLELFFS_MAX_FILESIZE < pos + ucast len then (Inl ENOSPC, s)
      else
        (let i = inode_of s ino;
             nr_allocs = ucast (max (pos + ucast len) (vi_size i) div of_nat LOLELFFS_BLOCK_SIZE) :: u32;
             nr_allocs = (if vi_blocks i - 1 < ucast nr_allocs then ucast (ucast nr_allocs - (vi_blocks i - 1)) else 0)
         in if nr_free_blocks (sbi s) < nr_allocs then (Inl ENOSPC, s)
            else if \<not> readable s (index_sector s ino) then (Inl EIO, s)
            else
              (let nr_extents_before = length (live_extents (ei_at s (index_sector s ino)))
               in case block_write_begin (lolelffs_file_get_block ino) pos len s of
                    (Inr _, s) \<Rightarrow> (Inr (), s)
                  | (Inl err, s) \<Rightarrow>
                      if readable s (index_sector s ino)
                      then (Inl err, release_from s (index_sector s ino) nr_extents_before)
                      else (Inl err, s))))"

definition lolelffs_write_end ::
  "(u64 \<Rightarrow> u32 \<Rightarrow> u32 \<Rightarrow> fs \<Rightarrow> u32 \<times> fs) \<Rightarrow> u32 \<Rightarrow> u64 \<Rightarrow> u32 \<Rightarrow> u32 \<Rightarrow> fs \<Rightarrow> (errno + u32) \<times> fs" where
  "lolelffs_write_end generic_write_end ino pos len copied s =
     (let (ret, s) = generic_write_end pos len copied s
      in if ret < len then (Inr ret, s)
         else
           (let nr_blocks_old = ucast (vi_blocks (inode_of s ino)) :: u32;
                s = upd_inode s ino (\<lambda>i. i\<lparr>vi_blocks := vi_size i div of_nat LOLELFFS_BLOCK_SIZE + 2,
                      vi_mtime := now s, vi_ctime := now s\<rparr>);
                s = mark_inode_dirty s ino;
                (_, s) = lolelffs_write_inode s ino;
                i_blocks = vi_blocks (inode_of s ino)
            in if ucast nr_blocks_old \<le> i_blocks then (Inr ret, s)
               else if \<not> readable s (index_sector s ino) then (Inr ret, s)
               else
                 (let k = index_sector s ino; index = ei_at s k;
                      first_ext = lolelffs_ext_search index (ucast (i_blocks - 1))
                  in if LOLELFFS_MAX_EXTENTS \<le> unat first_ext then (Inl OOPS, s)
                     else
                       (let first_ext = (if i_blocks - 1 \<noteq> ucast (ee_block (extents index ! unat first_ext))
                                         then unat first_ext + 1 else unat first_ext)
                        in (Inr ret, release_from s k first_ext)))))"

end
