(* ===== verification/File_Map.thy ===== *)
theory File_Map
  imports File
begin

text \<open>
  The mapping of a file's blocks: \<open>lolelffs_file_get_block\<close> as an operation on the list of the
  file's blocks, and \<open>lolelffs_write_begin\<close>, which takes back what a failed write had allocated.
\<close>

section \<open>The list of a file's blocks\<close>

definition file_index :: "fs \<Rightarrow> u32 \<Rightarrow> lolelffs_file_ei_block" where
  "file_index s ino = ei_at s (index_sector s ino)"

definition file_blocks :: "fs \<Rightarrow> u32 \<Rightarrow> u32 list" where
  "file_blocks s ino = data_blocks s (index_sector s ino)"

text \<open>
  A file in order: its index block is readable and holds extents that follow one another from block
  0 on, none behind the first unused one, without per-block metadata; the index block and the extents are allocated, to nobody else
  and to no other extent. Block numbers fit an \<open>int\<close>.
\<close>

definition file_ok :: "fs \<Rightarrow> u32 \<Rightarrow> bool" where
  "file_ok s ino \<longleftrightarrow> wf_dev s \<and> sbi_inv (sbi s) \<and> readable s (index_sector s ino)
     \<and> laid_out 0 (live_extents (file_index s ino))
     \<and> list_all (\<lambda>e. ee_start e = 0) (drop (length (live_extents (file_index s ino))) (extents (file_index s ino)))
     \<and> list_all (\<lambda>e. ee_flags e AND LOLELFFS_EXT_HAS_META = 0) (extents (file_index s ino))
     \<and> owned (sbi s) ((ci_ei_block (inode_of s ino), 1) # ext_ranges (extents (file_index s ino)))
     \<and> unat (nr_blocks (sbi s)) \<le> 2 ^ 31"

lemma used_live: "wf_ei index \<Longrightarrow> used_extents index = live_extents index"
proof -
  have "take (count_used es) es = takeWhile (\<lambda>e. ee_start e \<noteq> 0) es" for es :: "lolelffs_extent list"
    by (induction es) auto
  then show "wf_ei index \<Longrightarrow> used_extents index = live_extents index"
    by (simp add: used_extents_def lolelffs_count_extents_def live_extents_def wf_ei_def)
qed

lemma length_concat_extents: "length (concat (map extent_blocks es)) = total_len es"
  by (induction es) (simp_all add: total_len_def)

lemma laid_out_append:
  "laid_out n (es @ [e]) \<longleftrightarrow> laid_out n es \<and> unat (ee_block e) = n + total_len es \<and> 1 \<le> unat (ee_len e) \<and> ee_len e \<le> ext_max e"
proof (induction es arbitrary: n)
  case (Cons f es)
  show ?case
    by (simp only: append_Cons laid_out.simps Cons total_len_def list.map sum_list.Cons add.assoc conj_assoc)
qed (simp add: total_len_def)

lemma laid_outD: "laid_out n (e # es) \<Longrightarrow> n = unat (ee_block e)" "laid_out n (e # es) \<Longrightarrow> laid_out (n + unat (ee_len e)) es"
  by (simp_all only: laid_out.simps)

lemma laid_out_nth_block:
  "laid_out n es \<Longrightarrow> i < length es \<Longrightarrow> covers (es ! i) b \<Longrightarrow>
   concat (map extent_blocks es) ! (unat b - n) = ee_start (es ! i) + (b - ee_block (es ! i))"
proof (induction es arbitrary: n i)
  case (Cons e es)
  note l = laid_outD [OF Cons.prems(1)]
  show ?case
  proof (cases i)
    case 0
    have c: "unat (ee_block e) \<le> unat b" "unat b - n < unat (ee_len e)"
      using Cons.prems(3) by (auto simp: covers_def 0 l(1))
    have "of_nat (unat b - n) = b - ee_block e"
      by (simp add: of_nat_diff c(1) l(1))
    then show ?thesis using c(2) by (simp add: 0 nth_append nth_extent_blocks)
  next
    case (Suc j)
    then have j: "j < length es" "covers (es ! j) b" using Cons.prems(2,3) by simp_all
    have "n + unat (ee_len e) \<le> unat b"
      using laid_out_covers [OF l(2), of b] j by blast
    moreover from this have "\<not> unat b - n < unat (ee_len e)" by linarith
    moreover have "concat (map extent_blocks es) ! (unat b - (n + unat (ee_len e))) = ee_start (es ! j) + (b - ee_block (es ! j))"
      by (rule Cons.IH [OF l(2) j])
    ultimately show ?thesis by (simp only: Suc nth_Cons_Suc list.map concat.simps nth_append length_extent_blocks if_False diff_diff_left)
  qed
qed simp

lemma file_blocks_eq: "file_blocks s ino = concat (map extent_blocks (live_extents (file_index s ino)))"
  by (simp add: file_blocks_def data_blocks_def file_index_def)

lemma length_file_blocks: "length (file_blocks s ino) = total_len (live_extents (file_index s ino))"
  by (simp add: file_blocks_eq length_concat_extents)

lemma live_length: "wf_ei index \<Longrightarrow> length (live_extents index) \<le> LOLELFFS_MAX_EXTENTS"
  using length_takeWhile_le [of "\<lambda>e. ee_start e \<noteq> 0" "extents index"] by (simp add: wf_ei_def live_extents_def)

lemma live_nth: "i < length (live_extents index) \<Longrightarrow> extents index ! i = live_extents index ! i \<and> ee_start (extents index ! i) \<noteq> 0"
proof -
  assume i: "i < length (live_extents index)"
  then have "live_extents index ! i \<in> set (takeWhile (\<lambda>e. ee_start e \<noteq> 0) (extents index))"
    by (simp add: live_extents_def)
  then have "ee_start (live_extents index ! i) \<noteq> 0" by (auto dest: set_takeWhileD)
  with i show "extents index ! i = live_extents index ! i \<and> ee_start (extents index ! i) \<noteq> 0"
    by (simp add: live_extents_def takeWhile_nth)
qed

lemma live_stop: "wf_ei index \<Longrightarrow> length (live_extents index) < LOLELFFS_MAX_EXTENTS \<Longrightarrow>
    ee_start (extents index ! length (live_extents index)) = 0"
  using nth_length_takeWhile [of "\<lambda>e. ee_start e \<noteq> 0" "extents index"] by (simp add: wf_ei_def live_extents_def)

lemma file_ok_wf: "file_ok s ino \<Longrightarrow> wf_ei (file_index s ino)"
  by (simp add: file_ok_def file_index_def ei_at_wf)

text \<open>What the search answers, for a block of the file and for one beyond its end.\<close>

lemma file_search:
  assumes "file_ok s ino"
  shows "unat b < length (file_blocks s ino) \<Longrightarrow>
      \<exists>i < length (live_extents (file_index s ino)). lolelffs_ext_search (file_index s ino) b = of_nat i
        \<and> covers (extents (file_index s ino) ! i) b
        \<and> file_blocks s ino ! unat b = ee_start (extents (file_index s ino) ! i) + (b - ee_block (extents (file_index s ino) ! i))"
    and "length (file_blocks s ino) \<le> unat b \<Longrightarrow>
      lolelffs_ext_search (file_index s ino) b = (if length (live_extents (file_index s ino)) < LOLELFFS_MAX_EXTENTS
        then of_nat (length (live_extents (file_index s ino))) else - 1)"
proof -
  let ?x = "file_index s ino" let ?es = "live_extents (file_index s ino)"
  have l: "laid_out 0 ?es" using assms by (simp add: file_ok_def)
  have u: "used_extents ?x = ?es" by (rule used_live [OF file_ok_wf [OF assms]])
  have o: "ordered (used_extents ?x)" using validated_ordered [of ?x] l u by simp
  note srch = ext_search_ordered [OF o, of b, unfolded u]
  have n: "lolelffs_count_extents ?x = length ?es" using length_used [of ?x] u by simp
  have cov: "(\<exists>i < length ?es. covers (?es ! i) b) \<longleftrightarrow> unat b < length (file_blocks s ino)"
    using laid_out_covers [OF l, of b] by (simp add: length_file_blocks)
  {
    assume "unat b < length (file_blocks s ino)"
    then obtain i where i: "i < length ?es" "covers (?es ! i) b" using cov by auto
    then have "lolelffs_ext_search ?x b = of_nat i" using search_spec_unique [of ?es i b] o u srch by simp
    with i laid_out_nth_block [OF l i] live_nth [OF i(1)]
    show "\<exists>i < length ?es. lolelffs_ext_search ?x b = of_nat i \<and> covers (extents ?x ! i) b
        \<and> file_blocks s ino ! unat b = ee_start (extents ?x ! i) + (b - ee_block (extents ?x ! i))"
      by (auto simp: file_blocks_eq)
  next
    assume "length (file_blocks s ino) \<le> unat b"
    then have "search_spec ?es b = None" using cov by (auto simp: search_spec_None)
    then show "lolelffs_ext_search ?x b = (if length ?es < LOLELFFS_MAX_EXTENTS then of_nat (length ?es) else - 1)"
      using srch n by simp
  }
qed

section \<open>Where the blocks are\<close>

lemma range_in_ranges: "(a, len) \<in> set rs \<Longrightarrow> range_of a len \<subseteq> set (ranges rs)"
  by (auto simp: ranges_def range_of_def)

lemma live_range: "e \<in> set (live_extents index) \<Longrightarrow> (ee_start e, ee_len e) \<in> set (ext_ranges (extents index))"
  by (auto simp: ext_ranges_def live_extents_def)

lemma file_block_owned:
  assumes "file_ok s ino" "b \<in> set (file_blocks s ino)"
  shows "unat b < unat (nr_blocks (sbi s)) \<and> unat b \<in> set (ranges (ext_ranges (extents (file_index s ino))))"
proof -
  obtain e where e: "e \<in> set (live_extents (file_index s ino))" "b \<in> set (extent_blocks e)"
    using assms(2) by (auto simp: file_blocks_eq)
  have "unat (ee_start e) + unat (ee_len e) \<le> unat (nr_blocks (sbi s))"
    using assms(1) live_range [OF e(1)] by (auto simp: file_ok_def owned_def)
  moreover from this have "unat b \<in> range_of (ee_start e) (ee_len e)"
    using extent_blocks_range [OF _ e(2)] unat_u32_less [of "nr_blocks (sbi s)"] by linarith
  ultimately show ?thesis
    using range_in_ranges [OF live_range [OF e(1)]] by (auto simp: range_of_def)
qed

lemma file_block_sector:
  assumes "file_ok s ino" "b \<in> set (file_blocks s ino)"
  shows "int_sector s b = sector s b" "sector s b \<noteq> index_sector s ino"
proof -
  note o = file_block_owned [OF assms]
  then show "int_sector s b = sector s b" using assms(1) by (simp add: int_sector_def file_ok_def)
  have "unat (ci_ei_block (inode_of s ino)) \<notin> set (ranges (ext_ranges (extents (file_index s ino))))"
    using assms(1) by (auto simp: file_ok_def owned_def ranges_Cons)
  then show "sector s b \<noteq> index_sector s ino" using o by (auto simp: index_sector_def)
qed

lemma unat_extent_blocks:
  assumes "unat (ee_start e) + unat (ee_len e) \<le> 4294967296"
  shows "map unat (extent_blocks e) = [unat (ee_start e) ..< unat (ee_start e) + unat (ee_len e)]"
proof -
  have "unat (ee_start e + of_nat i) = unat (ee_start e) + i" if "i < unat (ee_len e)" for i
    using that assms unat_u32_less [of "ee_len e"] unat_of_nat_u32 [of i] by (subst unat_add_u32) auto
  then show ?thesis by (simp add: extent_blocks_def list_eq_iff_nth_eq)
qed

lemma distinct_file_blocks:
  assumes "file_ok s ino"
  shows "distinct (file_blocks s ino)"
proof -
  let ?rs = "ext_ranges (extents (file_index s ino))"
  have "map unat (concat (map extent_blocks es)) = ranges (map (\<lambda>e. (ee_start e, ee_len e)) es)"
    if "\<forall>e \<in> set es. unat (ee_start e) + unat (ee_len e) \<le> 4294967296" for es
    using that by (induction es) (simp_all add: ranges_Cons unat_extent_blocks, simp add: ranges_def)
  moreover have "\<forall>e \<in> set (live_extents (file_index s ino)). unat (ee_start e) + unat (ee_len e) \<le> 4294967296"
  proof
    fix e assume "e \<in> set (live_extents (file_index s ino))"
    then have "unat (ee_start e) + unat (ee_len e) \<le> unat (nr_blocks (sbi s))"
      using assms live_range [of e "file_index s ino"] by (auto simp: file_ok_def owned_def)
    then show "unat (ee_start e) + unat (ee_len e) \<le> 4294967296" using unat_u32_less [of "nr_blocks (sbi s)"] by linarith
  qed
  ultimately have "map unat (file_blocks s ino) = ranges ?rs"
    by (simp add: file_blocks_eq ext_ranges_def live_extents_def)
  moreover have "distinct (ranges ?rs)" using assms by (simp add: file_ok_def owned_def ranges_Cons)
  ultimately have "distinct (map unat (file_blocks s ino))" by simp
  then show ?thesis by (simp add: distinct_map)
qed

section \<open>Mapping a block\<close>

lemma unat_ucast_iblock: "unat (iblock :: u64) < 4294967296 \<Longrightarrow> unat (ucast iblock :: u32) = unat iblock"
  by (simp add: unsigned_ucast_eq take_bit_eq_mod)

definition file_limit :: nat where
  "file_limit = unat LOLELFFS_MAX_BLOCKS_PER_EXTENT * LOLELFFS_MAX_EXTENTS"

lemma file_limit_eq: "file_limit = 348160"
  by (simp add: file_limit_def LOLELFFS_MAX_BLOCKS_PER_EXTENT_def max_extents)

lemma extent_no: "i \<le> 170 \<Longrightarrow> unat (of_nat i :: u32) = i" "i \<le> 170 \<Longrightarrow> (of_nat i :: u32) \<noteq> - 1"
proof -
  show 1: "unat (of_nat i :: u32) = i" if "i \<le> 170" for i using that by (intro unat_of_nat_u32) simp
  show "(of_nat i :: u32) \<noteq> - 1" if "i \<le> 170"
  proof
    assume "(of_nat i :: u32) = - 1"
    then have "(of_nat i :: u32) = 4294967295" by simp
    then have "unat (of_nat i :: u32) = 4294967295" by (simp only: unat_numeral) simp
    with 1 [OF that] that show False by linarith
  qed
qed

lemma get_block_mapped:
  assumes "file_ok s ino" "unat iblock < length (file_blocks s ino)" "unat iblock < file_limit"
  shows "lolelffs_file_get_block ino iblock create s = (Inr (Some (sector s (file_blocks s ino ! unat iblock))), s)"
proof -
  have u: "unat (ucast iblock :: u32) = unat iblock" using assms(3) by (simp add: unat_ucast_iblock file_limit_eq)
  obtain i where i: "i < length (live_extents (file_index s ino))" "lolelffs_ext_search (file_index s ino) (ucast iblock) = of_nat i"
    "file_blocks s ino ! unat iblock = ee_start (extents (file_index s ino) ! i) + (ucast iblock - ee_block (extents (file_index s ino) ! i))"
    using file_search(1) [OF assms(1), of "ucast iblock", unfolded u] assms(2) by blast
  have "i \<le> 170" using i(1) live_length [OF file_ok_wf [OF assms(1)]] by (simp add: max_extents)
  note x = extent_no [OF this]
  have b: "int_sector s (file_blocks s ino ! unat iblock) = sector s (file_blocks s ino ! unat iblock)"
    using file_block_sector(1) [OF assms(1)] assms(2) by simp
  have "ee_start (extents (file_index s ino) ! i) \<noteq> 0" by (rule conjunct2 [OF live_nth [OF i(1)]])
  moreover have "readable s (index_sector s ino)" using assms(1) by (simp add: file_ok_def)
  ultimately show ?thesis
    using assms(3) i(2) x b
    by (simp add: lolelffs_file_get_block_def Let_def file_limit_def [symmetric] i(3) add_diff_eq flip: file_index_def)
qed

lemma get_block_beyond:
  assumes "file_ok s ino" "length (file_blocks s ino) \<le> unat iblock" "unat iblock < file_limit"
  defines "c \<equiv> length (live_extents (file_index s ino))"
    and "n \<equiv> calc_optimal_extent_size (sbi s) (ucast (vi_blocks (inode_of s ino))) False"
  shows "lolelffs_file_get_block ino iblock create s =
    (if LOLELFFS_MAX_EXTENTS \<le> c then (Inl EFBIG, s)
     else if \<not> create then (Inr None, s)
     else case get_free_blocks (sbi s) n of (bno, b) \<Rightarrow>
       if bno = 0 then (Inl ENOSPC, set_sbi s b)
       else (Inr (Some (int_sector (set_sbi s b) bno)),
             put_ei (set_sbi s b) (index_sector s ino) (file_extent (file_index s ino) c bno n)))"
proof -
  have u: "unat (ucast iblock :: u32) = unat iblock" using assms(3) by (simp add: unat_ucast_iblock file_limit_eq)
  note srch = file_search(2) [OF assms(1), of "ucast iblock", unfolded u, OF assms(2), folded c_def]
  have "c \<le> 170" using live_length [OF file_ok_wf [OF assms(1)]] by (simp add: max_extents c_def)
  note x = extent_no [OF this]
  have "c < LOLELFFS_MAX_EXTENTS \<Longrightarrow> ee_start (extents (file_index s ino) ! c) = 0"
    using live_stop [OF file_ok_wf [OF assms(1)]] by (simp add: c_def)
  moreover have "readable s (index_sector s ino)" using assms(1) by (simp add: file_ok_def)
  ultimately show ?thesis
    using assms(3) x
    by (simp add: lolelffs_file_get_block_def Let_def file_limit_def [symmetric] srch n_def [symmetric]
        not_less split: prod.split flip: file_index_def)
qed

lemma calc_size: "calc_optimal_extent_size b cur False \<noteq> 0"
  by (simp add: calc_optimal_extent_size_def Let_def)

lemma calc_size_le: "calc_optimal_extent_size b cur False \<le> LOLELFFS_MAX_BLOCKS_PER_EXTENT_LARGE"
proof -
  define L where "L = LOLELFFS_MAX_BLOCKS_PER_EXTENT_LARGE"
  define x where "x = max_extent_blocks_large b"
  define m where "m = (if x = 0 \<or> L < x then L else x)"
  define a where "a = (if cur < 8 then 2 else if cur < 32 then 4 else if cur < 256 then 64 else if cur < 1024 then 256 else m)"
  define f where "f = nr_free_blocks b"
  have "m \<le> L" by (auto simp: m_def)
  moreover have "2 \<le> L" "4 \<le> L" "64 \<le> L" "256 \<le> L" "1 \<le> L"
    by (simp_all add: L_def LOLELFFS_MAX_BLOCKS_PER_EXTENT_LARGE_def word_le_nat_alt)
  ultimately have "a \<le> L" by (simp add: a_def)
  then have "(let a = (if f < a then f else a) in if a = 0 then 1 else a) \<le> L"
    using \<open>1 \<le> L\<close> by (auto simp: Let_def)
  then show ?thesis
    unfolding calc_optimal_extent_size_def Let_def L_def [symmetric] x_def [symmetric] f_def [symmetric] if_False
      m_def [symmetric] a_def [symmetric] .
qed

lemma wf_file_extent: "wf_ei x \<Longrightarrow> wf_ei (file_extent x c bno n)"
  by (simp add: wf_ei_def file_extent_def)

lemma takeWhile_update:
  assumes "c = length (takeWhile P xs)" "c < length xs" "P y" "list_all (\<lambda>x. \<not> P x) (drop c xs)"
  shows "takeWhile P (xs[c := y]) = takeWhile P xs @ [y]" "list_all (\<lambda>x. \<not> P x) (drop (Suc c) (xs[c := y]))"
proof -
  have t: "take c xs = takeWhile P xs" using assms(1) takeWhile_eq_take [of P xs] by simp
  have xs: "xs[c := y] = takeWhile P xs @ y # drop (Suc c) xs"
    using assms(2) by (simp add: upd_conv_take_nth_drop t)
  have d: "list_all (\<lambda>x. \<not> P x) (drop (Suc c) xs)"
    using assms(2,4) by (simp add: Cons_nth_drop_Suc [symmetric])
  then have "takeWhile P (drop (Suc c) xs) = []" by (cases "drop (Suc c) xs") auto
  then show "takeWhile P (xs[c := y]) = takeWhile P xs @ [y]"
    unfolding xs using assms(3) by (subst takeWhile_append2) (auto dest: set_takeWhileD)
  show "list_all (\<lambda>x. \<not> P x) (drop (Suc c) (xs[c := y]))" using d by simp
qed

lemma laid_out_last:
  "laid_out n es \<Longrightarrow> es \<noteq> [] \<Longrightarrow> unat (ee_block (last es)) + unat (ee_len (last es)) = n + total_len es"
proof (induction es arbitrary: n)
  case (Cons e es)
  note l = laid_outD [OF Cons.prems(1)]
  show ?case
  proof (cases es)
    case Nil
    then show ?thesis by (simp add: l(1) total_len_def)
  next
    case (Cons f fs)
    then have "unat (ee_block (last es)) + unat (ee_len (last es)) = n + unat (ee_len e) + total_len es"
      using Cons.IH [OF l(2)] by blast
    moreover have "total_len (e # es) = unat (ee_len e) + total_len es" by (simp add: total_len_def)
    ultimately show ?thesis using \<open>es = f # fs\<close> by (simp only: last_ConsR list.distinct) simp
  qed
qed simp

lemma file_total_bound: "file_ok s ino \<Longrightarrow> total_len (live_extents (file_index s ino)) < 4294967296"
proof -
  assume ok: "file_ok s ino"
  let ?es = "live_extents (file_index s ino)"
  have "laid_out 0 ?es" using ok by (simp add: file_ok_def)
  then have "total_len ?es \<le> 524288 * length ?es" by (intro total_len_le) (rule laid_out_len)
  moreover have "length ?es \<le> 170" using live_length [OF file_ok_wf [OF ok]] by (simp add: max_extents)
  ultimately show ?thesis by linarith
qed

lemma file_extent_live:
  assumes ok: "file_ok s ino" and c: "c = length (live_extents (file_index s ino))" "c < LOLELFFS_MAX_EXTENTS"
    and n: "n \<noteq> 0" "n \<le> LOLELFFS_MAX_BLOCKS_PER_EXTENT_LARGE" and bno: "bno \<noteq> 0"
  defines "x' \<equiv> file_extent (file_index s ino) c bno n"
  shows "\<exists>e. live_extents x' = live_extents (file_index s ino) @ [e] \<and> ee_start e = bno \<and> ee_len e = n"
    and "laid_out 0 (live_extents x')"
    and "list_all (\<lambda>e. ee_start e = 0) (drop (length (live_extents x')) (extents x'))"
    and "list_all (\<lambda>e. ee_flags e AND LOLELFFS_EXT_HAS_META = 0) (extents x')"
proof -
  let ?x = "file_index s ino" let ?es = "live_extents (file_index s ino)"
  define e where "e = extents x' ! c"
  have len: "c < length (extents ?x)" using c(2) file_ok_wf [OF ok] by (simp add: wf_ei_def)
  have x': "extents x' = (extents ?x)[c := e]" using len by (simp add: x'_def file_extent_def e_def)
  have e: "ee_start e = bno" "ee_len e = n" "ee_flags e = ee_flags (extents ?x ! c)"
    "ee_block e = (if c \<noteq> 0 then ee_block (extents ?x ! (c - 1)) + ee_len (extents ?x ! (c - 1)) else 0)"
    using len by (simp_all add: e_def x'_def file_extent_def)
  have fl: "list_all (\<lambda>e. ee_flags e AND LOLELFFS_EXT_HAS_META = 0) (extents ?x)"
    and z: "list_all (\<lambda>e. \<not> ee_start e \<noteq> 0) (drop c (extents ?x))" and l: "laid_out 0 ?es"
    using ok c(1) by (simp_all add: file_ok_def)
  have fe: "ee_flags e AND LOLELFFS_EXT_HAS_META = 0" using fl len by (simp add: e(3) list_all_length)
  note u = takeWhile_update [OF c(1) [unfolded live_extents_def] len _ z, of e, folded x' live_extents_def]
  have live: "live_extents x' = ?es @ [e]" using u(1) e(1) bno by (simp add: live_extents_def)
  show "\<exists>e. live_extents x' = ?es @ [e] \<and> ee_start e = bno \<and> ee_len e = n" using live e by blast
  show "list_all (\<lambda>e. ee_start e = 0) (drop (length (live_extents x')) (extents x'))"
    using u(2) e(1) bno c(1) by (simp add: live)
  show "list_all (\<lambda>e. ee_flags e AND LOLELFFS_EXT_HAS_META = 0) (extents x')"
    unfolding x' using fl fe by (rule list_all_update)
  have "unat (ee_block e) = total_len ?es"
  proof (cases "c = 0")
    case True
    then show ?thesis using c(1) by (simp add: e(4) total_len_def)
  next
    case False
    then have ne: "?es \<noteq> []" using c(1) by auto
    have "extents ?x ! (c - 1) = last ?es"
      using live_nth [of "c - 1" ?x] False c(1) ne by (simp add: last_conv_nth)
    then show ?thesis
      using laid_out_last [OF l ne] file_total_bound [OF ok] False by (simp add: e(4) unat_add_u32)
  qed
  moreover have "ee_len e \<le> ext_max e" using n(2) fe by (simp add: e(2) ext_max_def)
  moreover have "1 \<le> unat (ee_len e)" using n(1) by (simp add: e(2) Suc_le_eq unat_gt_0)
  ultimately show "laid_out 0 (live_extents x')" using l by (simp add: live laid_out_append)
qed

lemma sector_set_sbi: "fs_offset b = fs_offset (sbi s) \<Longrightarrow> sector (set_sbi s b) = sector s"
  by (rule sector_cong) simp

lemma index_sector_put:
  assumes "fs_offset b = fs_offset (sbi s)"
  shows "index_sector (put_ei (set_sbi s b) k x) ino = index_sector s ino"
  using assms by (simp add: index_sector_def sector_set_sbi inode_of_def)

lemma file_index_put:
  assumes "fs_offset b = fs_offset (sbi s)" "wf_ei x"
  shows "file_index (put_ei (set_sbi s b) (index_sector s ino) x) ino = x"
  using assms by (simp add: file_index_def index_sector_put ei_at_put)

lemma ext_ranges_live: "ext_ranges (extents x) = map (\<lambda>e. (ee_start e, ee_len e)) (live_extents x)"
  by (simp add: ext_ranges_def live_extents_def)

lemma owned_extend:
  assumes "owned b rs" "taken b (range_of a len) {} b'" "a \<noteq> 0" "len \<noteq> 0"
  shows "owned b' (rs @ [(a, len)])"
proof -
  have t: "range_of a len \<subseteq> free_blocks b" "free_blocks b' = free_blocks b - range_of a len" "nr_blocks b' = nr_blocks b"
    using assms(2) by (simp_all add: taken_def same_geometry_def)
  have "unat a + unat len \<le> unat (nr_blocks b')" using free_range_bound [OF t(1) assms(4)] t(3) by simp
  moreover have "ranges [(a, len)] = [unat a ..< unat a + unat len]" by (simp add: ranges_def)
  ultimately show ?thesis
    using assms(1,3,4) t unfolding owned_def ranges_append range_of_def by auto
qed

text \<open>One more extent at the end of the file.\<close>

lemma file_extend:
  assumes ok: "file_ok s ino" and c: "c = length (live_extents (file_index s ino))" "c < LOLELFFS_MAX_EXTENTS"
    and n: "n \<noteq> 0" "n \<le> LOLELFFS_MAX_BLOCKS_PER_EXTENT_LARGE"
    and get: "get_free_blocks (sbi s) n = (bno, b)" "bno \<noteq> 0"
  defines "s' \<equiv> put_ei (set_sbi s b) (index_sector s ino) (file_extent (file_index s ino) c bno n)"
  shows "file_ok s' ino"
    and "\<exists>e. live_extents (file_index s' ino) = live_extents (file_index s ino) @ [e] \<and> ee_start e = bno \<and> ee_len e = n"
    and "taken (sbi s) (range_of bno n) {} (sbi s')"
proof -
  let ?x' = "file_extent (file_index s ino) c bno n"
  note f = file_extent_live [OF ok c n get(2)]
  have inv: "sbi_inv (sbi s)" and wf: "wf_dev s" using ok by (simp_all add: file_ok_def)
  show t: "taken (sbi s) (range_of bno n) {} (sbi s')"
    using get_free_blocks_taken [OF inv get(1) n(1)] get(2) by (simp add: s'_def)
  then have g: "sbi_inv b" "fs_offset b = fs_offset (sbi s)" "nr_blocks b = nr_blocks (sbi s)"
    by (simp_all add: taken_def same_geometry_def s'_def)
  have wx: "wf_ei ?x'" by (rule wf_file_extent [OF file_ok_wf [OF ok]])
  have x': "file_index s' ino = ?x'" unfolding s'_def by (rule file_index_put [OF g(2) wx])
  show "\<exists>e. live_extents (file_index s' ino) = live_extents (file_index s ino) @ [e] \<and> ee_start e = bno \<and> ee_len e = n"
    unfolding x' by (rule f(1))
  have "ext_ranges (extents ?x') = ext_ranges (extents (file_index s ino)) @ [(bno, n)]"
    using f(1) by (auto simp: ext_ranges_live)
  then have "owned b ((ci_ei_block (inode_of s ino), 1) # ext_ranges (extents ?x'))"
    using owned_extend [of "sbi s" "(ci_ei_block (inode_of s ino), 1) # ext_ranges (extents (file_index s ino))" bno n b] ok t n(1) get(2)
    by (simp add: file_ok_def s'_def)
  moreover have "index_sector s' ino = index_sector s ino" unfolding s'_def by (rule index_sector_put [OF g(2)])
  moreover have "wf_dev s'" using wf wx by (simp add: s'_def wf_dev_blocks [of s])
  moreover have "inode_of s' ino = inode_of s ino" by (simp add: s'_def inode_of_def)
  ultimately show "file_ok s' ino"
    using ok f(2,3,4) g by (simp add: file_ok_def x') (simp add: s'_def)
qed

text \<open>What a call of \<open>lolelffs_file_get_block\<close> does to the state: nothing, or one more extent.\<close>

lemma get_block_state:
  assumes "file_ok s ino" "lolelffs_file_get_block ino iblock create s = (r, s')"
  obtains (same) "s' = s" "unat iblock < length (file_blocks s ino) \<or> \<not> create \<or> r = Inl EFBIG \<or> r = Inl ENOSPC"
  | (more) c n bno b where "c = length (live_extents (file_index s ino))" "c < LOLELFFS_MAX_EXTENTS"
      "n \<noteq> 0" "n \<le> LOLELFFS_MAX_BLOCKS_PER_EXTENT_LARGE"
      "get_free_blocks (sbi s) n = (bno, b)" "bno \<noteq> 0" "r = Inr (Some (int_sector (set_sbi s b) bno))"
      "s' = put_ei (set_sbi s b) (index_sector s ino) (file_extent (file_index s ino) c bno n)"
proof (cases "unat iblock < file_limit")
  case False
  then have "s' = s" "r = Inl EFBIG"
    using assms(2) by (simp_all add: lolelffs_file_get_block_def file_limit_def [symmetric] not_less)
  then show ?thesis using same by simp
next
  case lim: True
  show ?thesis
  proof (cases "unat iblock < length (file_blocks s ino)")
    case True
    then have "s' = s" using get_block_mapped [OF assms(1) True lim, of create] assms(2) by simp
    then show ?thesis using same True by simp
  next
    case False
    define n where "n = calc_optimal_extent_size (sbi s) (ucast (vi_blocks (inode_of s ino))) False"
    obtain bno b where get: "get_free_blocks (sbi s) n = (bno, b)" by (cases "get_free_blocks (sbi s) n")
    have n: "n \<noteq> 0" "n \<le> LOLELFFS_MAX_BLOCKS_PER_EXTENT_LARGE"
      unfolding n_def by (rule calc_size, rule calc_size_le)
    define c where "c = length (live_extents (file_index s ino))"
    note beyond = get_block_beyond [OF assms(1) _ lim, of create, folded n_def c_def, unfolded assms(2) get prod.case]
    show ?thesis
    proof (cases "c < LOLELFFS_MAX_EXTENTS \<and> create \<and> bno \<noteq> 0")
      case True
      with beyond False more [OF c_def _ n get] show ?thesis by simp
    next
      case fail: False
      have "bno = 0 \<Longrightarrow> set_sbi s b = s"
        using get_free_blocks_taken [OF _ get n(1)] assms(1) by (simp add: file_ok_def set_sbi_id)
      with fail beyond False have "s' = s" "\<not> create \<or> r = Inl EFBIG \<or> r = Inl ENOSPC"
        by (cases "bno = 0"; simp split: if_splits)+
      then show ?thesis using same by blast
    qed
  qed
qed

section \<open>Growing and taking back\<close>

inductive get_block_calls :: "u32 \<Rightarrow> fs \<Rightarrow> fs \<Rightarrow> bool" for ino where
  none: "get_block_calls ino s s"
| call: "get_block_calls ino s t \<Longrightarrow> lolelffs_file_get_block ino iblock create t = (r, u) \<Longrightarrow> get_block_calls ino s u"

abbreviation ext_range :: "lolelffs_extent \<Rightarrow> u32 \<times> u32" where
  "ext_range e \<equiv> (ee_start e, ee_len e)"

text \<open>\<open>grown s es t\<close>: from \<open>s\<close> to \<open>t\<close> the file has got the extents \<open>es\<close>, out of the free blocks.\<close>

definition grown :: "u32 \<Rightarrow> fs \<Rightarrow> lolelffs_extent list \<Rightarrow> fs \<Rightarrow> bool" where
  "grown ino s es t \<longleftrightarrow> file_ok t ino \<and> live_extents (file_index t ino) = live_extents (file_index s ino) @ es
     \<and> taken (sbi s) (set (ranges (map ext_range es))) {} (sbi t) \<and> index_sector t ino = index_sector s ino
     \<and> inode_of t ino = inode_of s ino \<and> readable t = readable s
     \<and> (\<forall>k. k \<noteq> index_sector s ino \<longrightarrow> blocks t k = blocks s k)"

lemma grown_none: "file_ok s ino \<Longrightarrow> grown ino s [] s"
  by (simp add: grown_def ranges_def taken_refl file_ok_def)

lemma grown_step:
  assumes g: "grown ino s es t" and call: "lolelffs_file_get_block ino iblock create t = (r, u)"
  shows "\<exists>es. grown ino s es u"
proof -
  have ok: "file_ok t ino" using g by (simp add: grown_def)
  show ?thesis
    using ok call
  proof (cases rule: get_block_state)
    case same
    with g show ?thesis by blast
  next
    case (more c n bno b)
    note x = file_extend [OF ok more(1-6), folded more(8)]
    obtain e where e: "live_extents (file_index u ino) = live_extents (file_index t ino) @ [e]" "ee_start e = bno" "ee_len e = n"
      using x(2) by blast
    have "taken (sbi s) (set (ranges (map ext_range (es @ [e])))) {} (sbi u)"
      using taken_trans [OF _ x(3), of "sbi s" "set (ranges (map ext_range es))" "{}"] g e(2,3)
      by (simp add: grown_def ranges_append) (simp add: ranges_def range_of_def)
    moreover have "fs_offset b = fs_offset (sbi t)" using get_free_blocks_frame [OF more(5)] by simp
    then have "index_sector u ino = index_sector t ino" unfolding more(8) by (rule index_sector_put)
    ultimately have "grown ino s (es @ [e]) u"
      using g x(1) e(1) by (simp add: grown_def) (simp add: more(8) put_ei_def inode_of_def)
    then show ?thesis by blast
  qed
qed

lemma grown_calls: "get_block_calls ino s t \<Longrightarrow> file_ok s ino \<Longrightarrow> \<exists>es. grown ino s es t"
proof (induction rule: get_block_calls.induct)
  case (call s t iblock create r u)
  then obtain es where "grown ino s es t" by blast
  then show ?case using call(2) by (rule grown_step)
qed (blast intro: grown_none)

lemma drop_used_eq:
  "drop_used xs = replicate (length (takeWhile (\<lambda>e. ee_start e \<noteq> 0) xs)) zero_extent @ dropWhile (\<lambda>e. ee_start e \<noteq> 0) xs"
  by (induction xs) auto

lemma owned_rotate: "owned b (xs @ ys) \<Longrightarrow> owned b (ys @ xs)"
  by (auto simp: owned_def ranges_append)

lemma split_extents:
  assumes "live_extents x = es @ fs"
  shows "extents x = es @ fs @ dropWhile (\<lambda>e. ee_start e \<noteq> 0) (extents x)"
    and "ext_ranges (drop (length es) (extents x)) = map ext_range fs"
    and "drop_used (drop (length es) (extents x)) = replicate (length fs) zero_extent @ dropWhile (\<lambda>e. ee_start e \<noteq> 0) (extents x)"
proof -
  let ?P = "\<lambda>e :: lolelffs_extent. ee_start e \<noteq> 0"
  have "live_extents x @ dropWhile ?P (extents x) = extents x" by (simp add: live_extents_def)
  then show x: "extents x = es @ fs @ dropWhile ?P (extents x)" unfolding assms by simp
  then have d: "drop (length es) (extents x) = fs @ dropWhile ?P (extents x)" by (metis append_eq_conv_conj)
  have "\<forall>e \<in> set fs. ?P e" using assms set_takeWhileD [of _ ?P "extents x"] by (auto simp: live_extents_def)
  moreover have "takeWhile ?P (dropWhile ?P zs) = []" "dropWhile ?P (dropWhile ?P zs) = dropWhile ?P zs" for zs
    by (induction zs) auto
  ultimately have t: "takeWhile ?P (fs @ dropWhile ?P (extents x)) = fs" "dropWhile ?P (fs @ dropWhile ?P (extents x)) = dropWhile ?P (extents x)"
    by (simp_all add: takeWhile_append2 dropWhile_append2)
  then show "ext_ranges (drop (length es) (extents x)) = map ext_range fs" by (simp add: ext_ranges_def d)
  from t show "drop_used (drop (length es) (extents x)) = replicate (length fs) zero_extent @ dropWhile ?P (extents x)"
    by (simp add: drop_used_eq d)
qed

lemma takeWhile_keep: "\<forall>x \<in> set xs. P x \<Longrightarrow> takeWhile P ys = [] \<Longrightarrow> takeWhile P (xs @ ys) = xs"
  by (induction xs) auto

lemma release_grown:
  assumes g: "grown ino s es t" and ok: "file_ok s ino"
  defines "s' \<equiv> release_from t (index_sector t ino) (length (live_extents (file_index s ino)))"
  shows "file_ok s' ino \<and> live_extents (file_index s' ino) = live_extents (file_index s ino)
    \<and> free_blocks (sbi s') = free_blocks (sbi s) \<and> free_inodes (sbi s') = free_inodes (sbi s)
    \<and> (\<forall>k. k \<noteq> index_sector s ino \<longrightarrow> blocks s' k = blocks s k)"
proof -
  let ?L = "live_extents (file_index s ino)" let ?x = "file_index t ino" let ?k = "index_sector t ino"
  let ?P = "\<lambda>e :: lolelffs_extent. ee_start e \<noteq> 0"
  have okt: "file_ok t ino" and live: "live_extents ?x = ?L @ es"
    and tk: "taken (sbi s) (set (ranges (map ext_range es))) {} (sbi t)"
    and same: "index_sector t ino = index_sector s ino" "\<forall>k. k \<noteq> index_sector s ino \<longrightarrow> blocks t k = blocks s k"
    using g by (simp_all add: grown_def)
  define z where "z = dropWhile ?P (extents ?x)"
  note sp = split_extents [OF live, folded z_def]
  define b where "b = put_extents (sbi t) (drop (length ?L) (extents ?x))"
  define x' where "x' = ?x\<lparr>extents := ?L @ replicate (length es) zero_extent @ z\<rparr>"
  have "take (length ?L) (extents ?x) = ?L" by (subst sp(1)) simp
  then have s': "s' = put_ei (set_sbi t b) ?k x'"
    by (simp add: s'_def release_from_def Let_def b_def x'_def sp(3) flip: file_index_def)
  have ot: "owned (sbi t) (map ext_range es @ (ci_ei_block (inode_of t ino), 1) # map ext_range ?L)"
    using okt owned_rotate [of "sbi t" "(ci_ei_block (inode_of t ino), 1) # map ext_range ?L" "map ext_range es"]
    by (simp add: file_ok_def ext_ranges_live live)
  have rel: "taken b (set (ranges (map ext_range es))) {} (sbi t)" "sbi_inv b"
      "owned b ((ci_ei_block (inode_of t ino), 1) # map ext_range ?L)"
    using put_extents_released [of "sbi t" "drop (length ?L) (extents ?x)"] okt ot
    by (simp_all add: b_def sp(2) file_ok_def)
  have off: "fs_offset b = fs_offset (sbi t)" "nr_blocks b = nr_blocks (sbi t)" using rel(1) by (simp_all add: taken_def same_geometry_def)
  have wx: "wf_ei x'" using file_ok_wf [OF okt] by (simp add: wf_ei_def x'_def sp(1))
  have fx: "file_index s' ino = x'" unfolding s' by (rule file_index_put [OF off(1) wx])
  have P: "\<forall>e \<in> set ?L. ?P e" by (auto simp: live_extents_def dest: set_takeWhileD)
  have xt: "extents ?x = ?L @ es @ z" by (rule sp(1))
  have "list_all (\<lambda>e. ee_start e = 0) z"
    using okt by (simp add: file_ok_def live xt)
  note z0 = this
  then have "takeWhile ?P (replicate (length es) zero_extent @ z) = []"
    by (cases "length es"; cases z) (auto simp: zero_extent_def)
  then have "takeWhile ?P (?L @ replicate (length es) zero_extent @ z) = ?L"
    using P by (intro takeWhile_keep) blast+
  moreover have "extents x' = ?L @ replicate (length es) zero_extent @ z" by (simp add: x'_def)
  ultimately have lx: "live_extents x' = ?L" by (simp only: live_extents_def [of x'])
  from z0 have zx: "list_all (\<lambda>e. ee_start e = 0) (drop (length ?L) (extents x'))"
    by (auto simp: x'_def list_all_iff zero_extent_def)
  have "list_all (\<lambda>e. ee_flags e AND LOLELFFS_EXT_HAS_META = 0) (?L @ es @ z)"
    unfolding xt [symmetric] using okt by (simp add: file_ok_def)
  then have flx: "list_all (\<lambda>e. ee_flags e AND LOLELFFS_EXT_HAS_META = 0) (extents x')"
    by (auto simp: x'_def list_all_iff zero_extent_def)
  have "laid_out 0 ?L" using ok by (simp add: file_ok_def)
  moreover have "index_sector s' ino = ?k" unfolding s' by (rule index_sector_put [OF off(1)])
  moreover have "inode_of s' ino = inode_of t ino" by (simp add: s' inode_of_def)
  ultimately have "file_ok s' ino"
    using okt rel wx off lx zx flx by (simp add: file_ok_def fx ext_ranges_live) (simp add: s' wf_dev_blocks [of t])
  moreover have "free_blocks b = free_blocks (sbi s)" "free_inodes b = free_inodes (sbi s)"
    using rel(1) tk by (auto simp: taken_def)
  ultimately show ?thesis using same by (simp add: fx lx) (simp add: s' put_ei_def)
qed

section \<open>A file of two blocks\<close>

lemma file_fs_index: "index_sector file_fs 1 = 13" "file_index file_fs 1 = one_extent 0 14 2"
  by (simp_all add: index_sector_def file_index_def file_sector file_at)

lemma one_extent_live: "a \<noteq> 0 \<Longrightarrow> live_extents (one_extent n a len) = [zero_extent\<lparr>ee_start := a, ee_len := len\<rparr>]"
  by (simp add: live_extents_def one_extent_extents zero_extent_def)

lemma file_fs_blocks: "file_blocks file_fs 1 = [14, 15]"
  by (simp add: file_blocks_eq file_fs_index one_extent_live [of 14 0 2] extent_blocks_def upt_rec)

lemma file_fs_ok: "file_ok file_fs 1"
proof -
  have s: "sbi file_fs = file_sbi" by (simp add: file_fs_def)
  have l: "live_extents (file_index file_fs 1) = [zero_extent\<lparr>ee_start := 14, ee_len := 2\<rparr>]"
    by (simp add: file_fs_index one_extent_live)
  have nb: "unat (nr_blocks file_sbi) = 32" by (simp add: file_sbi_def dir_sbi_def)
  have "owned file_sbi [(13, 1), (14, 2)]"
    by (auto simp: owned_def ranges_def file_free nb)
  moreover have "list_all (\<lambda>e. ee_flags e AND LOLELFFS_EXT_HAS_META = 0) (extents (file_index file_fs 1))"
    "list_all (\<lambda>e. ee_start e = 0) (drop 1 (extents (file_index file_fs 1)))"
    by (simp_all add: file_fs_index one_extent_extents list_all_iff zero_extent_def)
  moreover have "unat (nr_blocks file_sbi) \<le> 2 ^ 31" by (simp add: nb)
  moreover have "laid_out 0 (live_extents (file_index file_fs 1))"
    by (simp add: l zero_extent_def ext_max_def LOLELFFS_MAX_BLOCKS_PER_EXTENT_LARGE_def word_le_nat_alt)
  ultimately show ?thesis
    by (simp add: file_ok_def s file_sbi_inv file_wf_dev file_sector ext_ranges_live l)
qed

section \<open>Properties\<close>

text \<open>
  C14. \<open>lolelffs_file_get_block\<close> refines a list of blocks. For a block of the file it answers with
  the sector of that element of the list and changes nothing. For the block right behind the end
  it appends free blocks to the list, marks them as used, answers with the sector of the first of
  them and changes no other block than the file's index; or it fails and changes nothing. The file
  stays in order: its blocks are distinct, allocated and nobody else's.
\<close>

theorem get_block_refines:
  assumes "file_ok s ino" "unat iblock \<le> length (file_blocks s ino)" "unat iblock < file_limit"
    "lolelffs_file_get_block ino iblock True s = (r, s')"
  shows "case r of
      Inl e \<Rightarrow> s' = s \<and> unat iblock = length (file_blocks s ino) \<and> (e = EFBIG \<or> e = ENOSPC)
    | Inr m \<Rightarrow> m = Some (sector s (file_blocks s' ino ! unat iblock)) \<and> file_ok s' ino \<and> distinct (file_blocks s' ino)
        \<and> (\<exists>new. file_blocks s' ino = file_blocks s ino @ new \<and> (new = [] \<longleftrightarrow> unat iblock < length (file_blocks s ino))
             \<and> taken (sbi s) (unat ` set new) {} (sbi s'))
        \<and> (\<forall>k. k \<noteq> index_sector s ino \<longrightarrow> blocks s' k = blocks s k)"
proof (cases "unat iblock < length (file_blocks s ino)")
  case True
  then have "r = Inr (Some (sector s (file_blocks s ino ! unat iblock)))" "s' = s"
    using get_block_mapped [OF assms(1) True assms(3), of True] assms(4) by simp_all
  then show ?thesis
    using assms(1) True distinct_file_blocks [OF assms(1)] taken_refl [of "sbi s"] by (auto simp: file_ok_def)
next
  case False
  with assms(2) have len: "unat iblock = length (file_blocks s ino)" by simp
  from assms(1,4) show ?thesis
  proof (cases rule: get_block_state)
    case same
    with len show ?thesis by auto
  next
    case (more c n bno b)
    note x = file_extend [OF assms(1) more(1-6), folded more(8)]
    obtain e where e: "live_extents (file_index s' ino) = live_extents (file_index s ino) @ [e]" "ee_start e = bno" "ee_len e = n"
      using x(2) by blast
    have fb: "file_blocks s' ino = file_blocks s ino @ extent_blocks e" by (simp add: file_blocks_eq e(1))
    have n: "0 < unat n" using more(3) by (simp add: unat_gt_0)
    have hd: "file_blocks s' ino ! unat iblock = bno" using n by (simp add: fb len nth_append nth_extent_blocks e(2,3))
    have "range_of bno n \<subseteq> free_blocks (sbi s)" using x(3) by (simp add: taken_def)
    then have "unat bno + unat n \<le> 4294967296"
      using free_range_bound [OF _ more(3)] unat_u32_less [of "nr_blocks (sbi s)"] by (meson less_imp_le order.trans)
    then have "unat ` set (extent_blocks e) = range_of bno n"
      using unat_extent_blocks [of e] by (simp add: e range_of_def flip: set_map)
    moreover have "sector s' = sector s" using x(3) by (intro sector_cong) (simp add: taken_def same_geometry_def)
    moreover have "bno \<in> set (file_blocks s' ino)" using n hd nth_mem [of "unat iblock" "file_blocks s' ino"] by (simp add: fb len e)
    moreover have "int_sector (set_sbi s b) bno = int_sector s' bno" by (simp add: int_sector_def sector_def more(8))
    moreover have "extent_blocks e \<noteq> []" using n by (simp add: extent_blocks_def e(3))
    ultimately show ?thesis
      using x(1,3) fb hd n len file_block_sector(1) [OF x(1), of bno] distinct_file_blocks [OF x(1)] more(7)
      by (auto simp: e) (simp_all add: more(8) put_ei_def)
  qed
qed

theorem get_block_refines_witness:
  "lolelffs_file_get_block 1 1 True file_fs = (Inr (Some 15), snd (lolelffs_file_get_block 1 1 True file_fs))
    \<and> file_blocks (snd (lolelffs_file_get_block 1 1 True file_fs)) 1 = [14, 15]"
proof -
  obtain r s' where call: "lolelffs_file_get_block 1 1 True file_fs = (r, s')"
    by (cases "lolelffs_file_get_block 1 1 True file_fs")
  from get_block_refines [OF file_fs_ok _ _ call]
  show ?thesis by (cases r) (auto simp: call file_fs_blocks file_limit_eq file_sector)
qed

text \<open>What is relied on of \<open>block_write_begin\<close>: it changes the file system by asking for blocks only.\<close>

definition prepares_by_get_block ::
  "((u64 \<Rightarrow> bool \<Rightarrow> fs \<Rightarrow> (errno + nat option) \<times> fs) \<Rightarrow> u64 \<Rightarrow> u32 \<Rightarrow> fs \<Rightarrow> (errno + unit) \<times> fs) \<Rightarrow> u32 \<Rightarrow> bool" where
  "prepares_by_get_block block_write_begin ino \<longleftrightarrow>
     (\<forall>pos len s r t. block_write_begin (lolelffs_file_get_block ino) pos len s = (r, t) \<longrightarrow> get_block_calls ino s t)"

text \<open>
  C26. A write that fails leaves nothing behind. The kernel prepares a write by asking
  \<open>lolelffs_file_get_block\<close> for blocks, any number of them, and may fail at any point; then
  \<open>lolelffs_write_begin\<close> takes the new extents back: the file has the blocks it had, the free
  blocks and their count are those before the write, and no other block has changed.
\<close>

theorem write_begin_undo:
  assumes "file_ok s ino" "prepares_by_get_block block_write_begin ino"
    "lolelffs_write_begin block_write_begin ino pos len s = (Inl e, s')"
  shows "file_ok s' ino \<and> file_blocks s' ino = file_blocks s ino \<and> free_blocks (sbi s') = free_blocks (sbi s)
    \<and> nr_free_blocks (sbi s') = nr_free_blocks (sbi s) \<and> (\<forall>k. k \<noteq> index_sector s ino \<longrightarrow> blocks s' k = blocks s k)"
proof -
  have "s' = s \<or> (\<exists>es t. grown ino s es t \<and> s' = release_from t (index_sector t ino) (length (live_extents (file_index s ino))))"
  proof (cases "block_write_begin (lolelffs_file_get_block ino) pos len s")
    case (Pair r t)
    then obtain es where g: "grown ino s es t"
      using grown_calls [OF _ assms(1)] assms(2) unfolding prepares_by_get_block_def by blast
    then have "file_ok t ino" by (simp add: grown_def)
    then have "readable t (index_sector t ino)" by (simp add: file_ok_def)
    with Pair g assms(3) show ?thesis
      unfolding lolelffs_write_begin_def Let_def
      by (auto simp: file_index_def split: if_splits sum.splits)
  qed
  then show ?thesis
  proof
    assume "\<exists>es t. grown ino s es t \<and> s' = release_from t (index_sector t ino) (length (live_extents (file_index s ino)))"
    then obtain es t where "grown ino s es t" "s' = release_from t (index_sector t ino) (length (live_extents (file_index s ino)))"
      by blast
    note r = release_grown [OF this(1) assms(1), folded this(2)]
    have "unat (nr_free_blocks (sbi s')) = unat (nr_free_blocks (sbi s))"
      using r assms(1) by (simp add: file_ok_def sbi_inv_def blocks_inv_def alloc_inv_def free_blocks_def)
    then show ?thesis using r by (simp add: file_blocks_eq word_unat_eq_iff)
  qed (use assms(1) in simp)
qed

text \<open>For evaluation: a kernel that asks for the two blocks behind the end and then fails.\<close>

definition failing_begin ::
  "(u64 \<Rightarrow> bool \<Rightarrow> fs \<Rightarrow> (errno + nat option) \<times> fs) \<Rightarrow> u64 \<Rightarrow> u32 \<Rightarrow> fs \<Rightarrow> (errno + unit) \<times> fs" where
  "failing_begin get_block pos len s = (Inl EIO, snd (get_block 3 True (snd (get_block 2 True s))))"

theorem write_begin_undo_witness:
  "file_blocks (snd (lolelffs_write_begin failing_begin 1 8192 4096 file_fs)) 1 = [14, 15]
    \<and> free_blocks (sbi (snd (lolelffs_write_begin failing_begin 1 8192 4096 file_fs))) = {16..<32}"
proof -
  have p: "prepares_by_get_block failing_begin 1"
    by (auto simp: prepares_by_get_block_def failing_begin_def
        intro!: get_block_calls.call [OF get_block_calls.call [OF get_block_calls.none prod.collapse [symmetric]] prod.collapse [symmetric]])
  have "\<exists>e s'. lolelffs_write_begin failing_begin 1 8192 4096 file_fs = (Inl e, s')"
    unfolding lolelffs_write_begin_def failing_begin_def Let_def prod.case sum.case by simp
  then obtain e s' where call: "lolelffs_write_begin failing_begin 1 8192 4096 file_fs = (Inl e, s')" by blast
  have "sbi file_fs = file_sbi" by (simp add: file_fs_def)
  with write_begin_undo [OF file_fs_ok p call] show ?thesis by (simp add: call file_fs_blocks file_free)
qed

end
