(* ===== verification/Xattr_Map.thy ===== *)
theory Xattr_Map
  imports Xattr_Ops File_Map
begin

text \<open>
  What the extended attributes of an inode are: an abstract list of keys (name space and name) with
  values, its encoding as the byte string of \<^verbatim>\<open>src/xattr.c\<close>, and the proof that getting,
  setting and deleting an attribute look up, update and delete in that list.
\<close>

type_synonym attr = "(nat \<times> bytes) \<times> bytes"

definition attr_ok :: "attr \<Rightarrow> bool" where
  "attr_ok a \<longleftrightarrow> (case a of ((idx, name), value) \<Rightarrow> idx < 256 \<and> 0 < length name \<and> length name \<le> 255 \<and> length value \<le> 65535)"

definition enc_attr :: "attr \<Rightarrow> bytes" where
  "enc_attr a = (case a of ((idx, name), value) \<Rightarrow> new_entry idx name value)"

definition enc_attrs :: "attr list \<Rightarrow> bytes" where
  "enc_attrs as = concat (map enc_attr as)"

lemma enc_attrs_simps [simp]: "enc_attrs [] = []" "enc_attrs (a # as) = enc_attr a @ enc_attrs as"
  "enc_attrs (as @ bs) = enc_attrs as @ enc_attrs bs"
  by (simp_all add: enc_attrs_def)

section \<open>Entries\<close>

lemma align4_add: "4 dvd n \<Longrightarrow> align4 (n + m) = n + align4 m"
proof (elim dvdE)
  fix k assume n: "n = 4 * k"
  have "(4 * k + m + 3) div 4 = k + (m + 3) div 4" by linarith
  then show ?thesis unfolding n align4_def by simp
qed

lemma length_new_entry: "length (new_entry idx name value) = align4 (12 + length name + 1 + length value)"
proof -
  have "length (enc_xentry e) = 12" for e by (simp add: xnc.length_enc sizeof_xattr_entry_def)
  then show ?thesis
    using align4_ge [of "12 + length name + 1 + length value"] by (simp add: new_entry_def Let_def add.assoc)
qed

lemma align4_dvd [simp]: "4 dvd align4 n"
  by (simp add: align4_def)

lemma enc_attr_dvd [simp]: "4 dvd length (enc_attr a)" "4 dvd length (enc_attrs as)"
proof -
  show 1: "4 dvd length (enc_attr a)" for a by (cases a) (auto simp: enc_attr_def length_new_entry)
  show "4 dvd length (enc_attrs as)" by (induction as) (simp_all add: 1)
qed

lemma enc_attr_long: "12 < length (enc_attr a)"
proof -
  obtain i n v where "a = ((i, n), v)" by (metis prod.exhaust)
  then show ?thesis using align4_ge [of "12 + length n + 1 + length v"] by (simp add: enc_attr_def length_new_entry)
qed

lemma enc_attrs_Nil [simp]: "enc_attrs as = [] \<longleftrightarrow> as = []"
proof (cases as)
  case (Cons a l)
  then show ?thesis using enc_attr_long [of a] by auto
qed simp

text \<open>What the code reads from an encoded entry.\<close>

lemma entry_parts:
  assumes "attr_ok ((idx, name), value)"
    and data_def: "data = pre @ enc_attr ((idx, name), value) @ post"
  shows "unat (name_len (entry_at data (length pre))) = length name" "unat (name_index (entry_at data (length pre))) = idx"
    "unat (value_len (entry_at data (length pre))) = length value"
    "unat (value_offset (entry_at data (length pre))) = 12 + length name + 1"
    "bytes_at (length pre + 12) (length name) data = name"
    "bytes_at (length pre + (12 + length name + 1)) (length value) data = value"
    "entry_size (entry_at data (length pre)) = length (enc_attr ((idx, name), value))"
proof -
  let ?e = "\<lparr>name_len = of_nat (length name), name_index = of_nat idx, value_len = of_nat (length value),
    value_offset = of_nat (sizeof_xattr_entry + length name + 1), x_reserved = 0\<rparr> :: lolelffs_xattr_entry"
  define tl where "tl = replicate (align4 (length (enc_xentry ?e @ name @ [0] @ value)) - length (enc_xentry ?e @ name @ [0] @ value)) (0 :: u8) @ post"
  have d: "data = pre @ enc_xentry ?e @ name @ [0] @ value @ tl" by (simp add: data_def enc_attr_def new_entry_def Let_def tl_def)
  have l: "length (enc_xentry ?e) = 12" by (simp add: xnc.length_enc sizeof_xattr_entry_def)
  have e: "entry_at data (length pre) = ?e"
    using l by (simp add: entry_at_def d bytes_at_def sizeof_xattr_entry_def xnc.dec_enc)
  show p: "unat (name_len (entry_at data (length pre))) = length name" "unat (name_index (entry_at data (length pre))) = idx"
    "unat (value_len (entry_at data (length pre))) = length value"
    "unat (value_offset (entry_at data (length pre))) = 12 + length name + 1"
    using assms(1) unat_of_nat_u32 [of "12 + length name + 1"]
    by (simp_all add: e attr_ok_def unat_of_nat sizeof_xattr_entry_def del: of_nat_add of_nat_Suc)
  show "bytes_at (length pre + 12) (length name) data = name"
    "bytes_at (length pre + (12 + length name + 1)) (length value) data = value"
    using l by (simp_all add: d bytes_at_def)
  show "entry_size (entry_at data (length pre)) = length (enc_attr ((idx, name), value))"
    by (simp add: entry_size_def p enc_attr_def length_new_entry sizeof_xattr_entry_def)
qed

lemma entry_next:
  assumes "attr_ok a" "4 dvd length pre"
  shows "next_offset (pre @ enc_attr a @ post) (length pre) = length pre + length (enc_attr a)"
proof -
  obtain i n v where a: "a = ((i, n), v)" by (metis prod.exhaust)
  note p = entry_parts [OF assms(1) [unfolded a] refl, of pre post]
  have "length pre + sizeof_xattr_entry + (length n + 1) + length v = length pre + (12 + length n + 1 + length v)"
    by (simp add: sizeof_xattr_entry_def)
  then show ?thesis
    unfolding next_offset_def a p by (simp only: align4_add [OF assms(2)] enc_attr_def prod.case length_new_entry)
qed

section \<open>Finding and removing an entry\<close>

fun attr_pos :: "attr list \<Rightarrow> nat \<times> bytes \<Rightarrow> nat \<Rightarrow> nat option" where
  "attr_pos [] key off = None"
| "attr_pos (a # as) key off = (if fst a = key then Some off else attr_pos as key (off + length (enc_attr a)))"

lemma find_entry_correct:
  assumes "list_all attr_ok as" "4 dvd length pre"
  shows "lolelffs_xattr_find_entry (pre @ enc_attrs as) idx name (length pre) = Inr (attr_pos as (idx, name) (length pre))"
  using assms
proof (induction as arbitrary: pre)
  case Nil
  then show ?case by (simp add: lolelffs_xattr_find_entry.simps [of pre] sizeof_xattr_entry_def)
next
  case (Cons a as)
  obtain i n v where a: "a = ((i, n), v)" by (metis prod.exhaust)
  have ok: "attr_ok a" "attr_ok ((i, n), v)" using Cons.prems by (simp_all add: a)
  define d where "d = pre @ enc_attr a @ enc_attrs as"
  note p = entry_parts [OF ok(2) refl, of pre "enc_attrs as", folded a, folded d_def]
  have n: "name_len (entry_at d (length pre)) \<noteq> 0" using p(1) ok(2) by (auto simp: attr_ok_def)
  have fit: "length pre + sizeof_xattr_entry \<le> length d" "\<not> length d < length pre + sizeof_xattr_entry + length n"
    using enc_attr_long [of a] align4_ge [of "12 + length n + 1 + length v"]
    by (simp_all add: d_def sizeof_xattr_entry_def a enc_attr_def length_new_entry)
  have IH: "lolelffs_xattr_find_entry d idx name (next_offset d (length pre)) = Inr (attr_pos as (idx, name) (length pre + length (enc_attr a)))"
    using Cons.IH [of "pre @ enc_attr a"] Cons.prems entry_next [OF ok(1) Cons.prems(2)] by (simp add: d_def)
  show ?case
  proof (cases "i = idx \<and> n = name")
    case True
    with p n fit show ?thesis
      unfolding enc_attrs_simps d_def [symmetric]
      by (simp add: lolelffs_xattr_find_entry.simps [of d idx name "length pre"] Let_def a sizeof_xattr_entry_def)
  next
    case False
    then have "fst a \<noteq> (idx, name)" by (auto simp: a)
    moreover have "lolelffs_xattr_find_entry d idx name (length pre) = lolelffs_xattr_find_entry d idx name (next_offset d (length pre))"
      using False p n fit by (auto simp: lolelffs_xattr_find_entry.simps [of d idx name "length pre"] Let_def sizeof_xattr_entry_def)
    ultimately show ?thesis using IH by (simp add: d_def)
  qed
qed

lemma attr_pos_None: "attr_pos as key off = None \<longleftrightarrow> key \<notin> fst ` set as"
  by (induction as arbitrary: off) auto

lemma attr_pos_Some:
  "attr_pos as key off = Some p \<Longrightarrow>
     \<exists>as1 v as2. as = as1 @ (key, v) # as2 \<and> key \<notin> fst ` set as1 \<and> p = off + length (enc_attrs as1)"
proof (induction as arbitrary: off)
  case (Cons a as)
  show ?case
  proof (cases "fst a = key")
    case True
    with Cons.prems show ?thesis by (intro exI [of _ "[]"] exI [of _ "snd a"] exI [of _ as]) auto
  next
    case False
    with Cons.IH [of "off + length (enc_attr a)"] Cons.prems obtain as1 v as2
      where "as = as1 @ (key, v) # as2" "key \<notin> fst ` set as1" "p = off + length (enc_attr a) + length (enc_attrs as1)" by auto
    with False show ?thesis by (intro exI [of _ "a # as1"] exI [of _ v] exI [of _ as2]) auto
  qed
qed simp

definition without :: "nat \<times> bytes \<Rightarrow> attr list \<Rightarrow> attr list" where
  "without key as = filter (\<lambda>a. fst a \<noteq> key) as"

lemma without_absent: "key \<notin> fst ` set as \<Longrightarrow> without key as = as"
  by (auto simp: without_def filter_id_conv)

lemma without_split:
  "distinct (map fst (as1 @ (key, v) # as2)) \<Longrightarrow> without key (as1 @ (key, v) # as2) = as1 @ as2"
  using without_absent [of key as1] without_absent [of key as2] by (auto simp: without_def)

lemma without_ok:
  "list_all attr_ok as \<Longrightarrow> list_all attr_ok (without key as)" "distinct (map fst as) \<Longrightarrow> distinct (map fst (without key as))"
  "key \<notin> fst ` set (without key as)"
  by (auto simp: without_def list_all_iff distinct_map inj_on_def)

lemma length_without: "length (enc_attrs (without key as)) \<le> length (enc_attrs as)"
  by (induction as) (auto simp: without_def)

lemma cut_entry_correct:
  assumes "list_all attr_ok as" "distinct (map fst as)" "attr_pos as key 0 = Some p"
  shows "cut_entry (enc_attrs as) p = Some (enc_attrs (without key as))"
proof -
  from attr_pos_Some [OF assms(3)] obtain as1 v as2
    where as: "as = as1 @ (key, v) # as2" "p = length (enc_attrs as1)" by auto
  obtain i n where key: "key = (i, n)" by fastforce
  have "attr_ok ((i, n), v)" using assms(1) as key by simp
  note s = entry_parts(7) [OF this refl, of "enc_attrs as1" "enc_attrs as2", folded key]
  have "as2 = [] \<or> 0 < length (enc_attrs as2)" by auto
  then show ?thesis
    using s without_split [of as1 key v as2] assms(2) as by (auto simp: cut_entry_def Let_def)
qed

section \<open>Reading and writing the data\<close>

definition block_data :: "fs \<Rightarrow> u32 list \<Rightarrow> bytes" where
  "block_data s bs = concat (map (\<lambda>b. blocks s (sector s b)) bs)"

lemma read_xblocks_eq:
  assumes "wf_dev s" "\<forall>b \<in> set bs. readable s (sector s b)"
  shows "read_xblocks s bs want acc = Inr (acc @ take (want - length acc) (block_data s bs))"
  using assms(2)
proof (induction bs arbitrary: acc)
  case (Cons b bs)
  let ?b = "blocks s (sector s b)"
  have len: "length ?b = LOLELFFS_BLOCK_SIZE" by (rule wf_devD [OF assms(1)])
  then have t: "take (min LOLELFFS_BLOCK_SIZE (want - length acc)) ?b = take (want - length acc) ?b"
    by (metis min.commute take_all_iff take_take order_refl)
  show ?case
  proof (cases "want \<le> length (acc @ take (want - length acc) ?b)")
    case True
    then have "want - length acc \<le> LOLELFFS_BLOCK_SIZE" using len by auto
    with Cons.prems t True len show ?thesis by (simp add: Let_def block_data_def)
  next
    case False
    then have "LOLELFFS_BLOCK_SIZE < want - length acc" using len by auto
    with Cons t False len show ?thesis by (simp add: Let_def block_data_def)
  qed
qed (simp add: block_data_def)

lemma write_xblocks_frame:
  assumes "write_xblocks s bs data = (r, s')"
  shows "sbi s' = sbi s \<and> readable s' = readable s \<and> icache s' = icache s \<and> mem s' = mem s
    \<and> (\<forall>k. k \<notin> sector s ` set bs \<longrightarrow> blocks s' k = blocks s k) \<and> (wf_dev s \<longrightarrow> wf_dev s')"
  using assms
proof (induction bs arbitrary: s data)
  case (Cons b bs)
  let ?c = "take LOLELFFS_BLOCK_SIZE data"
  let ?s = "store s (sector s b) (?c @ replicate (LOLELFFS_BLOCK_SIZE - length ?c) 0)"
  have sec: "sector ?s = sector s" by (rule sector_eq) simp
  have "wf_dev s \<Longrightarrow> wf_dev ?s" by (rule wf_dev_store) simp_all
  with Cons.IH [of ?s "drop LOLELFFS_BLOCK_SIZE data"] Cons.prems show ?case
    by (auto simp: Let_def sec split: if_splits)
qed simp

lemma write_xblocks_data:
  assumes "\<forall>b \<in> set bs. readable s (sector s b)" "distinct (map (sector s) bs)" "length data \<le> LOLELFFS_BLOCK_SIZE * length bs"
    and "write_xblocks s bs data = (r, s')"
  shows "r \<and> take (length data) (block_data s' bs) = data"
  using assms
proof (induction bs arbitrary: s data)
  case (Cons b bs)
  show ?case
  proof (cases "data = []")
    case False
    define c where "c = take LOLELFFS_BLOCK_SIZE data"
    define s1 where "s1 = store s (sector s b) (c @ replicate (LOLELFFS_BLOCK_SIZE - length c) 0)"
    have sec: "sector s1 = sector s" by (rule sector_eq) (simp add: s1_def)
    have w: "write_xblocks s1 bs (drop LOLELFFS_BLOCK_SIZE data) = (r, s')"
      using Cons.prems False by (simp add: Let_def s1_def c_def)
    note f = write_xblocks_frame [OF w]
    have sec': "sector s' = sector s" using f sec sector_eq [of s' s1] by simp
    have IH: "r \<and> take (length data - LOLELFFS_BLOCK_SIZE) (block_data s' bs) = drop LOLELFFS_BLOCK_SIZE data"
      using Cons.IH [OF _ _ _ w] Cons.prems by (simp add: sec) (simp add: s1_def)
    have "sector s b \<notin> sector s1 ` set bs" using Cons.prems(2) by (simp add: sec)
    then have "blocks s' (sector s b) = c @ replicate (LOLELFFS_BLOCK_SIZE - length c) 0" using f by (simp add: s1_def)
    then have "block_data s' (b # bs) = c @ replicate (LOLELFFS_BLOCK_SIZE - length c) 0 @ block_data s' bs"
      by (simp add: block_data_def sec')
    moreover have "data = c @ drop LOLELFFS_BLOCK_SIZE data" by (simp add: c_def)
    ultimately show ?thesis using IH by (cases "LOLELFFS_BLOCK_SIZE \<le> length data") (simp_all add: c_def)
  qed (use Cons.prems in simp)
qed simp

section \<open>The attributes of an inode\<close>

text \<open>
  \<open>dev_ok\<close>: blocks have their size, the allocator's invariant holds and every block of the file
  system can be read. \<open>xattr_base\<close>: the inode has the attribute index block \<open>x\<close>, with \<open>e\<close> as its
  first and only extent (or none), and the index block and the extent are owned and disjoint.
  \<open>xattr_ok\<close>: the attributes of the inode are the list \<open>as\<close>.
\<close>

definition dev_ok :: "fs \<Rightarrow> bool" where
  "dev_ok s \<longleftrightarrow> wf_dev s \<and> sbi_inv (sbi s)
     \<and> (\<forall>k. fs_offset (sbi s) \<le> k \<and> k < fs_offset (sbi s) + unat (nr_blocks (sbi s)) \<longrightarrow> readable s k)"

definition xattr_ranges :: "u32 \<Rightarrow> lolelffs_extent \<Rightarrow> (u32 \<times> u32) list" where
  "xattr_ranges x e = (x, 1) # (if ee_start e = 0 then [] else [(ee_start e, ee_len e)])"

definition xattr_base :: "fs \<Rightarrow> u32 \<Rightarrow> u32 \<Rightarrow> lolelffs_extent \<Rightarrow> bool" where
  "xattr_base s ino x e \<longleftrightarrow> dev_ok s \<and> ci_xattr_block (inode_of s ino) = x \<and> x \<noteq> 0
     \<and> xextents (xei_at s (sector s x)) ! 0 = e \<and> ee_start (xextents (xei_at s (sector s x)) ! 1) = 0
     \<and> owned (sbi s) (xattr_ranges x e)"

definition holds_attrs :: "fs \<Rightarrow> u32 \<Rightarrow> lolelffs_extent \<Rightarrow> attr list \<Rightarrow> bool" where
  "holds_attrs s x e as \<longleftrightarrow> unat (total_size (xei_at s (sector s x))) = length (enc_attrs as)
     \<and> (if ee_start e = 0 then as = []
        else length (enc_attrs as) \<le> LOLELFFS_BLOCK_SIZE * unat (ee_len e)
          \<and> take (length (enc_attrs as)) (block_data s (extent_blocks e)) = enc_attrs as)"

definition attrs_ok :: "attr list \<Rightarrow> bool" where
  "attrs_ok as \<longleftrightarrow> list_all attr_ok as \<and> distinct (map fst as)"

definition xattr_ok :: "fs \<Rightarrow> u32 \<Rightarrow> attr list \<Rightarrow> bool" where
  "xattr_ok s ino as \<longleftrightarrow> attrs_ok as
     \<and> (if ci_xattr_block (inode_of s ino) = 0 then dev_ok s \<and> as = []
        else \<exists>x e. xattr_base s ino x e \<and> holds_attrs s x e as)"

text \<open>Changing the state outside of what these depend on.\<close>

lemma dev_ok_cong: "dev_ok s \<Longrightarrow> blocks t = blocks s \<Longrightarrow> sbi t = sbi s \<Longrightarrow> readable t = readable s \<Longrightarrow> dev_ok t"
  by (simp add: dev_ok_def wf_dev_def)

lemma xattr_ok_cong:
  assumes "xattr_ok s ino as" "blocks t = blocks s" "sbi t = sbi s" "readable t = readable s"
    "ci_xattr_block (inode_of t ino) = ci_xattr_block (inode_of s ino)"
  shows "xattr_ok t ino as"
proof -
  have "sector t = sector s" using assms(3) by (rule sector_eq)
  moreover from this have "block_data t = block_data s" using assms(2) by (simp add: block_data_def fun_eq_iff)
  ultimately have "xattr_base s ino x e \<Longrightarrow> xattr_base t ino x e" "holds_attrs s x e as \<Longrightarrow> holds_attrs t x e as" for x e
    using dev_ok_cong [of s t] assms by (simp_all add: xattr_base_def holds_attrs_def xei_at_def)
  then show ?thesis using assms(1,5) dev_ok_cong [OF _ assms(2-4)] unfolding xattr_ok_def by (simp split: if_splits) blast
qed

lemma block_sector:
  assumes "dev_ok s" "unat b < unat (nr_blocks (sbi s))"
  shows "readable s (sector s b)"
  using assms by (simp add: dev_ok_def sector_def)

lemma xattr_base_facts:
  assumes "xattr_base s ino x e"
  shows "readable s (sector s x)"
    "ee_start e \<noteq> 0 \<Longrightarrow> \<forall>b \<in> set (extent_blocks e). readable s (sector s b) \<and> sector s b \<noteq> sector s x"
    "ee_start e \<noteq> 0 \<Longrightarrow> distinct (map (sector s) (extent_blocks e))"
proof -
  have d: "dev_ok s" and o: "owned (sbi s) (xattr_ranges x e)" using assms by (simp_all add: xattr_base_def)
  show "readable s (sector s x)" using o by (intro block_sector [OF d]) (auto simp: owned_def xattr_ranges_def)
  assume e: "ee_start e \<noteq> 0"
  then have b: "unat (ee_start e) + unat (ee_len e) \<le> unat (nr_blocks (sbi s))"
    and n: "unat x \<notin> {unat (ee_start e) ..< unat (ee_start e) + unat (ee_len e)}"
    using o by (auto simp: owned_def xattr_ranges_def ranges_def)
  have u: "map unat (extent_blocks e) = [unat (ee_start e) ..< unat (ee_start e) + unat (ee_len e)]"
    using b unat_u32_less [of "nr_blocks (sbi s)"] by (intro unat_extent_blocks) linarith
  have r: "unat b \<in> {unat (ee_start e) ..< unat (ee_start e) + unat (ee_len e)}" if "b \<in> set (extent_blocks e)" for b
    using that u by (metis image_eqI set_map set_upt)
  show "\<forall>b \<in> set (extent_blocks e). readable s (sector s b) \<and> sector s b \<noteq> sector s x"
    using r n b block_sector [OF d] by (fastforce simp: sector_def)
  have "distinct (map unat (extent_blocks e))" by (simp add: u)
  then show "distinct (map (sector s) (extent_blocks e))" by (auto simp: distinct_map inj_on_def sector_def)
qed

lemma xei_at_wf: "wf_dev s \<Longrightarrow> wf_xei (xei_at s k)"
  by (simp add: xei_at_def xec.ok_dec wf_devD)

lemma xattr_base_blocks:
  assumes "xattr_base s ino x e"
  shows "xei_blocks (xei_at s (sector s x)) = (if ee_start e = 0 then [] else extent_blocks e)"
proof -
  have w: "length (xextents (xei_at s (sector s x))) = LOLELFFS_MAX_EXTENTS"
    using assms xei_at_wf [of s] by (simp add: xattr_base_def dev_ok_def wf_xei_def)
  then have "2 \<le> length (xextents (xei_at s (sector s x)))" by (simp add: max_extents)
  then obtain e0 e1 es where l: "xextents (xei_at s (sector s x)) = e0 # e1 # es"
    by (metis (no_types) Suc_le_length_iff numeral_2_eq_2)
  with assms show ?thesis by (simp add: xattr_base_def xei_blocks_def)
qed

lemma xattr_read:
  assumes b: "xattr_base s ino x e" and h: "holds_attrs s x e as"
  shows "lolelffs_xattr_read_data s (xei_at s (sector s x)) =
    (if as = [] then (Inr [], s) else case kmalloc s of (ok, s') \<Rightarrow> (if ok then Inr (enc_attrs as) else Inl ENOMEM, s'))"
proof (cases "as = []")
  case True
  with h have "total_size (xei_at s (sector s x)) = 0" by (simp add: holds_attrs_def unat_eq_0)
  with True show ?thesis by (simp add: lolelffs_xattr_read_data_def)
next
  case False
  with h have e: "ee_start e \<noteq> 0" and n: "unat (total_size (xei_at s (sector s x))) = length (enc_attrs as)"
    and d: "take (length (enc_attrs as)) (block_data s (extent_blocks e)) = enc_attrs as"
    by (auto simp: holds_attrs_def split: if_splits)
  obtain ok s' where k: "kmalloc s = (ok, s')" by fastforce
  have f: "blocks s' = blocks s" "readable s' = readable s" "sbi s' = sbi s" using kmalloc_frame [OF k] by simp_all
  then have sec: "sector s' = sector s" by (intro sector_eq) simp
  have wf: "wf_dev s'" using b f(1) by (simp add: xattr_base_def dev_ok_def wf_dev_def)
  have r: "\<forall>b \<in> set (extent_blocks e). readable s' (sector s' b)" using xattr_base_facts(2) [OF b e] f sec by simp
  have "total_size (xei_at s (sector s x)) \<noteq> 0" using n False by (auto simp: unat_eq_0)
  moreover have "block_data s' = block_data s" using f sec by (simp add: block_data_def fun_eq_iff)
  ultimately show ?thesis
    using False k e d n read_xblocks_eq [OF wf r] by (simp add: lolelffs_xattr_read_data_def xattr_base_blocks [OF b])
qed

section \<open>Getting an attribute\<close>

definition got :: "bytes option \<Rightarrow> nat option \<Rightarrow> errno + nat \<times> bytes" where
  "got value buffer =
     (case value of None \<Rightarrow> Inl ENODATA
      | Some v \<Rightarrow> (case buffer of None \<Rightarrow> Inr (length v, []) | Some room \<Rightarrow> if room < length v then Inl ERANGE else Inr (length v, v)))"

lemma found_value:
  assumes "list_all attr_ok as" "attr_pos as key 0 = Some p"
  defines "entry \<equiv> entry_at (enc_attrs as) p"
  shows "\<exists>v. map_of as key = Some v \<and> unat (value_len entry) = length v \<and> p + unat (value_offset entry) + length v \<le> length (enc_attrs as)
     \<and> bytes_at (p + unat (value_offset entry)) (length v) (enc_attrs as) = v"
proof -
  from attr_pos_Some [OF assms(2)] obtain as1 v as2
    where as: "as = as1 @ (key, v) # as2" "key \<notin> fst ` set as1" "p = length (enc_attrs as1)" by auto
  obtain i n where key: "key = (i, n)" by fastforce
  have ok: "attr_ok ((i, n), v)" using assms(1) as key by simp
  note q = entry_parts [OF ok refl, of "enc_attrs as1" "enc_attrs as2", folded key]
  have d: "enc_attrs as = enc_attrs as1 @ enc_attr (key, v) @ enc_attrs as2" by (simp add: as)
  have "map_of as1 key = None" using as(2) by (simp add: map_of_eq_None_iff)
  then have "map_of as key = Some v" by (simp add: as(1) map_add_def)
  moreover have "12 + length n + 1 + length v \<le> length (enc_attr (key, v))"
    using align4_ge [of "12 + length n + 1 + length v"] by (simp add: key enc_attr_def length_new_entry)
  ultimately show ?thesis using q(6) unfolding entry_def d as(3) q(3,4) by simp
qed

lemma xattr_get_found:
  assumes ok: "xattr_ok s ino as" and m: "fst (kmalloc s)"
  shows "fst (lolelffs_xattr_get s ino idx name buffer) = got (map_of as (idx, name)) buffer"
proof -
  have a: "list_all attr_ok as" using ok by (simp add: xattr_ok_def attrs_ok_def)
  show ?thesis
  proof (cases "ci_xattr_block (inode_of s ino) = 0")
    case True
    with ok show ?thesis by (simp add: xattr_ok_def lolelffs_xattr_get_def got_def)
  next
    case False
    with ok obtain x e where b: "xattr_base s ino x e" "holds_attrs s x e as" by (auto simp: xattr_ok_def)
    have x: "ci_xattr_block (inode_of s ino) = x" "x \<noteq> 0" using b(1) by (simp_all add: xattr_base_def)
    note r = xattr_read [OF b] xattr_base_facts(1) [OF b(1)]
    show ?thesis
    proof (cases "as = []")
      case True
      then show ?thesis using r x by (simp add: lolelffs_xattr_get_def got_def)
    next
      case ne: False
      obtain s' where k: "kmalloc s = (True, s')" using m by (cases "kmalloc s") simp
      have f: "lolelffs_xattr_find_entry (enc_attrs as) idx name 0 = Inr (attr_pos as (idx, name) 0)"
        using find_entry_correct [OF a, of "[]" idx name] by simp
      have g: "lolelffs_xattr_read_data s (xei_at s (sector s x)) = (Inr (enc_attrs as), s')" using r(1) ne k by simp
      show ?thesis
      proof (cases "attr_pos as (idx, name) 0")
        case None
        then have "map_of as (idx, name) = None" by (simp add: attr_pos_None map_of_eq_None_iff)
        with None show ?thesis using r(2) x g f ne by (simp add: lolelffs_xattr_get_def got_def)
      next
        case (Some p)
        from found_value [OF a Some] show ?thesis
          using r(2) x g f ne Some by (auto simp: lolelffs_xattr_get_def got_def Let_def split: option.split)
      qed
    qed
  qed
qed

section \<open>Setting an attribute\<close>

lemma put_xei_frame [simp]:
  "sbi (put_xei s k ei) = sbi s" "readable (put_xei s k ei) = readable s" "icache (put_xei s k ei) = icache s" "mem (put_xei s k ei) = mem s"
  "sector (put_xei s k ei) = sector s"
proof -
  show "sbi (put_xei s k ei) = sbi s" "readable (put_xei s k ei) = readable s" "icache (put_xei s k ei) = icache s" "mem (put_xei s k ei) = mem s"
    by (simp_all add: put_xei_def)
  then show "sector (put_xei s k ei) = sector s" by (intro sector_eq)
qed

lemma blocks_put_xei: "blocks (put_xei s k ei) j = (if j = k then enc_xei ei else blocks s j)"
  by (simp add: put_xei_def)

lemma xei_at_put: "wf_xei ei \<Longrightarrow> xei_at (put_xei s k ei) k = ei"
  by (simp add: xei_at_def put_xei_def xec.dec_enc)

lemma wf_dev_put_xei: "wf_dev s \<Longrightarrow> wf_xei ei \<Longrightarrow> wf_dev (put_xei s k ei)"
  by (simp add: put_xei_def xec.length_enc)

text \<open>A change of the index block.\<close>

lemma xattr_base_index:
  assumes b: "xattr_base s ino x e" and ei: "wf_xei ei" "xextents ei ! 0 = e'" "ee_start (xextents ei ! 1) = 0"
    and o: "owned (sbi s) (xattr_ranges x e')"
  shows "xattr_base (put_xei s (sector s x) ei) ino x e'"
proof -
  have "inode_of (put_xei s (sector s x) ei) = inode_of s" by (rule inode_of_cong) simp
  then show ?thesis using b ei o xei_at_put [OF ei(1)] wf_dev_put_xei [OF _ ei(1)]
    by (simp add: xattr_base_def dev_ok_def)
qed

lemma holds_attrs_index:
  assumes b: "xattr_base s ino x e" "ee_start e \<noteq> 0" and ei: "wf_xei ei" "unat (total_size ei) = length (enc_attrs as)"
    and d: "length (enc_attrs as) \<le> LOLELFFS_BLOCK_SIZE * unat (ee_len e)"
      "take (length (enc_attrs as)) (block_data s (extent_blocks e)) = enc_attrs as"
  shows "holds_attrs (put_xei s (sector s x) ei) x e as"
proof -
  have "block_data (put_xei s (sector s x) ei) (extent_blocks e) = block_data s (extent_blocks e)"
    using xattr_base_facts(2) [OF b] unfolding block_data_def
    by (intro arg_cong [where f = concat] map_cong) (auto simp: blocks_put_xei)
  then show ?thesis using b(2) ei d xei_at_put [OF ei(1)] by (simp add: holds_attrs_def)
qed

text \<open>Writing the data blocks.\<close>

lemma xattr_write:
  assumes b: "xattr_base s ino x e" "ee_start e \<noteq> 0" and d: "length data \<le> LOLELFFS_BLOCK_SIZE * unat (ee_len e)"
    and w: "write_xblocks s (extent_blocks e) data = (r, s')"
  shows "r" "xattr_base s' ino x e" "xei_at s' (sector s x) = xei_at s (sector s x)" "sector s' = sector s"
    "take (length data) (block_data s' (extent_blocks e)) = data" "icache s' = icache s"
proof -
  note f = write_xblocks_frame [OF w] and g = xattr_base_facts [OF b(1)]
  show sec: "sector s' = sector s" using f by (intro sector_eq) simp
  show "icache s' = icache s" using f by simp
  have "sector s x \<notin> sector s ` set (extent_blocks e)" using g(2) [OF b(2)] by auto
  then show x: "xei_at s' (sector s x) = xei_at s (sector s x)" using f by (simp add: xei_at_def)
  have "inode_of s' = inode_of s" using f by (intro inode_of_cong) simp
  then show "xattr_base s' ino x e" using b(1) f x sec by (simp add: xattr_base_def dev_ok_def)
  show "r" "take (length data) (block_data s' (extent_blocks e)) = data"
    using write_xblocks_data [OF _ g(3) [OF b(2)] _ w] g(2) [OF b(2)] d by simp_all
qed

lemma owned_replace:
  assumes inv: "sbi_inv b" and o: "owned b (xattr_ranges x e)" and get: "get_free_blocks b n = (a, b')" "a \<noteq> 0" "n \<noteq> 0"
    and b'': "b'' = (if ee_start e \<noteq> 0 then put_blocks b' (ee_start e) (ee_len e) else b')"
  shows "owned b'' [(x, 1), (a, n)]" "sbi_inv b''" "same_geometry b b''"
proof -
  have t: "taken b (range_of a n) {} b'" using get_free_blocks_taken [OF inv get(1,3)] get(2) by simp
  then have inv': "sbi_inv b'" "same_geometry b b'" by (simp_all add: taken_def)
  have o': "owned b' (xattr_ranges x e @ [(a, n)])" by (rule owned_extend [OF o t get(2,3)])
  have "owned b'' [(x, 1), (a, n)] \<and> sbi_inv b'' \<and> same_geometry b b''"
  proof (cases "ee_start e = 0")
    case True
    with o' inv' show ?thesis by (simp add: b'' xattr_ranges_def)
  next
    case False
    then have "owned b' ([(x, 1)] @ [(ee_start e, ee_len e), (a, n)])" using o' by (simp add: xattr_ranges_def)
    from owned_rotate [OF this] have r: "owned b' ((ee_start e, ee_len e) # [(a, n), (x, 1)])" by simp
    have "owned (put_blocks b' (ee_start e) (ee_len e)) ([(a, n)] @ [(x, 1)])" using owned_tl(2) [OF r inv'(1)] by simp
    from owned_rotate [OF this] put_blocks_inv [OF inv'(1) owned_tl(1) [OF r]] inv'(2) False
    show ?thesis by (simp add: b'' same_geometry_def)
  qed
  then show "owned b'' [(x, 1), (a, n)]" "sbi_inv b''" "same_geometry b b''" by simp_all
qed

lemma xattr_room_ok:
  assumes b: "xattr_base s ino x e" and n: "n \<noteq> 0" and r: "xattr_room s (sector s x) n = (r, s')"
  shows "(r = Inl ENOSPC \<and> s' = s \<and> (\<forall>a. \<not> {a ..< a + unat n} \<subseteq> free_blocks (sbi s))) \<or> (r = Inr () \<and> sector s' = sector s \<and> icache s' = icache s
    \<and> (\<exists>e'. xattr_base s' ino x e' \<and> ee_start e' \<noteq> 0 \<and> n \<le> ee_len e'))"
proof -
  let ?ei = "xei_at s (sector s x)"
  have e: "xextents ?ei ! 0 = e" "ee_start (xextents ?ei ! 1) = 0" "sbi_inv (sbi s)" "owned (sbi s) (xattr_ranges x e)" "wf_dev s"
    using b by (simp_all add: xattr_base_def dev_ok_def)
  obtain a b' where get: "get_free_blocks (sbi s) n = (a, b')" by fastforce
  define b'' where "b'' = (if ee_start e \<noteq> 0 then put_blocks b' (ee_start e) (ee_len e) else b')"
  define e' where "e' = e\<lparr>ee_block := 0, ee_start := a, ee_len := n\<rparr>"
  define ei' where "ei' = ?ei\<lparr>xextents := (xextents ?ei)[0 := e']\<rparr>"
  show ?thesis
  proof (cases "ee_start e = 0 \<or> ee_len e < n")
    case False
    with r e b show ?thesis by (auto simp: xattr_room_def Let_def)
  next
    case True
    show ?thesis
    proof (cases "a = 0")
      case 0: True
      then have "b' = sbi s" "\<forall>a. \<not> {a ..< a + unat n} \<subseteq> free_blocks (sbi s)"
        using get_free_blocks_taken [OF e(3) get n] ba.get_fail [of "sbi s" n b'] get e(3) n by (simp_all add: sbi_inv_def)
      with r e True 0 get show ?thesis by (simp add: xattr_room_def Let_def)
    next
      case False
      have s': "r = Inr ()" "s' = put_xei (set_sbi s b'') (sector s x) ei'"
        using r True False get unfolding xattr_room_def Let_def e(1) by (auto simp: b''_def ei'_def e'_def)
      note o = owned_replace [OF e(3,4) get False n b''_def]
      have sec: "sector (set_sbi s b'') = sector s" using o(3) by (intro sector_set_sbi) (simp add: same_geometry_def)
      have w: "wf_xei ei'" using xei_at_wf [OF e(5)] by (simp add: ei'_def wf_xei_def)
      then have x: "xextents ei' ! 0 = e'" "ee_start (xextents ei' ! 1) = 0"
        using e(2) xei_at_wf [OF e(5), of "sector s x"] by (simp_all add: ei'_def wf_xei_def max_extents)
      have "inode_of (put_xei (set_sbi s b'') (sector s x) ei') = inode_of s" by (rule inode_of_cong) simp
      moreover have "dev_ok (put_xei (set_sbi s b'') (sector s x) ei')"
        using b o(2,3) wf_dev_put_xei [OF _ w, of "set_sbi s b''"] by (simp add: xattr_base_def dev_ok_def same_geometry_def wf_dev_def)
      moreover have "xattr_ranges x e' = [(x, 1), (a, n)]" using False by (simp add: xattr_ranges_def e'_def)
      ultimately have "xattr_base s' ino x e'"
        using b o(1) x xei_at_put [OF w] sec by (simp add: xattr_base_def s')
      then show ?thesis using s' sec False by (auto simp: e'_def)
    qed
  qed
qed

lemma xattr_okI: "attrs_ok as \<Longrightarrow> xattr_base s ino x e \<Longrightarrow> holds_attrs s x e as \<Longrightarrow> xattr_ok s ino as"
  unfolding xattr_ok_def xattr_base_def by auto

lemma xattr_ok_dirty: "xattr_ok (mark_inode_dirty s ino) ino as \<longleftrightarrow> xattr_ok s ino as"
proof -
  have i: "ci_xattr_block (inode_of (mark_inode_dirty s ino) ino) = ci_xattr_block (inode_of s ino)" by (simp add: mark_inode_dirty_def)
  have f: "blocks (mark_inode_dirty s ino) = blocks s" "sbi (mark_inode_dirty s ino) = sbi s"
    "readable (mark_inode_dirty s ino) = readable s" by (simp_all add: mark_inode_dirty_def)
  show ?thesis
    using xattr_ok_cong [of s ino as "mark_inode_dirty s ino"] xattr_ok_cong [of "mark_inode_dirty s ino" ino as s] i f by auto
qed

lemma xattr_store_ok:
  assumes b: "xattr_base s ino x e" "holds_attrs s x e as" "attrs_ok as"
    and new: "attrs_ok as'" "as' \<noteq> []" "length (enc_attrs as') \<le> LOLELFFS_BLOCK_SIZE * 8"
    and st: "xattr_store s ino (sector s x) (enc_attrs as') = (r, s')"
  shows "(r = Inl ENOSPC \<and> xattr_ok s' ino as \<and> (\<forall>a. \<not> {a ..< a + 8} \<subseteq> free_blocks (sbi s))) \<or> (r = Inr () \<and> xattr_ok s' ino as')"
proof -
  let ?l = "length (enc_attrs as')"
  let ?n = "of_nat ((?l + LOLELFFS_BLOCK_SIZE - 1) div LOLELFFS_BLOCK_SIZE) :: u32"
  have l: "0 < ?l" "?l \<le> 32768" using new(2,3) by (simp_all add: size_defs)
  then have "(?l + 4095) div 4096 < 4294967296" by linarith
  then have un: "unat ?n = (?l + 4095) div 4096" by (subst unat_of_nat_u32) (simp_all add: size_defs)
  then have "0 < unat ?n" "?l \<le> 4096 * unat ?n" using l by linarith+
  then have n: "?n \<noteq> 0" "?l \<le> LOLELFFS_BLOCK_SIZE * unat ?n" unfolding unat_gt_0 size_defs .
  obtain r1 s1 where r1: "xattr_room s (sector s x) ?n = (r1, s1)" by fastforce
  from xattr_room_ok [OF b(1) n(1) r1] show ?thesis
  proof (elim disjE conjE exE)
    assume "r1 = Inl ENOSPC" "s1 = s" and f: "\<forall>a. \<not> {a ..< a + unat ?n} \<subseteq> free_blocks (sbi s)"
    have "unat ?n \<le> 8" using un l by linarith
    then have "{a ..< a + unat ?n} \<subseteq> {a ..< a + 8}" for a by auto
    then have "\<forall>a. \<not> {a ..< a + 8} \<subseteq> free_blocks (sbi s)" using f by (meson subset_trans)
    with \<open>r1 = Inl ENOSPC\<close> \<open>s1 = s\<close> st r1 xattr_okI [OF b(3,1,2)] show ?thesis by (auto simp: xattr_store_def)
  next
    fix e' assume 1: "r1 = Inr ()" "sector s1 = sector s" "xattr_base s1 ino x e'" "ee_start e' \<noteq> 0" "?n \<le> ee_len e'"
    have e': "xextents (xei_at s1 (sector s x)) ! 0 = e'" using 1(2,3) by (simp add: xattr_base_def)
    obtain ok s2 where w: "write_xblocks s1 (extent_blocks e') (enc_attrs as') = (ok, s2)" by fastforce
    have "unat ?n \<le> unat (ee_len e')" using 1(5) by (simp add: word_le_nat_alt)
    then have fit: "?l \<le> LOLELFFS_BLOCK_SIZE * unat (ee_len e')" using n(2) by (meson mult_le_mono2 order_trans)
    note W = xattr_write [OF 1(3,4) fit w, unfolded 1(2)]
    define ei where "ei = (xei_at s2 (sector s x))\<lparr>total_size := of_nat ?l, xcount := xcount (xei_at s2 (sector s x)) + 1\<rparr>"
    have s': "r = Inr ()" "s' = mark_inode_dirty (put_xei s2 (sector s x) ei) ino"
      using st r1 1(1) W(1) w by (auto simp: xattr_store_def e' Let_def ei_def)
    have wf: "wf_dev s2" using W(2) by (simp add: xattr_base_def dev_ok_def)
    have "unat (of_nat ?l :: u32) = ?l" using l by (intro unat_of_nat_u32) simp
    then have ei: "wf_xei ei" "xextents ei ! 0 = e'" "ee_start (xextents ei ! 1) = 0" "unat (total_size ei) = ?l"
      using xei_at_wf [OF wf, of "sector s x"] W(2,4) by (simp_all add: ei_def wf_xei_def xattr_base_def)
    have o: "owned (sbi s2) (xattr_ranges x e')" using W(2) by (simp add: xattr_base_def)
    have "xattr_ok (put_xei s2 (sector s x) ei) ino as'"
      using xattr_okI [OF new(1) xattr_base_index [OF W(2) ei(1-3) o] holds_attrs_index [OF W(2) 1(4) ei(1,4) fit W(5)]] W(4) by simp
    then show ?thesis by (simp add: s' xattr_ok_dirty)
  qed
qed

definition zero_xei :: lolelffs_xattr_ei_block where
  "zero_xei = \<lparr>total_size = 0, xcount = 0, xextents = replicate LOLELFFS_MAX_EXTENTS zero_extent, xei_tail = replicate 8 0\<rparr>"

lemma dec_zero_xei: "dec_xei zero_block = zero_xei"
proof -
  have "enc_xei zero_xei = zero_block"
    by (simp add: enc_xei_def zero_xei_def enc_array_zero [where enc = enc_extent, OF enc_zero_extent] enc_word_0 zero_block_def const_values
        flip: replicate_add)
  moreover have "wf_xei zero_xei" by (simp add: wf_xei_def zero_xei_def)
  ultimately show ?thesis using xec.dec_enc by metis
qed

lemma xattr_index_ok:
  assumes ok: "xattr_ok s ino as" and r: "xattr_index s ino = (r, s')"
  shows "(r = Inl ENOSPC \<and> s' = s \<and> free_blocks (sbi s) = {})
    \<or> (\<exists>x e. r = Inr (sector s' x) \<and> xattr_base s' ino x e \<and> holds_attrs s' x e as \<and> mem s' = mem s
        \<and> (\<forall>a. {a ..< a + 9} \<subseteq> free_blocks (sbi s) \<longrightarrow> {Suc a ..< Suc a + 8} \<subseteq> free_blocks (sbi s')))"
proof (cases "ci_xattr_block (inode_of s ino) = 0")
  case False
  with ok obtain x e where b: "xattr_base s ino x e" "holds_attrs s x e as" by (auto simp: xattr_ok_def)
  have x: "ci_xattr_block (inode_of s ino) = x" "x \<noteq> 0" using b(1) by (simp_all add: xattr_base_def)
  then have "r = Inr (sector s x)" "s' = s" using r xattr_base_facts(1) [OF b(1)] by (auto simp: xattr_index_def)
  moreover have "{Suc a ..< Suc a + 8} \<subseteq> {a ..< a + 9}" for a by auto
  ultimately show ?thesis using b by (intro disjI2 exI [of _ x] exI [of _ e]) (auto intro: subset_trans)
next
  case True
  then have as: "as = []" and d: "dev_ok s" using ok by (simp_all add: xattr_ok_def)
  have inv: "sbi_inv (sbi s)" using d by (simp add: dev_ok_def)
  obtain x b where get: "get_free_blocks (sbi s) 1 = (x, b)" by fastforce
  show ?thesis
  proof (cases "x = 0")
    case 0: True
    then have "b = sbi s" "free_blocks (sbi s) = {}"
      using get_free_blocks_taken [OF inv get] ba.get_fail [of "sbi s" 1 b] get inv by (auto simp: sbi_inv_def)
    with r True get 0 show ?thesis by (simp add: xattr_index_def Let_def)
  next
    case False
    have t: "taken (sbi s) (range_of x 1) {} b" using get_free_blocks_taken [OF inv get] False by simp
    have o: "owned b [(x, 1)]" using owned_extend [OF _ t, of "[]"] False by (simp add: owned_def ranges_def)
    let ?t = "set_sbi s b"
    have g: "same_geometry (sbi s) b" "sbi_inv b" using t by (simp_all add: taken_def)
    then have sec: "sector ?t = sector s" by (intro sector_set_sbi) (simp add: same_geometry_def)
    have dt: "dev_ok ?t" using d g by (simp add: dev_ok_def same_geometry_def wf_dev_def)
    have rd: "readable ?t (sector ?t x)" using o by (intro block_sector [OF dt]) (simp add: owned_def)
    have s': "r = Inr (sector s x)" "s' = store (upd_inode ?t ino (\<lambda>i. i\<lparr>ci_xattr_block := x\<rparr>)) (sector s x) zero_block"
      using r True get False rd by (auto simp: xattr_index_def Let_def sec)
    have sec': "sector s' = sector s" using g by (intro sector_cong) (simp add: s' same_geometry_def)
    have x': "xei_at s' (sector s x) = zero_xei" by (simp add: xei_at_def s' dec_zero_xei)
    have i: "inode_of s' ino = (inode_of ?t ino)\<lparr>ci_xattr_block := x\<rparr>"
      using inode_of_cong [of s' "upd_inode ?t ino (\<lambda>i. i\<lparr>ci_xattr_block := x\<rparr>)"] by (simp add: s')
    have "dev_ok s'" using dt by (simp add: s' dev_ok_def wf_dev_def)
    then have "xattr_base s' ino x zero_extent"
      using i False o x' sec' by (simp add: xattr_base_def xattr_ranges_def zero_xei_def max_extents zero_extent_def) (simp add: s')
    moreover have "holds_attrs s' x zero_extent as" using x' sec' as by (simp add: holds_attrs_def zero_xei_def zero_extent_def)
    moreover have "{Suc a ..< Suc a + 8} \<subseteq> free_blocks (sbi s')" if a: "{a ..< a + 9} \<subseteq> free_blocks (sbi s)" for a
    proof -
      have "a \<in> free_blocks (sbi s)" using a by auto
      then have "\<not> a < unat x" using get_free_blocks_lowest [OF _ get False, of a] by auto
      moreover have "free_blocks (sbi s') = free_blocks (sbi s) - {unat x}" using t by (auto simp: s' taken_def range_of_def)
      ultimately show ?thesis using a by auto
    qed
    ultimately show ?thesis using s'(1) sec' by (intro disjI2 exI [of _ x] exI [of _ zero_extent]) (simp add: s'(2))
  qed
qed

lemma xattr_base_cong:
  assumes "blocks t = blocks s" "sbi t = sbi s" "readable t = readable s" "icache t = icache s"
  shows "xattr_base t ino x e \<longleftrightarrow> xattr_base s ino x e" "holds_attrs t x e as \<longleftrightarrow> holds_attrs s x e as" "sector t = sector s"
    "xei_at t = xei_at s"
proof -
  show sec: "sector t = sector s" using assms(2) by (rule sector_eq)
  show x: "xei_at t = xei_at s" by (simp add: xei_at_def fun_eq_iff assms(1))
  have "block_data t = block_data s" using assms(1) sec by (simp add: block_data_def fun_eq_iff)
  with sec x show "holds_attrs t x e as \<longleftrightarrow> holds_attrs s x e as" by (simp add: holds_attrs_def)
  have "dev_ok t \<longleftrightarrow> dev_ok s" using assms(1-3) by (simp add: dev_ok_def wf_dev_def)
  moreover have "inode_of t = inode_of s" by (rule inode_of_cong [OF assms(4)])
  ultimately show "xattr_base t ino x e \<longleftrightarrow> xattr_base s ino x e" using sec x assms(2) by (simp add: xattr_base_def)
qed

lemma xattr_count:
  assumes b: "xattr_base s ino x e" "holds_attrs s x e as" "as \<noteq> []"
    and t_def: "t = put_xei s (sector s x) ((xei_at s (sector s x))\<lparr>xcount := c\<rparr>)"
  shows "xattr_base t ino x e" "holds_attrs t x e as" "sector t = sector s"
proof -
  let ?ei = "(xei_at s (sector s x))\<lparr>xcount := c\<rparr>"
  have wf: "wf_dev s" using b(1) by (simp add: xattr_base_def dev_ok_def)
  have ei: "wf_xei ?ei" "xextents ?ei ! 0 = e" "ee_start (xextents ?ei ! 1) = 0"
    using xei_at_wf [OF wf, of "sector s x"] b(1) by (simp_all add: wf_xei_def xattr_base_def)
  have h: "ee_start e \<noteq> 0" "unat (total_size ?ei) = length (enc_attrs as)" "length (enc_attrs as) \<le> LOLELFFS_BLOCK_SIZE * unat (ee_len e)"
      "take (length (enc_attrs as)) (block_data s (extent_blocks e)) = enc_attrs as"
    using b(2,3) by (auto simp: holds_attrs_def split: if_splits)
  have "owned (sbi s) (xattr_ranges x e)" using b(1) by (simp add: xattr_base_def)
  then show "xattr_base t ino x e" unfolding t_def by (rule xattr_base_index [OF b(1) ei])
  show "holds_attrs t x e as" unfolding t_def by (rule holds_attrs_index [OF b(1) h(1) ei(1) h(2-4)])
  show "sector t = sector s" by (simp add: t_def)
qed

text \<open>Looking for the entry in what was read, and the data without it.\<close>

lemma found_rest:
  assumes "attrs_ok as"
  shows "lolelffs_xattr_find_entry (enc_attrs as) idx name 0 = Inr (attr_pos as (idx, name) 0)"
    "(case attr_pos as key 0 of None \<Rightarrow> Some (enc_attrs as) | Some p \<Rightarrow> cut_entry (enc_attrs as) p) = Some (enc_attrs (without key as))"
proof -
  have a: "list_all attr_ok as" "distinct (map fst as)" using assms by (simp_all add: attrs_ok_def)
  show "lolelffs_xattr_find_entry (enc_attrs as) idx name 0 = Inr (attr_pos as (idx, name) 0)"
    using find_entry_correct [OF a(1), of "[]" idx name] by simp
  show "(case attr_pos as key 0 of None \<Rightarrow> Some (enc_attrs as) | Some p \<Rightarrow> cut_entry (enc_attrs as) p) = Some (enc_attrs (without key as))"
  proof (cases "attr_pos as key 0")
    case None
    then have "without key as = as" by (intro without_absent) (simp add: attr_pos_None)
    with None show ?thesis by simp
  qed (simp add: cut_entry_correct [OF a])
qed

definition allowed :: "u32 \<Rightarrow> nat \<times> bytes \<Rightarrow> attr list \<Rightarrow> bool" where
  "allowed flags key as \<longleftrightarrow> (if key \<in> fst ` set as then flags AND XATTR_CREATE = 0 else flags AND XATTR_REPLACE = 0)"

lemma attrs_ok_set: "attrs_ok as \<Longrightarrow> attr_ok (key, v) \<Longrightarrow> attrs_ok (without key as @ [(key, v)])"
  using without_ok [where as = as and key = key] by (auto simp: attrs_ok_def)

text \<open>The rest of \<open>xattr_put\<close> once the attributes have been read.\<close>

lemma xattr_put_read:
  assumes b: "xattr_base s ino x e" "holds_attrs s x e as" "attrs_ok as" and key: "key = (idx, name)" "attr_ok (key, v)"
    and i: "xattr_index s0 ino = (Inr (sector s x), s1)" "lolelffs_xattr_read_data s1 (xei_at s1 (sector s x)) = (Inr (enc_attrs as), s)"
    and r: "xattr_put s0 ino idx name v flags = (r, s')"
  shows "(\<exists>err. r = Inl err \<and> err \<noteq> OOPS \<and> xattr_ok s' ino as \<and> (\<not> allowed flags key as \<or> LOLELFFS_BLOCK_SIZE * 8 < length (enc_attrs (without key as @ [(key, v)])) \<or> mem s \<noteq> []
        \<or> (\<forall>a. \<not> {a ..< a + 8} \<subseteq> free_blocks (sbi s))))
    \<or> (r = Inr () \<and> allowed flags key as \<and> xattr_ok s' ino (without key as @ [(key, v)]))"
proof -
  let ?p = "attr_pos as key 0" and ?k = "sector s x" and ?new = "without key as @ [(key, v)]"
  note f = found_rest(1) [OF b(3), of idx name] found_rest(2) [OF b(3), of key]
  have al: "allowed flags key as \<longleftrightarrow> \<not> (?p \<noteq> None \<and> flags AND XATTR_CREATE \<noteq> 0) \<and> \<not> (?p = None \<and> flags AND XATTR_REPLACE \<noteq> 0)"
    by (auto simp: allowed_def attr_pos_None)
  define t where "t = (if ?p = None then s else put_xei s ?k ((xei_at s ?k)\<lparr>xcount := xcount (xei_at s ?k) - 1\<rparr>))"
  have t: "xattr_base t ino x e" "holds_attrs t x e as" "sector t = sector s"
  proof (atomize (full), cases "?p = None")
    case False
    then have "as \<noteq> []" by auto
    moreover have "t = put_xei s ?k ((xei_at s ?k)\<lparr>xcount := xcount (xei_at s ?k) - 1\<rparr>)"
      using False unfolding t_def by (rule if_not_P)
    ultimately show "xattr_base t ino x e \<and> holds_attrs t x e as \<and> sector t = sector s"
      using xattr_count [OF b(1,2)] by blast
  qed (use b(1,2) in \<open>simp add: t_def\<close>)
  obtain ok u where m: "kmalloc t = (ok, u)" by fastforce
  have fb: "sbi t = sbi s" "mem t = mem s" by (simp_all add: t_def)
  have uf: "blocks u = blocks t" "sbi u = sbi t" "readable u = readable t" "icache u = icache t" using kmalloc_frame [OF m] by simp_all
  note u = xattr_base_cong [OF uf]
  have bu: "xattr_base u ino x e" "holds_attrs u x e as" "sector u = sector s" using t u by simp_all
  have ne: "length (new_entry idx name v) = length (enc_attr (key, v))" "new_entry idx name v = enc_attr (key, v)"
    by (simp_all add: key(1) enc_attr_def)
  have eq: "xattr_put s0 ino idx name v flags =
      (if ?p \<noteq> None \<and> flags AND XATTR_CREATE \<noteq> 0 then (Inl EEXIST, s)
       else if ?p = None \<and> flags AND XATTR_REPLACE \<noteq> 0 then (Inl ENODATA, s)
       else if LOLELFFS_BLOCK_SIZE * 8 < length (enc_attrs ?new) then (Inl ENOSPC, t)
       else if \<not> ok then (Inl ENOMEM, u) else xattr_store u ino ?k (enc_attrs ?new))"
    unfolding xattr_put_def i(1) sum.case prod.case i(2) f(1) key(1) [symmetric] Let_def t_def [symmetric] f(2) option.case m
    by (simp only: enc_attrs_simps append_Nil2 length_append ne)
  note okS = xattr_okI [OF b(3,1,2)] xattr_okI [OF b(3) t(1,2)] xattr_okI [OF b(3) bu(1,2)]
  show ?thesis
  proof (cases "allowed flags key as")
    case False
    then have "r = Inl EEXIST \<or> r = Inl ENODATA" "s' = s" using r unfolding eq al by (auto split: if_splits)
    with okS False show ?thesis by auto
  next
    case True
    then have "(r = Inl ENOSPC \<and> s' = t \<and> LOLELFFS_BLOCK_SIZE * 8 < length (enc_attrs ?new)) \<or> (r = Inl ENOMEM \<and> s' = u \<and> \<not> ok)
        \<or> (length (enc_attrs ?new) \<le> LOLELFFS_BLOCK_SIZE * 8 \<and> xattr_store u ino ?k (enc_attrs ?new) = (r, s'))"
      using r unfolding eq al by (auto split: if_splits)
    moreover have "\<not> ok \<Longrightarrow> mem s \<noteq> []" "sbi u = sbi s" using m fb uf(2) by auto
    ultimately show ?thesis using okS True xattr_store_ok [OF bu(1,2) b(3) attrs_ok_set [OF b(3) key(2)], of r s'] bu(3) by auto
  qed
qed

lemma xattr_put_ok:
  assumes ok: "xattr_ok s ino as" and key: "key = (idx, name)" "attr_ok (key, v)" and r: "xattr_put s ino idx name v flags = (r, s')"
  shows "(\<exists>err. r = Inl err \<and> err \<noteq> OOPS \<and> xattr_ok s' ino as \<and> (\<not> allowed flags key as \<or> LOLELFFS_BLOCK_SIZE * 8 < length (enc_attrs (without key as @ [(key, v)])) \<or> mem s \<noteq> []
        \<or> (\<forall>a. \<not> {a ..< a + 9} \<subseteq> free_blocks (sbi s))))
    \<or> (r = Inr () \<and> allowed flags key as \<and> xattr_ok s' ino (without key as @ [(key, v)]))"
proof -
  have a: "attrs_ok as" using ok by (simp add: xattr_ok_def)
  obtain ri s1 where i: "xattr_index s ino = (ri, s1)" by fastforce
  from xattr_index_ok [OF ok i] show ?thesis
  proof (elim disjE conjE exE)
    assume "ri = Inl ENOSPC" "s1 = s" "free_blocks (sbi s) = {}"
    with r i ok show ?thesis by (auto simp: xattr_put_def)
  next
    fix x e assume 1: "ri = Inr (sector s1 x)" "xattr_base s1 ino x e" "holds_attrs s1 x e as" "mem s1 = mem s"
      and run: "\<forall>a. {a ..< a + 9} \<subseteq> free_blocks (sbi s) \<longrightarrow> {Suc a ..< Suc a + 8} \<subseteq> free_blocks (sbi s1)"
    obtain ok' u where m: "kmalloc s1 = (ok', u)" by fastforce
    have uf: "blocks u = blocks s1" "sbi u = sbi s1" "readable u = readable s1" "icache u = icache s1" using kmalloc_frame [OF m] by simp_all
    note c = xattr_base_cong [OF uf]
    note rd = xattr_read [OF 1(2,3)]
    have full: "mem s \<noteq> [] \<or> (ok' \<and> u = s1)" using m 1(4) by auto
    show ?thesis
    proof (cases "as = [] \<or> ok'")
      case False
      then have "lolelffs_xattr_read_data s1 (xei_at s1 (sector s1 x)) = (Inl ENOMEM, u)" using rd m by simp
      then have "r = Inl ENOMEM" "s' = u" using r i 1(1) by (simp_all add: xattr_put_def)
      moreover have "xattr_ok u ino as" using xattr_okI [OF a] 1(2,3) c by simp
      ultimately show ?thesis using False full by auto
    next
      case True
      define t where "t = (if as = [] then s1 else u)"
      have "lolelffs_xattr_read_data s1 (xei_at s1 (sector s1 x)) = (Inr (enc_attrs as), t)" using rd m True by (auto simp: t_def)
      moreover have "xattr_base t ino x e" "holds_attrs t x e as" "sector t = sector s1" using 1(2,3) c by (auto simp: t_def)
      ultimately have "(\<exists>err. r = Inl err \<and> err \<noteq> OOPS \<and> xattr_ok s' ino as \<and> (\<not> allowed flags key as \<or> LOLELFFS_BLOCK_SIZE * 8 < length (enc_attrs (without key as @ [(key, v)])) \<or> mem t \<noteq> []
        \<or> (\<forall>a. \<not> {a ..< a + 8} \<subseteq> free_blocks (sbi t))))
    \<or> (r = Inr () \<and> allowed flags key as \<and> xattr_ok s' ino (without key as @ [(key, v)]))"
        using xattr_put_read [OF _ _ a key _ _ r, of t x e s1] i 1(1) by simp
      moreover have "mem t \<noteq> [] \<Longrightarrow> mem s \<noteq> []" "sbi t = sbi s1" using full 1(4) uf(2) by (auto simp: t_def)
      ultimately show ?thesis using run by metis
    qed
  qed
qed

section \<open>Deleting an attribute\<close>

lemma xattr_delete_read:
  assumes b: "xattr_base s ino x e" "holds_attrs s x e as" "attrs_ok as" and key: "key = (idx, name)" "attr_pos as key 0 = Some p"
    and c: "cut_entry (enc_attrs as) p = Some new" and ei: "ei = xei_at s (sector s x)"
    and w: "write_xblocks (put_xei s (sector s x) (ei\<lparr>total_size := of_nat (length new), xcount := xcount ei - 1\<rparr>)) (xei_blocks ei) new = (ok, s')"
  shows "ok \<and> xattr_ok s' ino (without key as)"
proof -
  have new: "new = enc_attrs (without key as)" using found_rest(2) [OF b(3), of key] key(2) c by simp
  have "as \<noteq> []" using key(2) by auto
  with b(2) have e: "ee_start e \<noteq> 0" and l: "length (enc_attrs as) \<le> LOLELFFS_BLOCK_SIZE * unat (ee_len e)"
      "unat (total_size (xei_at s (sector s x))) = length (enc_attrs as)"
    by (auto simp: holds_attrs_def split: if_splits)
  have fit: "length new \<le> LOLELFFS_BLOCK_SIZE * unat (ee_len e)" "length new < 4294967296"
    using l length_without [of key as] unat_u32_less [of "total_size (xei_at s (sector s x))"] unfolding new by linarith+
  have wf: "wf_dev s" using b(1) by (simp add: xattr_base_def dev_ok_def)
  let ?ei = "ei\<lparr>total_size := of_nat (length new), xcount := xcount ei - 1\<rparr>" let ?t = "put_xei s (sector s x) ?ei"
  have x: "wf_xei ?ei" "xextents ?ei ! 0 = e" "ee_start (xextents ?ei ! 1) = 0" "unat (total_size ?ei) = length new"
    using xei_at_wf [OF wf, of "sector s x"] b(1) fit(2) by (simp_all add: ei wf_xei_def xattr_base_def unat_of_nat_u32)
  have o: "owned (sbi s) (xattr_ranges x e)" using b(1) by (simp add: xattr_base_def)
  note bt = xattr_base_index [OF b(1) x(1-3) o]
  have "xei_blocks ei = extent_blocks e" using xattr_base_blocks [OF b(1)] e by (simp add: ei)
  note W = xattr_write [OF bt e fit(1) w [unfolded this]]
  have "holds_attrs s' x e (without key as)"
    using W(3-5) x(4) xei_at_put [OF x(1)] e fit(1) by (simp add: holds_attrs_def new)
  moreover have "attrs_ok (without key as)" using b(3) without_ok [where as = as and key = key] by (simp add: attrs_ok_def)
  ultimately show ?thesis using W(1,2) xattr_okI by blast
qed

lemma xattr_delete_ok:
  assumes ok: "xattr_ok s ino as" and key: "key = (idx, name)" and r: "xattr_delete s ino idx name = (r, s')"
  shows "(\<exists>err. r = Inl err \<and> err \<noteq> OOPS \<and> xattr_ok s' ino as) \<or> (r = Inr () \<and> key \<in> fst ` set as \<and> xattr_ok s' ino (without key as))"
proof (cases "ci_xattr_block (inode_of s ino) = 0")
  case True
  with r ok show ?thesis by (auto simp: xattr_delete_def)
next
  case False
  have a: "attrs_ok as" using ok by (simp add: xattr_ok_def)
  from False ok obtain x e where b: "xattr_base s ino x e" "holds_attrs s x e as" by (auto simp: xattr_ok_def)
  have x: "ci_xattr_block (inode_of s ino) = x" "x \<noteq> 0" "readable s (sector s x)"
    using b(1) xattr_base_facts(1) [OF b(1)] by (simp_all add: xattr_base_def)
  obtain ok' u where m: "kmalloc s = (ok', u)" by fastforce
  have uf: "blocks u = blocks s" "sbi u = sbi s" "readable u = readable s" "icache u = icache s" using kmalloc_frame [OF m] by simp_all
  note c = xattr_base_cong [OF uf]
  note rd = xattr_read [OF b]
  show ?thesis
  proof (cases "as = [] \<or> ok'")
    case F: False
    then have "r = Inl ENOMEM" "s' = u" using r x rd m by (simp_all add: xattr_delete_def)
    moreover have "xattr_ok u ino as" using xattr_okI [OF a] b c by simp
    ultimately show ?thesis by simp
  next
    case True
    define t where "t = (if as = [] then s else u)"
    have R: "lolelffs_xattr_read_data s (xei_at s (sector s x)) = (Inr (enc_attrs as), t)" using rd m True by (auto simp: t_def)
    have bt: "xattr_base t ino x e" "holds_attrs t x e as" "sector t = sector s" using b c by (auto simp: t_def)
    note f = found_rest(1) [OF a, of idx name, folded key]
    show ?thesis
    proof (cases "attr_pos as key 0")
      case None
      then have "r = Inl ENODATA" "s' = t" using r x R f by (simp_all add: xattr_delete_def)
      then show ?thesis using xattr_okI [OF a bt(1,2)] by simp
    next
      case (Some p)
      then obtain new where cut: "cut_entry (enc_attrs as) p = Some new" using found_rest(2) [OF a, of key] by auto
      define ei where "ei = xei_at t (sector t x)"
      obtain ok2 s2 where w: "write_xblocks (put_xei t (sector t x) (ei\<lparr>total_size := of_nat (length new), xcount := xcount ei - 1\<rparr>))
          (xei_blocks ei) new = (ok2, s2)" by fastforce
      have "ok2" "xattr_ok s2 ino (without key as)" using xattr_delete_read [OF bt(1,2) a key Some cut ei_def w] by simp_all
      moreover from this have "r = Inr ()" "s' = mark_inode_dirty s2 ino"
        using r x R f Some cut w unfolding xattr_delete_def Let_def ei_def bt(3) by simp_all
      moreover have "key \<in> fst ` set as" using attr_pos_None [of as key 0] Some by auto
      ultimately show ?thesis by (simp add: xattr_ok_dirty)
    qed
  qed
qed

section \<open>Properties\<close>

text \<open>
  C23. Reading an attribute is a lookup in the inode's list of attributes: the value's length and, if
  there is a buffer that is large enough, the value; \<open>ERANGE\<close> if the buffer is too small,
  \<open>ENODATA\<close> if there is no attribute of that name space and name.
\<close>

theorem xattr_get_correct:
  assumes "xattr_ok s ino as" "fst (kmalloc s)"
  shows "fst (lolelffs_xattr_get s ino idx name buffer) = got (map_of as (idx, name)) buffer"
  by (rule xattr_get_found [OF assms])

text \<open>
  C13. Setting and deleting an attribute refine updating and deleting in a list with distinct keys,
  whatever blocks have to be allocated, replaced and written. On success the flags allowed the
  change, the list is the old one without the key, with the new value at the end when one was
  set. On failure the list is the old one. Setting a valid attribute fails only when the flags
  forbid it, the attributes would exceed eight blocks, memory runs out or there are not nine
  consecutive free blocks. No step reads past the attribute data.
\<close>

theorem xattr_set_refines:
  assumes ok: "xattr_ok s ino as" and key: "key = (idx, name)" "idx < 256" and r: "lolelffs_xattr_set s ino idx name value flags = (r, s')"
  shows "(case r of
      Inl err \<Rightarrow> err \<noteq> OOPS \<and> xattr_ok s' ino as
    | Inr _ \<Rightarrow> (case value of
          None \<Rightarrow> key \<in> fst ` set as \<and> xattr_ok s' ino (without key as)
        | Some v \<Rightarrow> allowed flags key as \<and> xattr_ok s' ino (without key as @ [(key, v)])))
    \<and> (\<forall>v a. value = Some v \<and> attr_ok (key, v) \<and> allowed flags key as \<and> mem s = []
        \<and> length (enc_attrs (without key as @ [(key, v)])) \<le> LOLELFFS_BLOCK_SIZE * 8 \<and> {a ..< a + 9} \<subseteq> free_blocks (sbi s) \<longrightarrow> r = Inr ())"
proof (cases "length name = 0 \<or> 255 < length name \<or> (\<exists>v. value = Some v \<and> 65535 < length v)")
  case True
  then have "(r = Inl EINVAL \<or> r = Inl ENOSPC) \<and> s' = s \<and> (\<forall>v. value = Some v \<longrightarrow> \<not> attr_ok (key, v))
      \<or> value = None" using r by (auto simp: lolelffs_xattr_set_def key(1) attr_ok_def split: if_splits)
  with True ok r show ?thesis by (auto simp: lolelffs_xattr_set_def split: if_splits)
next
  case False
  show ?thesis
  proof (cases "value")
    case None
    then have "xattr_delete s ino idx name = (r, s')" using r False by (auto simp: lolelffs_xattr_set_def split: if_splits)
    from xattr_delete_ok [OF ok key(1) this] show ?thesis unfolding None by (elim disjE exE conjE) simp_all
  next
    case (Some v)
    then have "xattr_put s ino idx name v flags = (r, s')" "attr_ok (key, v)"
      using r False key by (auto simp: lolelffs_xattr_set_def attr_ok_def split: if_splits)
    from xattr_put_ok [OF ok key(1) this(2,1)] Some show ?thesis by (auto simp: not_less)
  qed
qed

lemma xattr_demo: "xattr_ok dir_fs 0 []"
proof -
  have "dev_ok dir_fs" using dir_wf_dev dir_sbi_inv by (simp add: dev_ok_def dir_fs_def tiny_fs_def)
  then show ?thesis by (simp add: xattr_ok_def attrs_ok_def dir_fs_def inode_of_def root_inode_def tiny_inode_def)
qed

lemma xattr_demo_attr: "attr_ok ((0, [97]), [1, 2, 3])" "length (enc_attrs [((0, [97]), [1, 2, 3])]) \<le> LOLELFFS_BLOCK_SIZE * 8"
  "\<exists>a. {a ..< a + 9} \<subseteq> free_blocks (sbi dir_fs)" "mem dir_fs = []"
proof -
  have "{5 ..< 5 + 9} \<subseteq> free_blocks (sbi dir_fs)" using dir_free by (simp add: dir_fs_def)
  then show "\<exists>a. {a ..< a + 9} \<subseteq> free_blocks (sbi dir_fs)" by blast
qed (simp_all add: attr_ok_def enc_attr_def length_new_entry align4_def size_defs dir_fs_def tiny_fs_def)

theorem xattr_set_refines_witness:
  "\<exists>s'. lolelffs_xattr_set dir_fs 0 0 [97] (Some [1, 2, 3]) XATTR_CREATE = (Inr (), s') \<and> xattr_ok s' 0 [((0, [97]), [1, 2, 3])]"
proof -
  obtain r s' where r: "lolelffs_xattr_set dir_fs 0 0 [97] (Some [1, 2, 3]) XATTR_CREATE = (r, s')" by fastforce
  have "XATTR_CREATE AND XATTR_REPLACE = 0" by code_simp
  then have "allowed XATTR_CREATE (0, [97]) []" by (simp add: allowed_def)
  with xattr_set_refines [OF xattr_demo refl _ r] xattr_demo_attr show ?thesis using r by (auto simp: without_def)
qed

lemma xattr_demo_set:
  obtains s' where "xattr_ok s' 0 [((0, [97]), [1, 2, 3])]" "mem s' = []"
proof -
  obtain r s1 where r: "xattr_put dir_fs 0 0 [97] [1, 2, 3] 0 = (r, s1)" by fastforce
  have "allowed 0 (0, [97]) []" by (simp add: allowed_def)
  then have "xattr_ok s1 0 [((0, [97]), [1, 2, 3])]"
    using xattr_put_ok [OF xattr_demo refl xattr_demo_attr(1) r] xattr_demo_attr by (auto simp: without_def)
  moreover have "inode_of (s1\<lparr>mem := []\<rparr>) 0 = inode_of s1 0" by (simp add: inode_of_def)
  ultimately have "xattr_ok (s1\<lparr>mem := []\<rparr>) 0 [((0, [97]), [1, 2, 3])]" using xattr_ok_cong [of s1 0 _ "s1\<lparr>mem := []\<rparr>"] by simp
  with that show thesis by simp
qed

theorem xattr_get_correct_witness:
  "\<exists>s. xattr_ok s 0 [((0, [97]), [1, 2, 3])] \<and> fst (lolelffs_xattr_get s 0 0 [97] (Some 10)) = Inr (3, [1, 2, 3])
     \<and> fst (lolelffs_xattr_get s 0 0 [97] (Some 2)) = Inl ERANGE \<and> fst (lolelffs_xattr_get s 0 1 [97] None) = Inl ENODATA"
proof -
  obtain s where s: "xattr_ok s 0 [((0, [97]), [1, 2, 3])]" "mem s = []" by (rule xattr_demo_set)
  then have "fst (kmalloc s)" by simp
  from xattr_get_correct [OF s(1) this] s(1) show ?thesis by (intro exI [of _ s]) (simp add: got_def)
qed

end
