(* ===== verification/File_Data.thy ===== *)
theory File_Data
  imports File_Map
begin

text \<open>
  The contents of a file: what \<open>lolelffs_writepage_locked\<close> leaves on the disk and what
  \<open>lolelffs_read_folio\<close> makes of it.
\<close>

section \<open>The two directions of each step\<close>

lemma page_compress_undo:
  assumes z: "zlib_stream cl" and len: "length page = LOLELFFS_BLOCK_SIZE"
    and algo: "unat comp_algo \<noteq> LOLELFFS_COMP_LZ4"
    and pc: "page_compress cl ct comp_algo page s = (Inr (w, used, flag), s')"
  shows "length w = LOLELFFS_BLOCK_SIZE" "page_decompress cl ct used w = Inr page" "flag AND LOLELFFS_EXT_HAS_META = 0"
    "s' = s \<or> s' = snd (kmalloc s)"
proof -
  have "s' = s \<or> s' = snd (kmalloc s)"
    using pc by (auto simp: page_compress_def Let_def split: if_splits prod.splits sum.splits)
  then show "s' = s \<or> s' = snd (kmalloc s)" .
  consider (plain) "w = page" "used = of_nat LOLELFFS_COMP_NONE" "flag = 0"
    | (comp) c where "lolelffs_compress_block cl ct comp_algo page = Inr c" "used = comp_algo"
        "w = c @ replicate (LOLELFFS_BLOCK_SIZE - length c) 0" "flag = LOLELFFS_EXT_COMPRESSED"
        "unat comp_algo \<noteq> LOLELFFS_COMP_NONE" "lolelffs_comp_supported ct comp_algo"
    using pc by (auto simp: page_compress_def Let_def split: if_splits prod.splits sum.splits)
  then have "length w = LOLELFFS_BLOCK_SIZE \<and> page_decompress cl ct used w = Inr page \<and> flag AND LOLELFFS_EXT_HAS_META = 0"
  proof cases
    case plain
    then show ?thesis using len by (simp add: page_decompress_def LOLELFFS_COMP_NONE_def)
  next
    case comp
    have "unat comp_algo = LOLELFFS_COMP_ZLIB" using comp(1) algo by (elim compress_block_cases) simp_all
    then have "lolelffs_decompress_block cl ct comp_algo w (length page) = Inr page"
      unfolding comp(3) by (rule decompress_zlib_padded [OF z comp(1)])
    then show ?thesis
      using comp len compress_block_shorter [OF comp(1)]
      by (simp add: page_decompress_def LOLELFFS_EXT_COMPRESSED_def LOLELFFS_EXT_HAS_META_def)
  qed
  then show "length w = LOLELFFS_BLOCK_SIZE" "page_decompress cl ct used w = Inr page" "flag AND LOLELFFS_EXT_HAS_META = 0"
    by simp_all
qed

lemma kmalloc_ready: "mem s = [] \<Longrightarrow> kmalloc s = (True, s)"
  by (simp add: kmalloc_def)

lemma page_encrypt_undo:
  assumes c: "cipher_inverse el" and len: "length w = LOLELFFS_BLOCK_SIZE"
    and pe: "page_encrypt el et enc_algo iblock w s = (Inr (w', used, flag), s')"
  shows "length w' = LOLELFFS_BLOCK_SIZE" "flag AND LOLELFFS_EXT_HAS_META = 0"
    "blocks s' = blocks s \<and> readable s' = readable s \<and> sbi s' = sbi s \<and> icache s' = icache s"
    "mem u = [] \<Longrightarrow> sbi u = sbi s \<Longrightarrow> page_decrypt el et used iblock w' u = (Inr w, u)"
proof -
  consider (plain) "w' = w" "used = of_nat LOLELFFS_ENC_NONE" "flag = 0" "s' = s"
    | (enc) ok s1 y where "kmalloc s = (ok, s1)" "enc_unlocked (sbi s1)" "used = enc_algo" "flag = LOLELFFS_EXT_ENCRYPTED"
        "w' = take LOLELFFS_BLOCK_SIZE y" "unat enc_algo \<noteq> LOLELFFS_ENC_NONE" "lolelffs_enc_supported et enc_algo"
        "lolelffs_encrypt_block el et enc_algo (enc_master_key_decrypted (sbi s1)) iblock w LOLELFFS_BLOCK_SIZE s1 = (Inr y, s')"
    using pe by (auto simp: page_encrypt_def Let_def split: if_splits prod.splits sum.splits)
  then have "length w' = LOLELFFS_BLOCK_SIZE \<and> flag AND LOLELFFS_EXT_HAS_META = 0
    \<and> (blocks s' = blocks s \<and> readable s' = readable s \<and> sbi s' = sbi s \<and> icache s' = icache s)
    \<and> (mem u = [] \<longrightarrow> sbi u = sbi s \<longrightarrow> page_decrypt el et used iblock w' u = (Inr w, u))"
  proof cases
    case plain
    then show ?thesis using len by (simp add: page_decrypt_def LOLELFFS_ENC_NONE_def)
  next
    case enc
    have y: "length y = LOLELFFS_BLOCK_SIZE" and m: "kmalloc s1 = (True, s')"
      using enc(8) c len
      by (auto elim!: encrypt_block_cases simp: cipher_inverse_def CHACHA20_POLY1305_TAG_SIZE_def)
    have "page_decrypt el et used iblock w' u = (Inr w, u)" if "mem u = []" "sbi u = sbi s"
      using decrypt_encrypt [OF c enc(8) len, of u] kmalloc_ready [OF that(1)] enc(2,3,5,6,7) kmalloc_frame [OF enc(1)] that(2) y
      by (simp add: page_decrypt_def)
    then show ?thesis
      using enc(4,5) y kmalloc_frame [OF enc(1)] kmalloc_frame [OF m]
      by (simp add: LOLELFFS_EXT_ENCRYPTED_def LOLELFFS_EXT_HAS_META_def)
  qed
  then show "length w' = LOLELFFS_BLOCK_SIZE" "flag AND LOLELFFS_EXT_HAS_META = 0"
    "blocks s' = blocks s \<and> readable s' = readable s \<and> sbi s' = sbi s \<and> icache s' = icache s"
    "mem u = [] \<Longrightarrow> sbi u = sbi s \<Longrightarrow> page_decrypt el et used iblock w' u = (Inr w, u)"
    by simp_all
qed

section \<open>Tagging an extent\<close>

lemma ucast_u8_u16: "ucast (ucast (w :: u8) :: u16) = w"
  by (rule bit_word_eqI) (simp add: bit_unsigned_iff)

lemma laid_out_update:
  "laid_out n es \<Longrightarrow> i < length es \<Longrightarrow> ee_block e = ee_block (es ! i) \<Longrightarrow> ee_len e = ee_len (es ! i) \<Longrightarrow>
   ext_max e = ext_max (es ! i) \<Longrightarrow> laid_out n (es[i := e])"
proof (induction es arbitrary: n i)
  case (Cons f es)
  then show ?case by (cases i) (simp_all only: list_update_code laid_out.simps nth_Cons_0 nth_Cons_Suc length_Cons Suc_less_eq simp_thms)
qed simp

lemma takeWhile_same:
  "i < length (takeWhile P xs) \<Longrightarrow> P y \<Longrightarrow> takeWhile P (xs[i := y]) = (takeWhile P xs)[i := y]"
proof (induction xs arbitrary: i)
  case (Cons x xs)
  then show ?case by (cases i) (auto split: if_splits)
qed simp

lemma tag_extent_live:
  assumes "i < length (live_extents x)"
  shows "live_extents (tag_extent x i ca ea fl) =
    (live_extents x)[i := (live_extents x ! i)\<lparr>ee_comp_algo := ucast ca, ee_enc_algo := ea, ee_flags := fl\<rparr>]"
proof -
  have "ee_start (live_extents x ! i) \<noteq> 0" "extents x ! i = live_extents x ! i" using live_nth [OF assms] by auto
  with assms show ?thesis
    by (simp add: live_extents_def [of "tag_extent x i ca ea fl"] tag_extent_def)
      (simp add: live_extents_def takeWhile_same)
qed

lemma tag_extent_ranges:
  assumes "i < length (live_extents x)"
  shows "ext_ranges (extents (tag_extent x i ca ea fl)) = ext_ranges (extents x)"
    and "map extent_blocks (live_extents (tag_extent x i ca ea fl)) = map extent_blocks (live_extents x)"
  using assms by (simp_all add: ext_ranges_live tag_extent_live map_update extent_blocks_def list_update_same_conv)

lemma wf_tag_extent: "wf_ei x \<Longrightarrow> wf_ei (tag_extent x i ca ea fl)"
  by (simp add: wf_ei_def tag_extent_def)

lemma file_search_at:
  assumes "file_ok s ino" "i < length (live_extents (file_index s ino))" "covers (extents (file_index s ino) ! i) b"
  shows "lolelffs_ext_search (file_index s ino) b = of_nat i"
proof -
  let ?x = "file_index s ino"
  have u: "used_extents ?x = live_extents ?x" by (rule used_live [OF file_ok_wf [OF assms(1)]])
  have o: "ordered (used_extents ?x)" using validated_ordered [of ?x] assms(1) u by (simp add: file_ok_def)
  have "covers (live_extents ?x ! i) b" using assms(2,3) live_nth by simp
  then show ?thesis
    using search_spec_unique [OF o, of i b] assms(2) ext_search_ordered [OF o, of b] by (simp add: u)
qed

lemma tag_extent_same:
  assumes "ucast ca = ee_comp_algo (extents x ! i)" "ea = ee_enc_algo (extents x ! i)" "fl = ee_flags (extents x ! i)"
  shows "tag_extent x i ca ea fl = x"
proof -
  have "(extents x ! i)\<lparr>ee_comp_algo := ucast ca, ee_enc_algo := ea, ee_flags := fl\<rparr> = extents x ! i"
    unfolding assms by (cases "extents x ! i") simp
  then show ?thesis by (simp add: tag_extent_def)
qed

text \<open>A file whose index is replaced by one with a tagged extent, other blocks of the file changed or not.\<close>

lemma file_ok_tag:
  assumes ok: "file_ok s ino" and i: "i < length (live_extents (file_index s ino))"
    and fl: "fl AND LOLELFFS_EXT_HAS_META = 0"
    and same: "sbi t = sbi s" "readable t = readable s" "icache t = icache s" "wf_dev t"
    and x: "file_index t ino = tag_extent (file_index s ino) i ca ea fl"
  shows "file_ok t ino" "file_blocks t ino = file_blocks s ino"
proof -
  let ?x = "file_index s ino"
  let ?e = "(live_extents ?x ! i)\<lparr>ee_comp_algo := ucast ca, ee_enc_algo := ea, ee_flags := fl\<rparr>"
  have io: "inode_of t ino = inode_of s ino" and ix: "index_sector t ino = index_sector s ino"
    using same by (simp_all add: inode_of_def index_sector_def sector_eq [OF same(1)])
  have l: "laid_out 0 (live_extents ?x)"
    and m: "list_all (\<lambda>e. ee_flags e AND LOLELFFS_EXT_HAS_META = 0) (extents ?x)"
    and z: "list_all (\<lambda>e. ee_start e = 0) (drop (length (live_extents ?x)) (extents ?x))"
    using ok by (simp_all add: file_ok_def)
  have len: "i < length (extents ?x)" using i length_takeWhile_le [of "\<lambda>e. ee_start e \<noteq> 0" "extents ?x"] by (simp add: live_extents_def)
  have "ee_flags (extents ?x ! i) AND LOLELFFS_EXT_HAS_META = 0"
    using m len by (simp add: list_all_length)
  then have "ee_flags (live_extents ?x ! i) AND LOLELFFS_EXT_HAS_META = 0"
    by (simp only: conjunct1 [OF live_nth [OF i]])
  then have "ext_max ?e = ext_max (live_extents ?x ! i)" using fl by (simp add: ext_max_def)
  then have "laid_out 0 (live_extents (tag_extent ?x i ca ea fl))"
    unfolding tag_extent_live [OF i] by (intro laid_out_update [OF l i]) simp_all
  moreover have "list_all (\<lambda>e. ee_flags e AND LOLELFFS_EXT_HAS_META = 0) (extents (tag_extent ?x i ca ea fl))"
    using m fl by (simp add: tag_extent_def list_all_update)
  moreover have "list_all (\<lambda>e. ee_start e = 0) (drop (length (live_extents (tag_extent ?x i ca ea fl))) (extents (tag_extent ?x i ca ea fl)))"
    using z i by (simp only: tag_extent_live [OF i] length_list_update) (simp add: tag_extent_def)
  ultimately show "file_ok t ino"
    using ok same by (simp add: file_ok_def x io ix tag_extent_ranges(1) [OF i])
  show "file_blocks t ino = file_blocks s ino"
    by (simp add: file_blocks_eq x tag_extent_ranges(2) [OF i])
qed

section \<open>What a written page leaves behind\<close>

lemma unat_ucast_block: "file_ok s ino \<Longrightarrow> unat iblock < length (file_blocks s ino) \<Longrightarrow> unat (ucast (iblock :: u64) :: u32) = unat iblock"
  using file_total_bound [of s ino] by (intro unat_ucast_iblock) (simp add: length_file_blocks)

lemma file_covering:
  assumes ok: "file_ok s ino" and ib: "unat (iblock :: u64) < length (file_blocks s ino)"
  obtains i where "i < length (live_extents (file_index s ino))" "covers (extents (file_index s ino) ! i) (ucast iblock)"
    "lolelffs_ext_search (file_index s ino) (ucast iblock) = of_nat i" "unat (of_nat i :: u32) = i" "(of_nat i :: u32) \<noteq> - 1"
    "ee_start (extents (file_index s ino) ! i) \<noteq> 0"
    "file_blocks s ino ! unat iblock = ee_start (extents (file_index s ino) ! i) + (ucast iblock - ee_block (extents (file_index s ino) ! i))"
proof -
  obtain i where i: "i < length (live_extents (file_index s ino))" "lolelffs_ext_search (file_index s ino) (ucast iblock) = of_nat i"
    "covers (extents (file_index s ino) ! i) (ucast iblock)"
    "file_blocks s ino ! unat iblock = ee_start (extents (file_index s ino) ! i) + (ucast iblock - ee_block (extents (file_index s ino) ! i))"
    using file_search(1) [OF ok, of "ucast iblock", unfolded unat_ucast_block [OF ok ib]] ib by blast
  have "i \<le> 170" using i(1) live_length [OF file_ok_wf [OF ok]] by (simp add: max_extents)
  then show thesis using that [OF i(1,3,2) extent_no(1) extent_no(2) _ i(4)] conjunct2 [OF live_nth [OF i(1)]] by blast
qed

lemma writepage_steps:
  assumes ok: "file_ok s ino" and i: "lolelffs_ext_search (file_index s ino) (ucast iblock) = of_nat i"
      "unat (of_nat i :: u32) = i" "(of_nat i :: u32) \<noteq> - 1" "ee_start (extents (file_index s ino) ! i) \<noteq> 0"
      "file_blocks s ino ! unat iblock = ee_start (extents (file_index s ino) ! i) + (ucast iblock - ee_block (extents (file_index s ino) ! i))"
    and wr: "lolelffs_writepage_locked cl ct el et ino iblock page s = (Inr (), s')"
  defines "b \<equiv> file_blocks s ino ! unat iblock" and "k \<equiv> index_sector s ino"
    and "ca \<equiv> (if comp_enabled (sbi s) \<noteq> 0 then ucast (comp_default_algo (sbi s)) else of_nat LOLELFFS_COMP_NONE :: u8)"
    and "ea \<equiv> (if enc_enabled (sbi s) \<noteq> 0 then ucast (enc_default_algo (sbi s)) else of_nat LOLELFFS_ENC_NONE :: u8)"
  obtains s1 w uc f1 s2 w' ue f2 s3 where
    "kmalloc s = (True, s1)" "page_compress cl ct ca page s1 = (Inr (w, uc, f1), s2)"
    "page_encrypt el et ea iblock w s2 = (Inr (w', ue, f2), s3)" "readable s3 (sector s3 b)"
    "s' = (let t = store s3 (sector s3 b) w'; index = ei_at t k; e = extents index ! i in
       if ucast uc \<noteq> ee_comp_algo e \<or> ue \<noteq> ee_enc_algo e \<or> f1 OR f2 \<noteq> ee_flags e
       then put_ei t k (tag_extent index i uc ue (f1 OR f2)) else t)"
proof -
  have rd: "readable s (index_sector s ino)" using ok by (simp add: file_ok_def)
  have "\<exists>s1 w uc f1 s2 w' ue f2 s3. kmalloc s = (True, s1) \<and> page_compress cl ct ca page s1 = (Inr (w, uc, f1), s2)
      \<and> page_encrypt el et ea iblock w s2 = (Inr (w', ue, f2), s3) \<and> readable s3 (sector s3 b)
      \<and> s' = (let t = store s3 (sector s3 b) w'; index = ei_at t k; e = extents index ! i in
           if ucast uc \<noteq> ee_comp_algo e \<or> ue \<noteq> ee_enc_algo e \<or> f1 OR f2 \<noteq> ee_flags e
           then put_ei t k (tag_extent index i uc ue (f1 OR f2)) else t)"
    using wr unfolding lolelffs_writepage_locked_def Let_def file_index_def [symmetric] i(1,2) ca_def [symmetric]
      ea_def [symmetric] k_def i(5) [symmetric] b_def
    using rd i(3,4) by (auto split: prod.splits sum.splits if_splits)
  then show thesis using that by blast
qed

lemma writepage_effect:
  assumes ok: "file_ok s ino" and ib: "unat iblock < length (file_blocks s ino)"
    and lib: "zlib_stream cl" "cipher_inverse el" and len: "length page = LOLELFFS_BLOCK_SIZE"
    and algo: "comp_enabled (sbi s) = 0 \<or> unat (ucast (comp_default_algo (sbi s)) :: u8) \<noteq> LOLELFFS_COMP_LZ4"
    and wr: "lolelffs_writepage_locked cl ct el et ino iblock page s = (Inr (), s')"
  obtains i ca ea fl w w' where "i < length (live_extents (file_index s ino))" "covers (extents (file_index s ino) ! i) (ucast iblock)"
    "fl AND LOLELFFS_EXT_HAS_META = 0" "sbi s' = sbi s" "readable s' = readable s" "icache s' = icache s" "wf_dev s'"
    "file_index s' ino = tag_extent (file_index s ino) i ca ea fl" "page_decompress cl ct ca w = Inr page"
    "\<forall>u. mem u = [] \<longrightarrow> sbi u = sbi s \<longrightarrow> page_decrypt el et ea iblock w' u = (Inr w, u)"
    "readable s (sector s (file_blocks s ino ! unat iblock))"
    "\<forall>k. k \<noteq> index_sector s ino \<longrightarrow> blocks s' k = (if k = sector s (file_blocks s ino ! unat iblock) then w' else blocks s k)"
proof -
  let ?x = "file_index s ino" let ?k = "index_sector s ino" let ?kb = "sector s (file_blocks s ino ! unat iblock)"
  obtain i where i: "i < length (live_extents ?x)" "covers (extents ?x ! i) (ucast iblock)"
    "lolelffs_ext_search ?x (ucast iblock) = of_nat i" "unat (of_nat i :: u32) = i" "(of_nat i :: u32) \<noteq> - 1"
    "ee_start (extents ?x ! i) \<noteq> 0"
    "file_blocks s ino ! unat iblock = ee_start (extents ?x ! i) + (ucast iblock - ee_block (extents ?x ! i))"
    using file_covering [OF ok ib] .
  obtain s1 w uc f1 s2 w' ue f2 s3 where m: "kmalloc s = (True, s1)"
    and pc: "page_compress cl ct (if comp_enabled (sbi s) \<noteq> 0 then ucast (comp_default_algo (sbi s)) else of_nat LOLELFFS_COMP_NONE) page s1 = (Inr (w, uc, f1), s2)"
    and pe: "page_encrypt el et (if enc_enabled (sbi s) \<noteq> 0 then ucast (enc_default_algo (sbi s)) else of_nat LOLELFFS_ENC_NONE) iblock w s2 = (Inr (w', ue, f2), s3)"
    and rb: "readable s3 (sector s3 (file_blocks s ino ! unat iblock))"
    and s': "s' = (let t = store s3 (sector s3 (file_blocks s ino ! unat iblock)) w'; index = ei_at t ?k; e = extents index ! i in
       if ucast uc \<noteq> ee_comp_algo e \<or> ue \<noteq> ee_enc_algo e \<or> f1 OR f2 \<noteq> ee_flags e
       then put_ei t ?k (tag_extent index i uc ue (f1 OR f2)) else t)"
    using writepage_steps [OF ok i(3-7) wr] .
  have "unat (if comp_enabled (sbi s) \<noteq> 0 then ucast (comp_default_algo (sbi s)) else of_nat LOLELFFS_COMP_NONE :: u8) \<noteq> LOLELFFS_COMP_LZ4"
    using algo by (auto simp: comp_ids)
  note c = page_compress_undo [OF lib(1) len this pc]
  note e = page_encrypt_undo [OF lib(2) c(1) pe]
  have f: "blocks s3 = blocks s" "readable s3 = readable s" "sbi s3 = sbi s" "icache s3 = icache s" "sbi s2 = sbi s"
    using e(3) c(4) kmalloc_frame [OF m] kmalloc_frame [of s1 _ "snd (kmalloc s1)", OF prod.collapse [symmetric]] by auto
  have sec: "sector s3 = sector s" by (rule sector_eq [OF f(3)])
  have kb: "?kb \<noteq> ?k" using file_block_sector(2) [OF ok, of "file_blocks s ino ! unat iblock"] ib by simp
  define t where "t = store s3 ?kb w'"
  have x: "ei_at t ?k = ?x" using kb by (simp add: ei_at_def file_index_def f(1) t_def)
  have cases: "s' = t \<and> tag_extent ?x i uc ue (f1 OR f2) = ?x \<or> s' = put_ei t ?k (tag_extent ?x i uc ue (f1 OR f2))"
    using s' tag_extent_same [of uc ?x i ue "f1 OR f2"] by (auto simp: Let_def sec x t_def [symmetric] split: if_splits)
  have wx: "wf_ei (tag_extent ?x i uc ue (f1 OR f2))" by (rule wf_tag_extent [OF file_ok_wf [OF ok]])
  have "wf_dev t" using ok e(1) by (simp add: t_def file_ok_def wf_dev_def f(1))
  have same: "sbi s' = sbi s" "readable s' = readable s" "icache s' = icache s" "wf_dev s'"
    using cases wx \<open>wf_dev t\<close> f by (auto simp: t_def)
  have ix: "index_sector s' ino = ?k" using same by (simp add: index_sector_def inode_of_def sector_eq [OF same(1)])
  have fx: "file_index s' ino = tag_extent ?x i uc ue (f1 OR f2)"
    using cases x wx by (auto simp: file_index_def ix ei_at_put t_def [symmetric])
  have bl: "blocks s' k = (if k = ?kb then w' else blocks s k)" if "k \<noteq> ?k" for k
    using cases that by (auto simp: put_ei_def t_def f(1))
  have "(f1 OR f2) AND LOLELFFS_EXT_HAS_META = 0" using c(3) e(2) by (simp add: bit.conj_disj_distrib2)
  moreover have "\<forall>u. mem u = [] \<longrightarrow> sbi u = sbi s \<longrightarrow> page_decrypt el et ue iblock w' u = (Inr w, u)"
    using e(4) by (simp add: f(5))
  moreover have "\<forall>k. k \<noteq> ?k \<longrightarrow> blocks s' k = (if k = ?kb then w' else blocks s k)" using bl by blast
  ultimately show thesis using that [OF i(1,2) _ same fx c(2)] rb by (simp add: sec f(2))
qed

lemma read_folio_at:
  assumes ok: "file_ok s ino" and ib: "iblock = drop_bit 12 pos" "unat iblock < length (file_blocks s ino)"
    and pos: "pos < vi_size (inode_of s ino)" and i: "i < length (live_extents (file_index s ino))"
      "covers (extents (file_index s ino) ! i) (ucast iblock)"
  defines "kb \<equiv> sector s (file_blocks s ino ! unat iblock) + fs_offset (sbi s)" and "e \<equiv> extents (file_index s ino) ! i"
  shows "lolelffs_read_folio cl ct el et ino pos s =
    (if \<not> readable s kb then (Inl EIO, s)
     else case page_decrypt el et (ee_enc_algo e) iblock (blocks s kb) s of
       (Inl err, s) \<Rightarrow> (Inl err, s)
     | (Inr source_buf, s) \<Rightarrow> (page_decompress cl ct (ucast (ee_comp_algo e)) source_buf, s))"
proof -
  obtain j where j: "j < length (live_extents (file_index s ino))" "covers (extents (file_index s ino) ! j) (ucast iblock)"
    "lolelffs_ext_search (file_index s ino) (ucast iblock) = of_nat j" "unat (of_nat j :: u32) = j" "(of_nat j :: u32) \<noteq> - 1"
    "ee_start (extents (file_index s ino) ! j) \<noteq> 0"
    "file_blocks s ino ! unat iblock = ee_start (extents (file_index s ino) ! j) + (ucast iblock - ee_block (extents (file_index s ino) ! j))"
    using file_covering [OF ok ib(2)] .
  have "i \<le> 170" using i(1) live_length [OF file_ok_wf [OF ok]] by (simp add: max_extents)
  then have "j = i" using file_search_at [OF ok i] j(3,4) extent_no(1) [of i] by metis
  note j = j [unfolded this]
  have "readable s (index_sector s ino)" using ok by (simp add: file_ok_def)
  then show ?thesis
    using iffD2 [OF not_le pos] j(6)
    unfolding lolelffs_read_folio_def Let_def ib(1) [symmetric] file_index_def [symmetric] j(3,4) j(7) [symmetric] kb_def e_def
    by (simp add: j(5))
qed

section \<open>Properties\<close>


text \<open>For evaluation: a compressor for blocks of zeros only, and a file system with zlib and AES enabled.\<close>

definition zero_lib :: comp_lib where
  "zero_lib = toy_lib\<lparr>zlib_deflate := (\<lambda>x n. if x = zero_block then Some [1] else None),
     zlib_inflate := (\<lambda>c n. if take 1 c = [1] then Some zero_block else None)\<rparr>"

definition zip_fs :: fs where
  "zip_fs = file_fs\<lparr>sbi := file_sbi\<lparr>comp_enabled := 1, comp_default_algo := 2, enc_enabled := 1, enc_default_algo := 1,
       enc_unlocked := True\<rparr>, icache := (icache file_fs)(1 := Some (inode_of file_fs 1\<lparr>vi_size := 8192\<rparr>))\<rparr>"

lemma zero_lib_stream: "zlib_stream zero_lib"
  by (simp add: zlib_stream_def zero_lib_def toy_lib_def)

lemma zip_fs_proj: "blocks zip_fs = blocks file_fs" "readable zip_fs = readable file_fs" "mem zip_fs = []"
  "sector zip_fs = sector file_fs" "index_sector zip_fs 1 = index_sector file_fs 1" "file_index zip_fs 1 = file_index file_fs 1"
  "file_blocks zip_fs 1 = [14, 15]" "inode_of zip_fs 1 = inode_of file_fs 1\<lparr>vi_size := 8192\<rparr>"
proof -
  show 1: "blocks zip_fs = blocks file_fs" "readable zip_fs = readable file_fs" "mem zip_fs = []"
    by (simp_all add: zip_fs_def file_fs_def dir_fs_def tiny_fs_def)
  show 2: "sector zip_fs = sector file_fs" by (rule sector_cong) (simp add: zip_fs_def file_fs_def)
  show 3: "inode_of zip_fs 1 = inode_of file_fs 1\<lparr>vi_size := 8192\<rparr>" by (simp add: zip_fs_def inode_of_def)
  show 4: "index_sector zip_fs 1 = index_sector file_fs 1" by (simp add: index_sector_def 2 3)
  show 5: "file_index zip_fs 1 = file_index file_fs 1" by (simp add: file_index_def 4 at_cong(1) [OF 1(1)])
  show "file_blocks zip_fs 1 = [14, 15]" using file_fs_blocks by (simp add: file_blocks_eq 5)
qed

lemma zip_fs_ok: "file_ok zip_fs 1"
proof -
  have "sbi_inv (sbi zip_fs)" "free_blocks (sbi zip_fs) = free_blocks (sbi file_fs)" "nr_blocks (sbi zip_fs) = nr_blocks (sbi file_fs)"
    using file_sbi_inv by (simp_all add: zip_fs_def file_fs_def sbi_inv_def blocks_inv_def inodes_inv_def free_blocks_def)
  with file_fs_ok show ?thesis
    by (simp add: file_ok_def zip_fs_proj wf_dev_def owned_def)
qed

lemma zip_write: "\<exists>s'. lolelffs_writepage_locked zero_lib toy_table toy_crypto toy_enc_table 1 1 zero_block zip_fs = (Inr (), s') \<and> mem s' = []"
proof -
  have k: "kmalloc zip_fs = (True, zip_fs)" by (rule kmalloc_ready [OF zip_fs_proj(3)])
  obtain i where i: "lolelffs_ext_search (file_index zip_fs 1) (ucast (1 :: u64)) = of_nat i" "unat (of_nat i :: u32) = i"
     "(of_nat i :: u32) \<noteq> - 1" "ee_start (extents (file_index zip_fs 1) ! i) \<noteq> 0"
    using file_covering [OF zip_fs_ok, of 1] by (auto simp: zip_fs_proj)
  have "page_compress zero_lib toy_table 2 zero_block zip_fs =
      (Inr ([1] @ replicate 4095 0, 2, LOLELFFS_EXT_COMPRESSED), zip_fs)"
    by (simp add: page_compress_def k lolelffs_comp_supported_def lolelffs_compress_block_def lolelffs_compress_zlib_def
        toy_table_eq comp_ids zero_lib_def toy_lib_def Let_def const_values)
  moreover have "\<exists>w. page_encrypt toy_crypto toy_enc_table 1 1 ([1] @ replicate 4095 0) zip_fs = (Inr (w, 1, LOLELFFS_EXT_ENCRYPTED), zip_fs)"
    by (simp add: page_encrypt_def k lolelffs_enc_supported_def lolelffs_encrypt_block_def lolelffs_encrypt_aes_xts_def
        toy_enc_table_eq enc_ids toy_crypto_def Let_def) (simp add: zip_fs_def)
  moreover have "comp_enabled (sbi zip_fs) = 1" "comp_default_algo (sbi zip_fs) = 2" "enc_enabled (sbi zip_fs) = 1"
      "enc_default_algo (sbi zip_fs) = 1" "readable zip_fs k" for k
    by (simp_all add: zip_fs_def file_sector)
  ultimately show ?thesis
    using k i(3,4) zip_fs_proj(3)
    unfolding lolelffs_writepage_locked_def Let_def file_index_def [symmetric] i(1,2)
    by (auto simp: put_ei_def)
qed


text \<open>
  C36. The start of the file system is added twice when a page is read. For a file without compression
  and encryption \<open>lolelffs_file_get_block\<close>, which the write path uses, maps a block to its sector,
  but \<open>lolelffs_read_folio\<close> gives the contents of the sector \<open>fs_offset\<close> further on. The two agree
  only if the file system starts at block 0; inside an ELF file a page is not read from where it
  was written.
\<close>

theorem read_folio_offset_twice:
  assumes "file_ok s ino" "iblock = drop_bit 12 pos" "unat iblock < length (file_blocks s ino)" "unat iblock < file_limit"
    "pos < vi_size (inode_of s ino)" "\<forall>k. readable s k"
    "list_all (\<lambda>e. ee_comp_algo e = 0 \<and> ee_enc_algo e = 0) (live_extents (file_index s ino))"
  shows "\<exists>k. lolelffs_file_get_block ino iblock False s = (Inr (Some k), s)
    \<and> lolelffs_read_folio cl ct el et ino pos s = (Inr (blocks s (k + fs_offset (sbi s))), s)"
proof -
  obtain i where i: "i < length (live_extents (file_index s ino))" "covers (extents (file_index s ino) ! i) (ucast iblock)"
    using file_covering [OF assms(1,3)] by blast
  have "ee_comp_algo (extents (file_index s ino) ! i) = 0 \<and> ee_enc_algo (extents (file_index s ino) ! i) = 0"
    using assms(7) i(1) live_nth [OF i(1)] by (simp add: list_all_length)
  then show ?thesis
    using get_block_mapped [OF assms(1,3,4), of False] read_folio_at [OF assms(1,2,3,5) i] assms(6)
    by (simp add: page_decrypt_def page_decompress_def LOLELFFS_ENC_NONE_def LOLELFFS_COMP_NONE_def)
qed

text \<open>The file of two blocks on a device where the file system starts at block 3.\<close>

definition elf_fs :: fs where
  "elf_fs = file_fs\<lparr>sbi := file_sbi\<lparr>fs_offset := 3\<rparr>, blocks := (\<lambda>k. blocks file_fs (k - 3)),
     icache := (icache file_fs)(1 := Some (inode_of file_fs 1\<lparr>vi_size := 8192\<rparr>))\<rparr>"

lemma elf_fs_proj: "sector elf_fs b = unat b + 3" "inode_of elf_fs 1 = inode_of file_fs 1\<lparr>vi_size := 8192\<rparr>" "readable elf_fs k"
  "file_index elf_fs 1 = one_extent 0 14 2" "file_blocks elf_fs 1 = [14, 15]" "index_sector elf_fs 1 = 16"
proof -
  show 1: "sector elf_fs b = unat b + 3" for b by (simp add: sector_def elf_fs_def)
  show 2: "inode_of elf_fs 1 = inode_of file_fs 1\<lparr>vi_size := 8192\<rparr>" by (simp add: inode_of_def elf_fs_def)
  show "readable elf_fs k" by (simp add: elf_fs_def file_sector)
  show 3: "index_sector elf_fs 1 = 16" by (simp add: index_sector_def 1 2 file_sector)
  have "blocks elf_fs 16 = blocks file_fs 13" by (simp add: elf_fs_def)
  then show 4: "file_index elf_fs 1 = one_extent 0 14 2" using file_at(2) by (simp add: file_index_def 3 ei_at_def)
  show "file_blocks elf_fs 1 = [14, 15]" using file_fs_blocks by (simp add: file_blocks_eq 4 file_fs_index)
qed

lemma elf_fs_ok: "file_ok elf_fs 1"
proof -
  have "sbi_inv (sbi elf_fs)" "free_blocks (sbi elf_fs) = free_blocks (sbi file_fs)" "nr_blocks (sbi elf_fs) = nr_blocks (sbi file_fs)"
    using file_sbi_inv by (simp_all add: elf_fs_def file_fs_def sbi_inv_def blocks_inv_def inodes_inv_def free_blocks_def)
  moreover have "wf_dev elf_fs" using file_wf_dev by (simp add: wf_dev_def elf_fs_def)
  ultimately show ?thesis
    using file_fs_ok by (simp add: file_ok_def elf_fs_proj file_fs_index owned_def)
qed

theorem read_folio_offset_twice_witness:
  "lolelffs_read_folio zero_lib toy_table toy_crypto toy_enc_table 1 4096 elf_fs = (Inr (blocks elf_fs 21), elf_fs)"
proof -
  have "(1 :: u64) = drop_bit 12 4096" "(4096 :: u64) < vi_size (inode_of elf_fs 1)"
    "list_all (\<lambda>e. ee_comp_algo e = 0 \<and> ee_enc_algo e = 0) (live_extents (file_index elf_fs 1))"
    by (simp_all add: elf_fs_proj one_extent_live [of 14 0 2] zero_extent_def)
  note h = read_folio_offset_twice [OF elf_fs_ok this(1) _ _ this(2) _ this(3), of zero_lib toy_table toy_crypto toy_enc_table]
  have "lolelffs_file_get_block 1 1 False elf_fs = (Inr (Some 18), elf_fs)"
    using get_block_mapped [OF elf_fs_ok, of 1 False] by (simp add: elf_fs_proj file_limit_eq)
  moreover have "fs_offset (sbi elf_fs) = 3" by (simp add: elf_fs_def)
  ultimately show ?thesis using h by (auto simp: elf_fs_proj file_limit_eq)
qed

end
