(* ===== verification/Calls.thy ===== *)
theory Calls
  imports Dir Xattr_Map File_Data
begin

text \<open>
  The operations of the mounted file system as the steps of one system, and the typing of its state
  that all of them preserve: every block of the device has the size of a block, the bitmaps keep
  their sizes, the geometry of the file system does not change.
\<close>

section \<open>Steps that keep the state well-typed\<close>

definition keeps :: "fs \<Rightarrow> fs \<Rightarrow> bool" where
  "keeps s t \<longleftrightarrow> (mounted s \<and> wf_dev s \<longrightarrow> wf_dev t) \<and> same_geometry (sbi s) (sbi t) \<and> readable t = readable s"

lemma keeps_mounted: "keeps s t \<Longrightarrow> mounted s \<Longrightarrow> mounted t"
  unfolding keeps_def by (blast intro: mounted_cong)

lemma keeps_refl: "keeps s s"
  by (simp add: keeps_def)

lemma keeps_trans: "keeps s t \<Longrightarrow> keeps t u \<Longrightarrow> keeps s u"
  using keeps_mounted [of s t] by (auto simp: keeps_def intro: same_geometry_trans)

lemma keeps_after: "keeps t u \<Longrightarrow> keeps s t \<Longrightarrow> keeps s u"
  by (rule keeps_trans)

text \<open>The collection \<open>kept\<close>: rules that follow the code from the outside to the inside.\<close>

named_theorems kept

lemma kept_case [kept]:
  "keeps s (snd p) \<Longrightarrow> (\<And>r t. p = (r, t) \<Longrightarrow> keeps s t \<Longrightarrow> keeps s (snd (f r t))) \<Longrightarrow> keeps s (snd (case p of (r, t) \<Rightarrow> f r t))"
  by (cases p) simp

lemma kept_let [kept]: "keeps s (snd (f x)) \<Longrightarrow> keeps s (snd (let y = x in f y))"
  by simp

lemma kept_if [kept]:
  "(b \<Longrightarrow> keeps s (snd x)) \<Longrightarrow> (\<not> b \<Longrightarrow> keeps s (snd y)) \<Longrightarrow> keeps s (snd (if b then x else y))"
  "(b \<Longrightarrow> keeps s t) \<Longrightarrow> (\<not> b \<Longrightarrow> keeps s u) \<Longrightarrow> keeps s (if b then t else u)"
  by simp_all

lemma kept_sum [kept]:
  "(\<And>e. r = Inl e \<Longrightarrow> keeps s (snd (f e))) \<Longrightarrow> (\<And>x. r = Inr x \<Longrightarrow> keeps s (snd (g x))) \<Longrightarrow>
     keeps s (snd (case r of Inl e \<Rightarrow> f e | Inr x \<Rightarrow> g x))"
  by (simp split: sum.split)

lemma kept_option [kept]:
  "(r = None \<Longrightarrow> keeps s (snd x)) \<Longrightarrow> (\<And>y. r = Some y \<Longrightarrow> keeps s (snd (g y))) \<Longrightarrow>
     keeps s (snd (case r of None \<Rightarrow> x | Some y \<Rightarrow> g y))"
  by (simp split: option.split)

lemma kept_snd [kept]: "keeps s t \<Longrightarrow> keeps s (snd (r, t))"
  by simp

lemma keeps_same: "blocks t = blocks s \<Longrightarrow> sbi t = sbi s \<Longrightarrow> readable t = readable s \<Longrightarrow> keeps s t"
  by (auto simp: keeps_def intro: wf_dev_blocks)

lemma kept_upd [kept]:
  "keeps s t \<Longrightarrow> keeps s (upd_inode t ino f)" "keeps s t \<Longrightarrow> keeps s (mark_inode_dirty t ino)"
  "keeps s t \<Longrightarrow> keeps s (touch t ino)" "keeps s t \<Longrightarrow> keeps s (inc_nlink t ino)"
  "keeps s t \<Longrightarrow> keeps s (drop_nlink t ino)" "keeps s t \<Longrightarrow> keeps s (put_vinode t ino i)"
  "keeps s t \<Longrightarrow> keeps s (iput ker t ino)"
  by (rule keeps_after, rule keeps_same, simp_all add: inode_steps)+

lemma kept_kmalloc [kept]: "keeps s t \<Longrightarrow> keeps s (snd (kmalloc t))"
  by (rule keeps_after) (auto intro!: keeps_same simp: kmalloc_def split: list.split)

lemma kept_store [kept]: "length bs = LOLELFFS_BLOCK_SIZE \<Longrightarrow> keeps s t \<Longrightarrow> keeps s (store t k bs)"
  by (rule keeps_after) (auto simp: keeps_def)

lemma kept_put_ei [kept]: "(wf_dev t \<Longrightarrow> wf_ei x) \<Longrightarrow> keeps s t \<Longrightarrow> keeps s (put_ei t k x)"
  by (rule keeps_after) (auto simp: keeps_def)

lemma kept_put_dir [kept]: "(wf_dev t \<Longrightarrow> wf_dir x) \<Longrightarrow> keeps s t \<Longrightarrow> keeps s (put_dir t k x)"
  by (rule keeps_after) (auto simp: keeps_def)

lemma kept_put_xei [kept]: "(wf_dev t \<Longrightarrow> wf_xei x) \<Longrightarrow> keeps s t \<Longrightarrow> keeps s (put_xei t k x)"
  by (rule keeps_after) (auto simp: keeps_def intro: wf_dev_put_xei)

lemma kept_set_sbi [kept]: "same_geometry (sbi t) b \<Longrightarrow> keeps s t \<Longrightarrow> keeps s (set_sbi t b)"
  by (rule keeps_after) (auto simp: keeps_def intro: wf_dev_blocks)

lemma kept_alloc [kept]:
  "(\<And>bno b. same_geometry b0 b \<Longrightarrow> keeps s (snd (f bno b))) \<Longrightarrow>
     keeps s (snd (case get_free_blocks b0 n of (bno, b) \<Rightarrow> f bno b))"
  using get_free_blocks_frame [of b0 n] by (cases "get_free_blocks b0 n") (simp add: same_geometry_def)

lemma kept_alloc_inode [kept]:
  "(\<And>ino b. same_geometry b0 b \<Longrightarrow> keeps s (snd (f ino b))) \<Longrightarrow>
     keeps s (snd (case get_free_inode b0 of (ino, b) \<Rightarrow> f ino b))"
  using get_free_inode_frame [of b0] by (cases "get_free_inode b0") (simp add: same_geometry_def)

lemma geometry_put [kept]:
  "same_geometry a b \<Longrightarrow> same_geometry a (put_blocks b x n)" "same_geometry a b \<Longrightarrow> same_geometry a (put_inode b ino)"
  by (simp_all add: same_geometry_def put_blocks_def put_inode_def put_free_bits_def split: option.split)

lemma geometry_put_extents [kept]: "same_geometry a b \<Longrightarrow> same_geometry a (put_extents b es)"
  by (induction es arbitrary: b) (auto intro: geometry_put)

lemmas [kept] = same_geometry_refl keeps_refl length_zero_block


section \<open>The operations of the name space\<close>

lemma kept_iget [kept]: "keeps s t \<Longrightarrow> keeps s (snd (lolelffs_iget t ino))"
  unfolding lolelffs_iget_def by (intro kept)

lemma kept_write_inode [kept]: "keeps s t \<Longrightarrow> keeps s (snd (lolelffs_write_inode t ino))"
proof (rule keeps_after)
  obtain r u where w: "lolelffs_write_inode t ino = (r, u)" by fastforce
  then show "keeps t (snd (lolelffs_write_inode t ino))"
    using wf_dev_write_inode [OF _ w] write_inode_frame [OF w] by (simp add: keeps_def)
qed

lemma kept_sync_fs [kept]: "keeps s t \<Longrightarrow> keeps s (snd (lolelffs_sync_fs t))"
proof (rule keeps_after)
  obtain r u where w: "lolelffs_sync_fs t = (r, u)" by fastforce
  then show "keeps t (snd (lolelffs_sync_fs t))"
    using wf_dev_sync_fs [OF _ _ w] sync_fs_frames [OF w] by (simp add: keeps_def)
qed

lemma kept_lookup: "keeps s t \<Longrightarrow> keeps s (snd (lolelffs_lookup t dir nm))"
  unfolding lolelffs_lookup_def by (intro kept)

lemma kept_new_inode [kept]: "keeps s t \<Longrightarrow> keeps s (snd (lolelffs_new_inode ker t dir mode))"
  unfolding lolelffs_new_inode_def by (intro kept)

lemma wf_ei_update:
  "wf_dev t \<Longrightarrow> wf_ei ((ei_at t k)\<lparr>nr_files := n\<rparr>)" "wf_dev t \<Longrightarrow> wf_ei ((ei_at t k)\<lparr>extents := (extents (ei_at t k))[i := e]\<rparr>)"
  using ei_at_wf [of t k] by (auto simp: wf_ei_def)

lemmas wf_pieces = wf_ei_update ei_at_wf wf_new_extent

lemma wf_dev_steps [simp]:
  "wf_dev (set_sbi t b) \<longleftrightarrow> wf_dev t" "wf_dev (upd_inode t ino f) \<longleftrightarrow> wf_dev t"
  by (simp_all add: wf_dev_def)

lemma kept_drop_extent [kept]: "keeps s t \<Longrightarrow> keeps s (drop_extent t kd ei)"
  unfolding drop_extent_def Let_def by (intro kept) (simp_all add: wf_pieces)

lemma kept_set_entry [kept]: "keeps s t \<Longrightarrow> keeps s (set_entry t k fi ino nm)"
  by (rule keeps_after) (auto simp: keeps_def)

lemma kept_alloc_if [kept]:
  "(\<And>bno b. same_geometry b0 b \<Longrightarrow> keeps s (snd (f bno b))) \<Longrightarrow>
     keeps s (snd (case if c then get_free_blocks b0 n else (0, b0) of (bno, b) \<Rightarrow> f bno b))"
  by (simp add: kept_alloc)

lemma kept_add_entry [kept]: "keeps s t \<Longrightarrow> keeps s (snd (add_entry t kd nm ino))"
  unfolding add_entry_def by (intro kept) (simp_all add: wf_pieces)

lemma kept_create_undo [kept]: "keeps s t \<Longrightarrow> keeps s (create_undo ker t ino)"
  unfolding create_undo_def by (intro kept)

lemma kept_create_commit [kept]: "keeps s t \<Longrightarrow> keeps s (create_commit t dir ino mode)"
  unfolding create_commit_def Let_def by (intro kept)

lemma kept_create [kept]: "keeps s t \<Longrightarrow> keeps s (snd (lolelffs_create ker t dir nm mode))"
  unfolding lolelffs_create_def by (intro kept)

lemma kept_link: "keeps s t \<Longrightarrow> keeps s (snd (lolelffs_link t ino dir nm))"
  unfolding lolelffs_link_def by (intro kept)

lemma kept_symlink: "keeps s t \<Longrightarrow> keeps s (snd (lolelffs_symlink ker t dir nm symname))"
  unfolding lolelffs_symlink_def by (intro kept)

lemma wf_remove_at: "list_all wf_file fl \<Longrightarrow> i < length fl \<Longrightarrow> list_all wf_file (remove_at i fl) \<and> length (remove_at i fl) = length fl"
  by (auto simp: remove_at_def list_all_iff wf_file_def zero_file_def dest: in_set_takeD in_set_dropD)

lemma wf_files: "wf_dev t \<Longrightarrow> length (files (dir_at t k)) = LOLELFFS_FILES_PER_BLOCK \<and> list_all wf_file (files (dir_at t k))"
  using dir_at_wf [of t k] by (simp add: wf_dir_def)

lemma wf_set_files:
  "wf_dev t \<Longrightarrow> length fl = LOLELFFS_FILES_PER_BLOCK \<and> list_all wf_file fl \<Longrightarrow> wf_dir ((dir_at t k)\<lparr>files := fl\<rparr>)"
  using dir_at_wf [of t k] by (simp add: wf_dir_def)

lemma files_per_block_pos: "0 < LOLELFFS_FILES_PER_BLOCK"
  by (simp add: const_values)

lemma kept_pull [kept]: "keeps s t \<Longrightarrow> keeps s (pull t kp k)"
proof -
  have "wf_file (files (dir_at t k) ! 0)" if "wf_dev t"
    using wf_files [OF that, of k] files_per_block_pos by (auto simp: list_all_length)
  then show "keeps s t \<Longrightarrow> keeps s (pull t kp k)"
    unfolding pull_def Let_def
    by (intro kept wf_set_files) (auto simp: wf_files list_all_update wf_remove_at files_per_block_pos)
qed

lemma find_ino_less: "find_ino ino fl = Some fi \<Longrightarrow> fi < length fl"
  by (auto simp: find_ino_def find_Some_iff)

lemma kept_remove_in_extent [kept]: "keeps s t \<Longrightarrow> keeps s (snd (remove_in_extent ino bs prev t))"
proof (induction bs arbitrary: prev t)
  case (Cons b bs)
  show ?case unfolding remove_in_extent.simps
    by (intro kept Cons wf_set_files) (auto simp: wf_files wf_remove_at dest: find_ino_less)
qed simp

lemma kept_remove_in_extents [kept]: "keeps s t \<Longrightarrow> keeps s (snd (remove_in_extents ino es prev t))"
proof (induction es arbitrary: prev t)
  case (Cons e es)
  show ?case unfolding remove_in_extents.simps by (intro kept Cons)
qed simp

lemma kept_remove_from_dir [kept]: "keeps s t \<Longrightarrow> keeps s (snd (lolelffs_remove_from_dir t dir ino))"
  unfolding lolelffs_remove_from_dir_def by (intro kept) (simp_all add: wf_pieces)

lemma kept_scrub [kept]: "keeps s t \<Longrightarrow> keeps s (scrub_blocks bs t)"
  by (induction bs arbitrary: t) (simp_all add: kept)

lemma kept_free_extents [kept]: "keeps s t \<Longrightarrow> keeps s (free_extents es t)"
  by (induction es arbitrary: t) (simp_all add: kept)

lemma kept_xattr_free [kept]: "keeps s t \<Longrightarrow> keeps s (lolelffs_xattr_free_blocks t ino)"
  unfolding lolelffs_xattr_free_blocks_def Let_def set_sbi_def [symmetric] by (intro kept)

lemma kept_clean_inode [kept]: "keeps s t \<Longrightarrow> keeps s (clean_inode t ino bno)"
  unfolding clean_inode_def Let_def by (intro kept)

lemma kept_unlink [kept]: "keeps s t \<Longrightarrow> keeps s (snd (lolelffs_unlink t dir ino))"
  unfolding lolelffs_unlink_def by (intro kept)

lemma kept_rmdir: "keeps s t \<Longrightarrow> keeps s (snd (lolelffs_rmdir t dir ino))"
  unfolding lolelffs_rmdir_def by (intro kept)

lemma kept_rename_insert [kept]: "keeps s t \<Longrightarrow> keeps s (snd (rename_insert t old_dir new_dir new src k fi))"
  unfolding rename_insert_def Let_def by (intro kept)

lemma kept_target [kept]:
  "(\<And>k fi. keeps s (snd (f k fi))) \<Longrightarrow> keeps s (snd ex) \<Longrightarrow> (\<And>k fi. keeps s (snd (g k fi))) \<Longrightarrow>
   (\<And>n. keeps s (snd (h n))) \<Longrightarrow> keeps s (snd un) \<Longrightarrow>
   keeps s (snd (case tg of Same k fi \<Rightarrow> f k fi | Exists \<Rightarrow> ex | Slot k fi \<Rightarrow> g k fi | Full n \<Rightarrow> h n | Unreadable \<Rightarrow> un))"
  by (simp split: target.split)

lemma wf_rename: "wf_dev t \<Longrightarrow> wf_dir ((dir_at t k)\<lparr>files := (files (dir_at t k))[fi := (files (dir_at t k) ! fi)\<lparr>filename := strncpy nm LOLELFFS_FILENAME_LEN\<rparr>]\<rparr>)"
  using dir_at_wf [of t k] by (auto simp: wf_dir_def wf_file_def list_all_update)

lemma kept_rename: "keeps s t \<Longrightarrow> keeps s (snd (lolelffs_rename t old_dir old new_dir new src flags))"
  unfolding lolelffs_rename_def by (intro kept) (simp_all add: wf_rename wf_pieces)

section \<open>Attributes, file data and ioctls\<close>

lemma wf_xei_update:
  "wf_dev t \<Longrightarrow> wf_xei ((xei_at t k)\<lparr>xcount := n\<rparr>)"
  "wf_dev t \<Longrightarrow> wf_xei ((xei_at t k)\<lparr>total_size := m, xcount := n\<rparr>)"
  "wf_dev t \<Longrightarrow> wf_xei ((xei_at t k)\<lparr>xextents := (xextents (xei_at t k))[i := e]\<rparr>)"
  using xei_at_wf [of t k] by (auto simp: wf_xei_def)

lemma kept_read_data [kept]: "keeps s t \<Longrightarrow> keeps s (snd (lolelffs_xattr_read_data t ei))"
  unfolding lolelffs_xattr_read_data_def by (intro kept)

lemma kept_write_xblocks [kept]: "keeps s t \<Longrightarrow> keeps s (snd (write_xblocks t bs data))"
proof (induction bs arbitrary: t data)
  case (Cons b bs)
  show ?case unfolding write_xblocks.simps by (intro kept Cons) simp
qed simp

lemma kept_xattr_get: "keeps s t \<Longrightarrow> keeps s (snd (lolelffs_xattr_get t ino idx name buffer))"
  unfolding lolelffs_xattr_get_def by (intro kept)

lemma kept_listxattr: "keeps s t \<Longrightarrow> keeps s (snd (lolelffs_listxattr t ino buffer))"
  unfolding lolelffs_listxattr_def by (intro kept)

lemma kept_xattr_delete [kept]: "keeps s t \<Longrightarrow> keeps s (snd (xattr_delete t ino idx name))"
  unfolding xattr_delete_def by (intro kept) (simp_all add: wf_xei_update)

lemma kept_xattr_index [kept]: "keeps s t \<Longrightarrow> keeps s (snd (xattr_index t ino))"
  unfolding xattr_index_def by (intro kept)

lemma kept_xattr_room [kept]: "keeps s t \<Longrightarrow> keeps s (snd (xattr_room t k n))"
  unfolding xattr_room_def by (intro kept) (simp_all add: wf_xei_update geometry_put)

lemma kept_bool [kept]:
  "(b \<Longrightarrow> keeps s (snd x)) \<Longrightarrow> (\<not> b \<Longrightarrow> keeps s (snd y)) \<Longrightarrow> keeps s (snd (case b of True \<Rightarrow> x | False \<Rightarrow> y))"
  by (cases b) simp_all

lemma kept_xattr_store [kept]: "keeps s t \<Longrightarrow> keeps s (snd (xattr_store t ino k data))"
  unfolding xattr_store_def by (intro kept) (simp_all add: wf_xei_update)

lemma kept_xattr_put [kept]: "keeps s t \<Longrightarrow> keeps s (snd (xattr_put t ino idx name value flags))"
  unfolding xattr_put_def by (intro kept) (simp_all add: wf_xei_update)

lemma kept_xattr_set: "keeps s t \<Longrightarrow> keeps s (snd (lolelffs_xattr_set t ino idx name value flags))"
  unfolding lolelffs_xattr_set_def by (intro kept)

lemma kept_get_block: "keeps s t \<Longrightarrow> keeps s (snd (lolelffs_file_get_block ino iblock create t))"
  unfolding lolelffs_file_get_block_def by (intro kept) (simp_all add: file_extent_def wf_pieces)

text \<open>The cipher used for pages writes as many bytes as it reads.\<close>

definition xts_keeps_length :: "crypto_lib \<Rightarrow> bool" where
  "xts_keeps_length el \<longleftrightarrow> (\<forall>iv src out. xts_encrypt el iv src = Inr out \<longrightarrow> length out = length src)"

lemma kept_encrypt [kept]:
  "keeps s t \<Longrightarrow> keeps s (snd (lolelffs_encrypt_block el et algo key n src room t))"
  unfolding lolelffs_encrypt_block_def lolelffs_encrypt_aes_xts_def lolelffs_encrypt_chacha20_poly_def by (intro kept)

lemma kept_decrypt [kept]:
  "keeps s t \<Longrightarrow> keeps s (snd (lolelffs_decrypt_block el et algo key n src t))"
  unfolding lolelffs_decrypt_block_def lolelffs_decrypt_aes_xts_def lolelffs_decrypt_chacha20_poly_def by (intro kept)

lemma kept_page_compress [kept]: "keeps s t \<Longrightarrow> keeps s (snd (page_compress cl ct algo page t))"
  unfolding page_compress_def by (intro kept)

lemma kept_page_encrypt [kept]: "keeps s t \<Longrightarrow> keeps s (snd (page_encrypt el et algo iblock buf t))"
  unfolding page_encrypt_def by (intro kept)

lemma kept_page_decrypt [kept]: "keeps s t \<Longrightarrow> keeps s (snd (page_decrypt el et algo iblock buf t))"
  unfolding page_decrypt_def by (intro kept)

lemma page_compress_length:
  "length page = LOLELFFS_BLOCK_SIZE \<Longrightarrow> page_compress cl ct algo page t = (Inr (buf, a, f), u) \<Longrightarrow> length buf = LOLELFFS_BLOCK_SIZE"
  by (auto simp: page_compress_def Let_def size_defs split: if_splits prod.splits sum.splits)

lemma page_encrypt_length:
  "xts_keeps_length el \<Longrightarrow> length buf = LOLELFFS_BLOCK_SIZE \<Longrightarrow> page_encrypt el et algo iblock buf t = (Inr (out, a, f), u)
     \<Longrightarrow> length out = LOLELFFS_BLOCK_SIZE"
  by (auto simp: page_encrypt_def Let_def lolelffs_encrypt_block_def lolelffs_encrypt_aes_xts_def
      lolelffs_encrypt_chacha20_poly_def xts_keeps_length_def CHACHA20_POLY1305_TAG_SIZE_def split: if_splits prod.splits sum.splits)

lemma kept_buffer [kept]:
  fixes x :: "bytes \<times> u8 \<times> u16" and y :: "u8 \<times> u16"
  shows "(\<And>a b. x = (a, b) \<Longrightarrow> keeps s (snd (f a b))) \<Longrightarrow> keeps s (snd (case x of (a, b) \<Rightarrow> f a b))"
    and "(\<And>a b. y = (a, b) \<Longrightarrow> keeps s (snd (g a b))) \<Longrightarrow> keeps s (snd (case y of (a, b) \<Rightarrow> g a b))"
  by (simp_all split: prod.split)

lemma kept_writepage [kept]:
  assumes "xts_keeps_length el" "length page = LOLELFFS_BLOCK_SIZE"
  shows "keeps s t \<Longrightarrow> keeps s (snd (lolelffs_writepage_locked cl ct el et ino iblock page t))"
  unfolding lolelffs_writepage_locked_def
  by (intro kept) (auto simp: wf_tag_extent ei_at_wf intro: page_encrypt_length [OF assms(1)] page_compress_length [OF assms(2)])

lemma kept_read_folio: "keeps s t \<Longrightarrow> keeps s (snd (lolelffs_read_folio cl ct el et ino p t))"
  unfolding lolelffs_read_folio_def by (intro kept)

lemma kept_derive_key [kept]: "keeps s t \<Longrightarrow> keeps s (snd (lolelffs_derive_key el algo pw salt it m p t))"
  unfolding lolelffs_derive_key_def by (intro kept)

lemma kept_master_key [kept]: "keeps s t \<Longrightarrow> keeps s (snd (lolelffs_decrypt_master_key el ek uk t))"
  unfolding lolelffs_decrypt_master_key_def by (intro kept)

lemma geometry_unlock [kept]: "same_geometry b (b\<lparr>enc_master_key_decrypted := k, enc_unlocked := u\<rparr>)"
  by (simp add: same_geometry_def)

lemma kept_ioctl_unlock [kept]: "keeps s t \<Longrightarrow> keeps s (snd (ioctl_unlock el csb arg t))"
  unfolding ioctl_unlock_def set_sbi_def [symmetric] by (intro kept)

lemma kept_ioctl: "keeps s t \<Longrightarrow> keeps s (snd (lolelffs_ioctl el cmd t))"
  unfolding lolelffs_ioctl_def Let_def by (cases cmd; simp only: ioctl_cmd.case; intro kept)

section \<open>The system\<close>

text \<open>
  A call into the file system: an operation of the tables that \<^verbatim>\<open>super.c\<close>, \<^verbatim>\<open>inode.c\<close>, \<^verbatim>\<open>file.c\<close>,
  \<^verbatim>\<open>dir.c\<close> and \<^verbatim>\<open>xattr.c\<close> register with the kernel, with its arguments. \<open>libs\<close> are the parameters
  of the model: the kernel, the compression and the encryption libraries with the tables set up
  when the module is loaded.
\<close>

datatype call =
    Iget u32
  | Write_Inode u32
  | Sync_Fs
  | Lookup u32 bytes
  | Create u32 bytes u16
  | Mkdir u32 bytes u16
  | Link u32 u32 bytes
  | Symlink u32 bytes bytes
  | Unlink u32 u32
  | Rmdir u32 u32
  | Rename u32 bytes u32 bytes u32 u32
  | Xattr_Get xattr_handler u32 bytes "nat option"
  | Xattr_Set xattr_handler u32 bytes "bytes option" u32
  | List_Xattr u32 "nat option"
  | Get_Block u32 u64 bool
  | Read_Page u32 u64
  | Write_Page u32 u64 bytes
  | Ioctl ioctl_cmd

record libs =
  lib_kernel :: kernel
  lib_comp :: comp_lib
  lib_comp_table :: comp_table
  lib_crypto :: crypto_lib
  lib_enc_table :: enc_table

definition outcome :: "(errno + 'a) \<times> fs \<Rightarrow> errno option \<times> fs" where
  "outcome p = (case p of (r, s) \<Rightarrow> (case r of Inl e \<Rightarrow> Some e | Inr _ \<Rightarrow> None, s))"

fun perform :: "libs \<Rightarrow> call \<Rightarrow> fs \<Rightarrow> errno option \<times> fs" where
  "perform l (Iget ino) s = outcome (lolelffs_iget s ino)"
| "perform l (Write_Inode ino) s = outcome (lolelffs_write_inode s ino)"
| "perform l Sync_Fs s = outcome (lolelffs_sync_fs s)"
| "perform l (Lookup dir nm) s = outcome (lolelffs_lookup s dir nm)"
| "perform l (Create dir nm mode) s = outcome (lolelffs_create (lib_kernel l) s dir nm mode)"
| "perform l (Mkdir dir nm mode) s = outcome (lolelffs_mkdir (lib_kernel l) s dir nm mode)"
| "perform l (Link ino dir nm) s = outcome (lolelffs_link s ino dir nm)"
| "perform l (Symlink dir nm symname) s = outcome (lolelffs_symlink (lib_kernel l) s dir nm symname)"
| "perform l (Unlink dir ino) s = outcome (lolelffs_unlink s dir ino)"
| "perform l (Rmdir dir ino) s = outcome (lolelffs_rmdir s dir ino)"
| "perform l (Rename old_dir old new_dir new src flags) s = outcome (lolelffs_rename s old_dir old new_dir new src flags)"
| "perform l (Xattr_Get h ino name buffer) s = outcome (lolelffs_xattr_handler_get h s ino name buffer)"
| "perform l (Xattr_Set h ino name value flags) s = outcome (lolelffs_xattr_handler_set h s ino name value flags)"
| "perform l (List_Xattr ino buffer) s = outcome (lolelffs_listxattr s ino buffer)"
| "perform l (Get_Block ino iblock create) s = outcome (lolelffs_file_get_block ino iblock create s)"
| "perform l (Read_Page ino p) s =
     outcome (lolelffs_read_folio (lib_comp l) (lib_comp_table l) (lib_crypto l) (lib_enc_table l) ino p s)"
| "perform l (Write_Page ino iblock page) s =
     outcome (lolelffs_writepage_locked (lib_comp l) (lib_comp_table l) (lib_crypto l) (lib_enc_table l) ino iblock page s)"
| "perform l (Ioctl cmd) s = outcome (lolelffs_ioctl (lib_crypto l) cmd s)"

text \<open>
  A page is as long as a block. A step is a call whose behaviour is defined, or a step of the
  kernel: time passes, memory gets scarce or plenty, an inode leaves the cache.
\<close>

definition whole_page :: "call \<Rightarrow> bool" where
  "whole_page c = (case c of Write_Page ino iblock page \<Rightarrow> length page = LOLELFFS_BLOCK_SIZE | _ \<Rightarrow> True)"

inductive fs_step :: "libs \<Rightarrow> fs \<Rightarrow> fs \<Rightarrow> bool" for l where
  call: "whole_page c \<Longrightarrow> perform l c s = (r, t) \<Longrightarrow> r \<noteq> Some OOPS \<Longrightarrow> fs_step l s t"
| clock: "fs_step l s (s\<lparr>now := w\<rparr>)"
| memory: "fs_step l s (s\<lparr>mem := ms\<rparr>)"
| evict: "fs_step l s (s\<lparr>icache := (icache s)(ino := None)\<rparr>)"

inductive fs_run :: "libs \<Rightarrow> fs \<Rightarrow> fs \<Rightarrow> bool" for l where
  start: "fs_run l s s"
| step: "fs_run l s t \<Longrightarrow> fs_step l t u \<Longrightarrow> fs_run l s u"

lemma snd_outcome [simp]: "snd (outcome p) = snd p"
  by (simp add: outcome_def split: prod.split)

lemmas kept_calls = kept_iget kept_write_inode kept_sync_fs kept_lookup kept_create kept_link kept_symlink kept_unlink
  kept_rmdir kept_rename kept_xattr_get kept_xattr_set kept_listxattr kept_get_block kept_read_folio kept_writepage kept_ioctl

lemma perform_keeps:
  assumes "xts_keeps_length (lib_crypto l)" "whole_page c"
  shows "keeps s (snd (perform l c s))"
  using assms
  by (cases c) (simp_all add: whole_page_def lolelffs_mkdir_def lolelffs_xattr_handler_get_def
      lolelffs_xattr_handler_set_def kept_calls keeps_refl)

lemma step_keeps: "xts_keeps_length (lib_crypto l) \<Longrightarrow> fs_step l s t \<Longrightarrow> keeps s t"
proof (erule fs_step.cases)
  fix c s' r t'
  assume "xts_keeps_length (lib_crypto l)" "whole_page c" "perform l c s' = (r, t')" "s = s'" "t = t'"
  then show "keeps s t" using perform_keeps [of l c s'] by simp
qed (auto intro: keeps_same)

lemma run_keeps: "fs_run l s t \<Longrightarrow> xts_keeps_length (lib_crypto l) \<Longrightarrow> keeps s t"
  by (induction rule: fs_run.induct) (auto intro: keeps_refl keeps_trans step_keeps)


definition toy_libs :: libs where
  "toy_libs = \<lparr>lib_kernel = \<lparr>init_owner = (\<lambda>i _ m. i\<lparr>vi_mode := m\<rparr>), evicts = (\<lambda>_. True)\<rparr>,
     lib_comp = zero_lib, lib_comp_table = [], lib_crypto = toy_crypto, lib_enc_table = toy_enc_table\<rparr>"


end
