(* ===== verification/Module_Init.thy ===== *)
theory Module_Init
  imports Compress Encrypt
begin

text \<open>
  Loading and unloading the kernel module, \<^verbatim>\<open>src/fs.c\<close>: the compression and encryption tables,
  the inode cache (\<^verbatim>\<open>src/super.c\<close>) and the registration with the kernel, in that order, with the
  clean-up of what was set up before when a step fails. The outcomes of the kernel's functions
  are the fields of \<open>module_env\<close>.
\<close>

record module_state =
  comp_ctxs :: comp_table
  enc_ctxs :: enc_table
  lolelffs_inode_cache :: bool
  registered :: bool

record module_env =
  comp_api :: comp_lib
  lz4_memory :: bool
  zlib_memory :: bool
  crypto_api :: crypto_lib
  kmem_cache_create :: bool
  register_filesystem :: "errno + unit"

definition lolelffs_init_inode_cache :: "module_env \<Rightarrow> module_state \<Rightarrow> (errno + unit) \<times> module_state" where
  "lolelffs_init_inode_cache env m =
     (let m = m\<lparr>lolelffs_inode_cache := kmem_cache_create env\<rparr>
      in if \<not> lolelffs_inode_cache m then (Inl ENOMEM, m) else (Inr (), m))"

definition lolelffs_destroy_inode_cache :: "module_state \<Rightarrow> module_state" where
  "lolelffs_destroy_inode_cache m = m\<lparr>lolelffs_inode_cache := False\<rparr>"

definition cleanup_comp :: "module_state \<Rightarrow> module_state" where
  "cleanup_comp m = m\<lparr>comp_ctxs := lolelffs_comp_exit (comp_ctxs m)\<rparr>"

definition cleanup_enc :: "module_state \<Rightarrow> module_state" where
  "cleanup_enc m = cleanup_comp (m\<lparr>enc_ctxs := lolelffs_enc_exit (enc_ctxs m)\<rparr>)"

definition cleanup_cache :: "module_state \<Rightarrow> module_state" where
  "cleanup_cache m = cleanup_enc (lolelffs_destroy_inode_cache m)"

definition lolelffs_init :: "module_env \<Rightarrow> module_state \<Rightarrow> (errno + unit) \<times> module_state" where
  "lolelffs_init env m =
     (case lolelffs_comp_init (comp_api env) (lz4_memory env) (zlib_memory env) (comp_ctxs m) of
        (Inl e, t) \<Rightarrow> (Inl e, m\<lparr>comp_ctxs := t\<rparr>)
      | (Inr _, t) \<Rightarrow>
          (let m = m\<lparr>comp_ctxs := t\<rparr>
           in case lolelffs_enc_init (crypto_api env) (enc_ctxs m) of
                (Inl e, t) \<Rightarrow> (Inl e, cleanup_comp (m\<lparr>enc_ctxs := t\<rparr>))
              | (Inr _, t) \<Rightarrow>
                  (let m = m\<lparr>enc_ctxs := t\<rparr>
                   in case lolelffs_init_inode_cache env m of
                        (Inl e, m) \<Rightarrow> (Inl e, cleanup_enc m)
                      | (Inr _, m) \<Rightarrow>
                          (case register_filesystem env of
                             Inl e \<Rightarrow> (Inl e, cleanup_cache m)
                           | Inr _ \<Rightarrow> (Inr (), m\<lparr>registered := True\<rparr>)))))"

text \<open>\<open>unregister\<close>: whether \<open>unregister_filesystem\<close> succeeds; the rest is done in any case.\<close>

definition lolelffs_exit :: "bool \<Rightarrow> module_state \<Rightarrow> module_state" where
  "lolelffs_exit unregister m = cleanup_cache (if unregister then m\<lparr>registered := False\<rparr> else m)"

section \<open>All or nothing\<close>

definition released :: "module_state \<Rightarrow> bool" where
  "released m \<longleftrightarrow> comp_ok (comp_ctxs m) \<and> length (enc_ctxs m) = 3 \<and> list_all (\<lambda>c. \<not> workspace c) (comp_ctxs m)
     \<and> list_all (\<lambda>c. \<not> skcipher c \<and> \<not> aead c) (enc_ctxs m) \<and> \<not> lolelffs_inode_cache m \<and> \<not> registered m"

lemma list3: "length t = 3 \<Longrightarrow> \<exists>a b c. t = [a, b, c]"
  by (auto simp: length_Suc_conv numeral_eq_Suc)

lemma released_cases:
  assumes "released m"
  obtains a b c d x y z where "comp_ctxs m = [a, b, c, d]" "enc_ctxs m = [x, y, z]" "\<not> workspace a" "\<not> workspace b" "\<not> workspace c" "\<not> workspace d" "\<not> available a"
    "\<not> skcipher x" "\<not> aead x" "\<not> skcipher y" "\<not> aead y" "\<not> skcipher z" "\<not> aead z" "\<not> lolelffs_inode_cache m" "\<not> registered m"
  using assms list4 [of "comp_ctxs m"] list3 [of "enc_ctxs m"] by (auto simp: released_def comp_ok_def)

lemma enc_init_shape:
  "\<not> skcipher x \<Longrightarrow> \<not> aead x \<Longrightarrow> \<not> aead y \<Longrightarrow> \<not> skcipher z \<Longrightarrow>
   \<exists>y' z'. lolelffs_enc_init lib [x, y, z] = (Inr (), [x, y', z']) \<and> \<not> aead y' \<and> \<not> skcipher z'"
  by (auto simp: lolelffs_enc_init_def Let_def enc_ids numeral_2_eq_2 split: sum.split)

lemma enc_exit_shape:
  assumes "\<not> aead y" "\<not> skcipher z"
  shows "\<exists>y' z'. lolelffs_enc_exit [x, y, z] = [x, y', z'] \<and> \<not> skcipher y' \<and> \<not> aead y' \<and> \<not> skcipher z' \<and> \<not> aead z'"
  using assms by (auto simp: lolelffs_enc_exit_def Let_def enc_ids numeral_2_eq_2)

text \<open>
  C31. Loading the module sets everything up or leaves nothing behind, and unloading a loaded module
  releases everything, so that it can be loaded again.
\<close>

theorem module_all_or_nothing:
  assumes m: "released m" and i: "lolelffs_init env m = (r, m')"
  shows "case r of Inl _ \<Rightarrow> released m'
    | Inr _ \<Rightarrow> registered m' \<and> lolelffs_inode_cache m' \<and> comp_ok (comp_ctxs m') \<and> released (lolelffs_exit True m')"
proof -
  from m obtain a b c d x y z where t: "comp_ctxs m = [a, b, c, d]" "enc_ctxs m = [x, y, z]"
    "\<not> workspace a" "\<not> available a" "\<not> skcipher x" "\<not> aead x" "\<not> aead y" "\<not> skcipher z" "\<not> lolelffs_inode_cache m" "\<not> registered m"
    by (rule released_cases)
  obtain y' z' where e: "lolelffs_enc_init (crypto_api env) [x, y, z] = (Inr (), [x, y', z'])" "\<not> aead y'" "\<not> skcipher z'"
    using enc_init_shape [of x y z] t by blast
  obtain y2 z2 where f: "lolelffs_enc_exit [x, y', z'] = [x, y2, z2]" "\<not> skcipher y2" "\<not> aead y2" "\<not> skcipher z2" "\<not> aead z2"
    using enc_exit_shape [OF e(2,3)] by blast
  obtain rc tc where c: "lolelffs_comp_init (comp_api env) (lz4_memory env) (zlib_memory env) [a, b, c, d] = (rc, tc)" by fastforce
  note c' = comp_init_eq [of "comp_api env" "lz4_memory env" "zlib_memory env" a b c d]
  show ?thesis
  proof (cases rc)
    case (Inl e)
    then have "\<not> lz4_memory env" "\<not> zlib_memory env" using c by (auto simp: lolelffs_comp_init_def Let_def split: if_splits)
    then show ?thesis using i t c c' Inl m by (auto simp: lolelffs_init_def released_def comp_ok_eq)
  next
    case (Inr u)
    define m2 where "m2 = m\<lparr>comp_ctxs := tc, enc_ctxs := [x, y', z'], lolelffs_inode_cache := kmem_cache_create env\<rparr>"
    have tc: "tc = [a, \<lparr>workspace = lz4_memory env, workspace_size = LZ4_MEM_COMPRESS (comp_api env), available = lz4_memory env\<rparr>,
        \<lparr>workspace = zlib_memory env, workspace_size = zlib_deflate_workspacesize (comp_api env), available = zlib_memory env\<rparr>,
        \<lparr>workspace = False, workspace_size = 0, available = False\<rparr>]"
      using c c' by simp
    have eq: "(r, m') = (if \<not> kmem_cache_create env then (Inl ENOMEM, cleanup_enc m2)
        else case register_filesystem env of Inl e \<Rightarrow> (Inl e, cleanup_cache m2) | Inr _ \<Rightarrow> (Inr (), m2\<lparr>registered := True\<rparr>))"
      unfolding i [symmetric] m2_def using t(1,2) c Inr e(1)
      by (simp add: lolelffs_init_def lolelffs_init_inode_cache_def split: sum.split)
    have clean: "released (cleanup_cache (m2\<lparr>registered := False\<rparr>))" "\<not> kmem_cache_create env \<Longrightarrow> released (cleanup_enc m2)"
        "released (cleanup_cache m2)" "comp_ok (comp_ctxs m2)"
      using t f by (simp_all add: m2_def tc cleanup_cache_def cleanup_enc_def cleanup_comp_def lolelffs_destroy_inode_cache_def released_def
          comp_exit_eq comp_release_def comp_ok_eq)
    show ?thesis
    proof (cases "kmem_cache_create env")
      case False
      with eq clean show ?thesis by simp
    next
      case True
      then show ?thesis
        using eq clean by (cases "register_filesystem env") (auto simp: m2_def lolelffs_exit_def)
    qed
  qed
qed

definition unloaded :: module_state where
  "unloaded = \<lparr>comp_ctxs = comp_static, enc_ctxs = enc_static, lolelffs_inode_cache = False, registered = False\<rparr>"

definition demo_module_env :: "errno + unit \<Rightarrow> module_env" where
  "demo_module_env reg = \<lparr>comp_api = toy_lib, lz4_memory = True, zlib_memory = True, crypto_api = toy_crypto,
     kmem_cache_create = True, register_filesystem = reg\<rparr>"

lemma demo_module: "fst (lolelffs_init (demo_module_env reg) unloaded) = reg"
proof -
  obtain tc where "lolelffs_comp_init toy_lib True True comp_static = (Inr (), tc)"
    by (simp add: lolelffs_comp_init_def Let_def)
  then show ?thesis
    by (simp add: lolelffs_init_def demo_module_env_def unloaded_def lolelffs_enc_init_def Let_def
        lolelffs_init_inode_cache_def toy_crypto_def split: sum.split)
qed

theorem module_all_or_nothing_witness:
  "fst (lolelffs_init (demo_module_env (Inl ENOMEM)) unloaded) = Inl ENOMEM
    \<and> released (snd (lolelffs_init (demo_module_env (Inl ENOMEM)) unloaded))
    \<and> registered (snd (lolelffs_init (demo_module_env (Inr ())) unloaded))
    \<and> released (lolelffs_exit True (snd (lolelffs_init (demo_module_env (Inr ())) unloaded)))"
proof -
  have "released unloaded"
    by (simp add: released_def unloaded_def comp_ok_static) (simp add: comp_static_eq zero_comp_ctx_def enc_static_def zero_enc_ctx_def enc_ids list_all_iff)
  note all = module_all_or_nothing [OF this prod.collapse [symmetric], of "demo_module_env reg" for reg, unfolded demo_module]
  from all [of "Inl ENOMEM"] all [of "Inr ()"] show ?thesis by (simp add: demo_module)
qed

end
