(* ===== verification/Read_Superblock.thy ===== *)
theory Read_Superblock
  imports Mkfs
begin

text \<open>
  The example program that displays a superblock,
  \<^verbatim>\<open>examples/03-programmatic/c-examples/read-superblock.c\<close>. It has its own copy of the structure,
  which lacks the field \<open>max_extent_blocks_large\<close>; the theory shows what it displays of a superblock
  that the other programs write.
\<close>

section \<open>The program\<close>

text \<open>The program's structure is packed; its fields have the prefix \<open>rs_\<close> here.\<close>

record rs_sb_info =
  rs_magic :: u32
  rs_nr_blocks :: u32
  rs_nr_inodes :: u32
  rs_nr_istore_blocks :: u32
  rs_nr_ifree_blocks :: u32
  rs_nr_bfree_blocks :: u32
  rs_nr_free_inodes :: u32
  rs_nr_free_blocks :: u32
  rs_version :: u32
  rs_comp_default_algo :: u32
  rs_comp_enabled :: u32
  rs_comp_min_block_size :: u32
  rs_comp_features :: u32
  rs_max_extent_blocks :: u32
  rs_enc_enabled :: u32
  rs_enc_default_algo :: u32
  rs_enc_kdf_algo :: u32
  rs_enc_kdf_iterations :: u32
  rs_enc_kdf_memory :: u32
  rs_enc_kdf_parallelism :: u32
  rs_enc_salt :: bytes
  rs_enc_master_key :: bytes
  rs_enc_features :: u32
  rs_reserved :: bytes

definition rs_sizeof :: nat where "rs_sizeof = 160"

definition dec_rs :: "bytes \<Rightarrow> rs_sb_info" where
  "dec_rs bs = \<lparr>
     rs_magic = get32 0 bs, rs_nr_blocks = get32 4 bs, rs_nr_inodes = get32 8 bs,
     rs_nr_istore_blocks = get32 12 bs, rs_nr_ifree_blocks = get32 16 bs, rs_nr_bfree_blocks = get32 20 bs,
     rs_nr_free_inodes = get32 24 bs, rs_nr_free_blocks = get32 28 bs, rs_version = get32 32 bs,
     rs_comp_default_algo = get32 36 bs, rs_comp_enabled = get32 40 bs,
     rs_comp_min_block_size = get32 44 bs, rs_comp_features = get32 48 bs, rs_max_extent_blocks = get32 52 bs,
     rs_enc_enabled = get32 56 bs, rs_enc_default_algo = get32 60 bs, rs_enc_kdf_algo = get32 64 bs,
     rs_enc_kdf_iterations = get32 68 bs, rs_enc_kdf_memory = get32 72 bs,
     rs_enc_kdf_parallelism = get32 76 bs, rs_enc_salt = bytes_at 80 32 bs,
     rs_enc_master_key = bytes_at 112 32 bs, rs_enc_features = get32 144 bs,
     rs_reserved = bytes_at 148 12 bs\<rparr>"

definition comp_algo_name :: "u32 \<Rightarrow> string" where
  "comp_algo_name algo =
     (if algo = 0 then ''none'' else if algo = 1 then ''lz4'' else if algo = 2 then ''zlib''
      else if algo = 3 then ''zstd'' else ''unknown'')"

definition enc_algo_name :: "u32 \<Rightarrow> string" where
  "enc_algo_name algo =
     (if algo = 0 then ''none'' else if algo = 1 then ''aes256-xts''
      else if algo = 2 then ''chacha20-poly1305'' else ''unknown'')"

definition kdf_algo_name :: "u32 \<Rightarrow> string" where
  "kdf_algo_name algo =
     (if algo = 0 then ''none'' else if algo = 1 then ''argon2id'' else if algo = 2 then ''pbkdf2''
      else ''unknown'')"

text \<open>
  A line of the output is its heading, its label and the values it shows. Numbers that the program
  scales in floating point are kept as the integers they come from: \<open>MB b\<close> is a number of bytes
  shown in megabytes, \<open>Percent a b\<close> the share of \<open>a\<close> in \<open>b\<close>.
\<close>

datatype shown = U32 u32 | U64 u64 | Text string | Hex bytes | MB u64 | Percent u32 u32

type_synonym shown_line = "string \<times> string \<times> shown list"

definition metadata_blocks :: "rs_sb_info \<Rightarrow> u32" where
  "metadata_blocks sb = 1 + rs_nr_istore_blocks sb + rs_nr_ifree_blocks sb + rs_nr_bfree_blocks sb"

definition layout_lines :: "rs_sb_info \<Rightarrow> shown_line list" where
  "layout_lines sb =
     [(''Filesystem Layout'', ''Total blocks'', [U32 (rs_nr_blocks sb), U32 (rs_nr_blocks sb * 4096 div 1024 div 1024)]),
      (''Filesystem Layout'', ''Block size'', [U32 4096]),
      (''Filesystem Layout'', ''Inode store blocks'', [U32 (rs_nr_istore_blocks sb)]),
      (''Filesystem Layout'', ''Inode bitmap blocks'', [U32 (rs_nr_ifree_blocks sb)]),
      (''Filesystem Layout'', ''Block bitmap blocks'', [U32 (rs_nr_bfree_blocks sb)]),
      (''Filesystem Layout'', ''Metadata blocks'', [U32 (metadata_blocks sb)]),
      (''Filesystem Layout'', ''Data blocks'', [U32 (rs_nr_blocks sb - metadata_blocks sb)])]"

definition capacity_lines :: "rs_sb_info \<Rightarrow> shown_line list" where
  "capacity_lines sb =
     (let used_inodes = rs_nr_inodes sb - rs_nr_free_inodes sb;
          used_blocks = rs_nr_blocks sb - rs_nr_free_blocks sb;
          total_size = ucast (rs_nr_blocks sb) * 4096; used_size = ucast used_blocks * 4096;
          free_size = ucast (rs_nr_free_blocks sb) * 4096
      in [(''Capacity'', ''Total inodes'', [U32 (rs_nr_inodes sb)]),
          (''Capacity'', ''Used inodes'', [U32 used_inodes]),
          (''Capacity'', ''Free inodes'', [U32 (rs_nr_free_inodes sb)]),
          (''Capacity'', ''Inode usage'', [Percent used_inodes (rs_nr_inodes sb)]),
          (''Capacity'', ''Total blocks'', [U32 (rs_nr_blocks sb)]),
          (''Capacity'', ''Used blocks'', [U32 used_blocks]),
          (''Capacity'', ''Free blocks'', [U32 (rs_nr_free_blocks sb)]),
          (''Capacity'', ''Block usage'', [Percent used_blocks (rs_nr_blocks sb)]),
          (''Capacity'', ''Total space'', [U64 total_size, MB total_size]),
          (''Capacity'', ''Used space'', [U64 used_size, MB used_size]),
          (''Capacity'', ''Free space'', [U64 free_size, MB free_size])])"

definition compression_lines :: "rs_sb_info \<Rightarrow> shown_line list" where
  "compression_lines sb =
     (if rs_comp_enabled sb \<noteq> 0 then
        [(''Compression'', ''Status'', [Text ''enabled'']),
         (''Compression'', ''Default algorithm'', [Text (comp_algo_name (rs_comp_default_algo sb))]),
         (''Compression'', ''Min block size'', [U32 (rs_comp_min_block_size sb)]),
         (''Compression'', ''Max extent blocks'', [U32 (rs_max_extent_blocks sb)]),
         (''Compression'', ''Features'', [U32 (rs_comp_features sb)])]
      else [(''Compression'', ''Status'', [Text ''disabled''])])"

definition encryption_lines :: "rs_sb_info \<Rightarrow> shown_line list" where
  "encryption_lines sb =
     (if rs_enc_enabled sb \<noteq> 0 then
        [(''Encryption'', ''Status'', [Text ''enabled'']),
         (''Encryption'', ''Algorithm'', [Text (enc_algo_name (rs_enc_default_algo sb))]),
         (''Encryption'', ''KDF'', [Text (kdf_algo_name (rs_enc_kdf_algo sb))]),
         (''Encryption'', ''KDF iterations'', [U32 (rs_enc_kdf_iterations sb)]),
         (''Encryption'', ''KDF memory'', [U32 (rs_enc_kdf_memory sb)]),
         (''Encryption'', ''KDF parallelism'', [U32 (rs_enc_kdf_parallelism sb)]),
         (''Encryption'', ''Salt (hex)'', [Hex (rs_enc_salt sb)]),
         (''Encryption'', ''Master key (enc)'', [Hex (rs_enc_master_key sb)]),
         (''Encryption'', ''Features'', [U32 (rs_enc_features sb)])]
      else [(''Encryption'', ''Status'', [Text ''disabled''])])"

definition summary_lines :: "rs_sb_info \<Rightarrow> shown_line list" where
  "summary_lines sb =
     (let i = rs_nr_istore_blocks sb; f = i + rs_nr_ifree_blocks sb; b = f + rs_nr_bfree_blocks sb
      in [(''Layout Summary'', ''Superblock'', [U32 0]),
          (''Layout Summary'', ''Inode store'', [U32 1, U32 i]),
          (''Layout Summary'', ''Inode bitmap'', [U32 (i + 1), U32 f]),
          (''Layout Summary'', ''Block bitmap'', [U32 (f + 1), U32 b]),
          (''Layout Summary'', ''Data blocks'', [U32 (metadata_blocks sb), U32 (rs_nr_blocks sb - 1)])])"

definition validation_lines :: "rs_sb_info \<Rightarrow> shown_line list" where
  "validation_lines sb =
     [(''Superblock Validation'', ''Magic'', [U32 (rs_magic sb)]),
      (''Superblock Validation'', ''Version'',
        if rs_version sb = 1 then [U32 (rs_version sb)] else [U32 (rs_version sb), U32 1])]"

text \<open>
  The program is given the number of its arguments, the contents of the file (\<open>None\<close>: it cannot be
  opened) and the size \<open>fstat\<close> reports (\<open>None\<close>: it fails). The result is the exit status and what is
  printed to the standard output.
\<close>

definition read_superblock_main :: "nat \<Rightarrow> bytes option \<Rightarrow> u64 option \<Rightarrow> nat \<times> shown_line list" where
  "read_superblock_main nargs file st =
     (if nargs \<noteq> 2 then (1, [])
      else
        (case file of
           None \<Rightarrow> (1, [])
         | Some bs \<Rightarrow>
             (case st of
                None \<Rightarrow> (1, [])
              | Some st_size \<Rightarrow>
                  (let head = [(''lolelffs Superblock Reader'', ''Size'', [U64 st_size, MB st_size])]
                   in if length (take rs_sizeof bs) < rs_sizeof then (1, head)
                      else
                        (let sb = dec_rs (take rs_sizeof bs)
                         in if rs_magic sb \<noteq> LOLELFFS_MAGIC
                            then (1, head @ [(''Superblock Validation'', ''Magic'', [U32 (rs_magic sb), U32 LOLELFFS_MAGIC])])
                            else (0, head @ validation_lines sb @ layout_lines sb @ capacity_lines sb
                                     @ compression_lines sb @ encryption_lines sb @ summary_lines sb))))))"

section \<open>What it displays\<close>

lemma bytes_at_take: "off + n \<le> m \<Longrightarrow> bytes_at off n (take m bs) = bytes_at off n bs"
  by (simp add: bytes_at_def drop_take min_def)

lemma dec_rs_take: "dec_rs (take rs_sizeof bs) = dec_rs bs"
  by (simp add: dec_rs_def rs_sizeof_def bytes_at_take)

text \<open>
  On a superblock in the format of \<^verbatim>\<open>lolelffs.h\<close> the fields up to \<open>max_extent_blocks\<close> are read right;
  every later one is read from the place of the field before it.
\<close>

lemma dec_rs_enc_sb:
  assumes "wf_sb s"
  shows "dec_rs (enc_sb s @ rest) = \<lparr>
     rs_magic = magic s, rs_nr_blocks = nr_blocks s, rs_nr_inodes = nr_inodes s,
     rs_nr_istore_blocks = nr_istore_blocks s, rs_nr_ifree_blocks = nr_ifree_blocks s,
     rs_nr_bfree_blocks = nr_bfree_blocks s, rs_nr_free_inodes = nr_free_inodes s,
     rs_nr_free_blocks = nr_free_blocks s, rs_version = version s,
     rs_comp_default_algo = comp_default_algo s, rs_comp_enabled = comp_enabled s,
     rs_comp_min_block_size = comp_min_block_size s, rs_comp_features = comp_features s,
     rs_max_extent_blocks = max_extent_blocks s,
     rs_enc_enabled = max_extent_blocks_large s, rs_enc_default_algo = enc_enabled s,
     rs_enc_kdf_algo = enc_default_algo s, rs_enc_kdf_iterations = enc_kdf_algo s,
     rs_enc_kdf_memory = enc_kdf_iterations s, rs_enc_kdf_parallelism = enc_kdf_memory s,
     rs_enc_salt = enc32 (enc_kdf_parallelism s) @ take 28 (enc_salt s),
     rs_enc_master_key = drop 28 (enc_salt s) @ take 28 (enc_master_key s),
     rs_enc_features = get32 28 (enc_master_key s),
     rs_reserved = enc32 (enc_features s) @ take 8 (reserved s)\<rparr>"
  using assms unfolding wf_sb_def by (simp add: dec_rs_def enc_sb_def codec_simps)

lemma read_superblock_status:
  "fst (read_superblock_main nargs file st) = 0 \<longleftrightarrow>
     nargs = 2 \<and> st \<noteq> None \<and> (\<exists>bs. file = Some bs \<and> rs_sizeof \<le> length bs \<and> rs_magic (dec_rs bs) = LOLELFFS_MAGIC)"
  by (auto simp: read_superblock_main_def Let_def dec_rs_take split: option.splits)

lemma read_superblock_shows:
  assumes "rs_sizeof \<le> length bs" "rs_magic (dec_rs bs) = LOLELFFS_MAGIC"
  shows "read_superblock_main 2 (Some bs) (Some sz) =
     (0, (''lolelffs Superblock Reader'', ''Size'', [U64 sz, MB sz]) # validation_lines (dec_rs bs) @ layout_lines (dec_rs bs)
       @ capacity_lines (dec_rs bs) @ compression_lines (dec_rs bs) @ encryption_lines (dec_rs bs) @ summary_lines (dec_rs bs))"
  using assms by (simp add: read_superblock_main_def Let_def dec_rs_take)

lemma only_encryption:
  "filter (\<lambda>l. fst l = ''Encryption'')
     ((''lolelffs Superblock Reader'', ''Size'', vs) # validation_lines sb @ layout_lines sb @ capacity_lines sb
       @ compression_lines sb @ encryption_lines sb @ summary_lines sb) = encryption_lines sb"
  by (simp add: validation_lines_def layout_lines_def capacity_lines_def compression_lines_def encryption_lines_def
      summary_lines_def Let_def)

lemma mkfs_info_settings:
  "magic (mkfs_info sz) = LOLELFFS_MAGIC" "nr_blocks (mkfs_info sz) = of_nat (sz div LOLELFFS_BLOCK_SIZE)"
  "max_extent_blocks_large (mkfs_info sz) = LOLELFFS_MAX_BLOCKS_PER_EXTENT_LARGE"
  "enc_enabled (mkfs_info sz) = 0" "enc_default_algo (mkfs_info sz) = 0" "enc_kdf_algo (mkfs_info sz) = 1"
  "enc_kdf_iterations (mkfs_info sz) = 3" "enc_kdf_memory (mkfs_info sz) = 65536" "enc_kdf_parallelism (mkfs_info sz) = 4"
  "enc_salt (mkfs_info sz) = replicate 32 0" "enc_master_key (mkfs_info sz) = replicate 32 0"
  by (simp_all add: mkfs_info_def Let_def LOLELFFS_ENC_NONE_def LOLELFFS_KDF_ARGON2ID_def)

lemma mkfs_first_block:
  assumes "mkfs_main e im = (Some 0, im')" "image_size e = Some sz"
    and "n = sz div LOLELFFS_BLOCK_SIZE" "n + 56 < 2 ^ 32"
    and f: "take LOLELFFS_BLOCK_SIZE file = iblocks im' 0"
  shows "\<exists>rest. file = enc_sb (mkfs_info sz) @ rest"
proof -
  have "0 < mk_used n" by (simp add: mk_used_def)
  with mkfs_image [OF assms(1-4)] have "iblocks im' 0 = enc_super (mkfs_sb sz)" by (auto simp: mkfs_block_def)
  with f have "file = enc_super (mkfs_sb sz) @ drop LOLELFFS_BLOCK_SIZE file" by (metis append_take_drop_id)
  then show ?thesis unfolding enc_super_def mkfs_sb_def by auto
qed

lemma enc_lines:
  "LOLELFFS_MAX_BLOCKS_PER_EXTENT_LARGE \<noteq> 0" "enc32 4 @ replicate 28 0 = 4 # replicate 31 0"
  "replicate 4 0 @ replicate 28 0 = replicate 32 (0 :: u8)" "get32 28 (replicate 32 0) = 0"
proof -
  show "LOLELFFS_MAX_BLOCKS_PER_EXTENT_LARGE \<noteq> 0" by (simp add: LOLELFFS_MAX_BLOCKS_PER_EXTENT_LARGE_def)
  have "enc32 4 = 4 # replicate 3 0" by code_simp
  then show "enc32 4 @ replicate 28 0 = 4 # replicate 31 0" by (simp flip: replicate_add)
  show "replicate 4 0 @ replicate 28 0 = replicate 32 (0 :: u8)" by (simp flip: replicate_add)
  have "bytes_at 28 4 (replicate 32 0) = replicate 4 (0 :: u8)" by (simp add: bytes_at_def)
  moreover have "dec_word (replicate 4 0) = (0 :: u32)" by code_simp
  ultimately show "get32 28 (replicate 32 0) = 0" by simp
qed

text \<open>
  C40. The example program misreads the file systems of this repository: on every image that mkfs
  has made, none of which is encrypted, it ends with success and shows the right number of blocks
  (in megabytes only modulo 4096), but reports that encryption is enabled, and the values it gives
  for it are those of other fields.
\<close>

theorem read_superblock_misreads:
  assumes "mkfs_main e im = (Some 0, im')" "image_size e = Some sz"
    and "n = sz div LOLELFFS_BLOCK_SIZE" "n + 56 < 2 ^ 32"
    and "take LOLELFFS_BLOCK_SIZE file = iblocks im' 0"
  shows "enc_enabled (mkfs_info sz) = 0 \<and> (\<exists>out. read_superblock_main 2 (Some file) (Some st) = (0, out)
    \<and> (''Filesystem Layout'', ''Total blocks'', [U32 (of_nat n), U32 (of_nat (n * 4096 mod 2 ^ 32 div 2 ^ 20))]) \<in> set out
    \<and> (''Capacity'', ''Total blocks'', [U32 (of_nat n)]) \<in> set out
    \<and> filter (\<lambda>l. fst l = ''Encryption'') out =
        [(''Encryption'', ''Status'', [Text ''enabled'']), (''Encryption'', ''Algorithm'', [Text ''none'']),
         (''Encryption'', ''KDF'', [Text ''none'']), (''Encryption'', ''KDF iterations'', [U32 1]),
         (''Encryption'', ''KDF memory'', [U32 3]), (''Encryption'', ''KDF parallelism'', [U32 65536]),
         (''Encryption'', ''Salt (hex)'', [Hex (4 # replicate 31 0)]),
         (''Encryption'', ''Master key (enc)'', [Hex (replicate 32 0)]), (''Encryption'', ''Features'', [U32 0])])"
proof -
  obtain rest where fl: "file = enc_sb (mkfs_info sz) @ rest" using mkfs_first_block [OF assms] by auto
  have wf: "wf_sb (mkfs_info sz)" using wf_mkfs_sb [of sz] by (simp add: wf_super_def mkfs_sb_def)
  note sb = dec_rs_enc_sb [OF wf, of rest, folded fl] and i = mkfs_info_settings [of sz]
  have len: "rs_sizeof \<le> length file" using sbc.length_enc [OF wf] by (simp add: fl rs_sizeof_def sizeof_sb_info_def)
  have m: "rs_magic (dec_rs file) = LOLELFFS_MAGIC" by (simp add: sb i)
  have mb: "(of_nat n :: u32) * 4096 div 1024 div 1024 = of_nat (n * 4096 mod 2 ^ 32 div 2 ^ 20)"
    by (simp add: unat_of_nat word_unat_eq_iff unat_div_distrib unat_word_ariths mod_simps flip: div_mult2_eq)
  have enc: "encryption_lines (dec_rs file) =
        [(''Encryption'', ''Status'', [Text ''enabled'']), (''Encryption'', ''Algorithm'', [Text ''none'']),
         (''Encryption'', ''KDF'', [Text ''none'']), (''Encryption'', ''KDF iterations'', [U32 1]),
         (''Encryption'', ''KDF memory'', [U32 3]), (''Encryption'', ''KDF parallelism'', [U32 65536]),
         (''Encryption'', ''Salt (hex)'', [Hex (4 # replicate 31 0)]),
         (''Encryption'', ''Master key (enc)'', [Hex (replicate 32 0)]), (''Encryption'', ''Features'', [U32 0])]"
    unfolding encryption_lines_def enc_algo_name_def kdf_algo_name_def sb i by (simp add: enc_lines)
  have lay: "(''Filesystem Layout'', ''Total blocks'', [U32 (of_nat n), U32 (of_nat (n * 4096 mod 2 ^ 32 div 2 ^ 20))])
      \<in> set (layout_lines (dec_rs file))"
    unfolding mb [symmetric] layout_lines_def by (simp add: sb i assms(3))
  have cap: "(''Capacity'', ''Total blocks'', [U32 (of_nat n)]) \<in> set (capacity_lines (dec_rs file))"
    by (simp add: sb i assms(3) capacity_lines_def Let_def)
  define out where "out = (''lolelffs Superblock Reader'', ''Size'', [U64 st, MB st]) # validation_lines (dec_rs file)
    @ layout_lines (dec_rs file) @ capacity_lines (dec_rs file) @ compression_lines (dec_rs file)
    @ encryption_lines (dec_rs file) @ summary_lines (dec_rs file)"
  then have fil: "filter (\<lambda>l. fst l = ''Encryption'') out = encryption_lines (dec_rs file)" by (simp only: only_encryption)
  have sub: "set (layout_lines (dec_rs file)) \<subseteq> set out" "set (capacity_lines (dec_rs file)) \<subseteq> set out" by (auto simp: out_def)
  note run = read_superblock_shows [OF len m, of st, folded out_def]
  show ?thesis
    by (intro conjI exI [of _ out] i(4) run subsetD [OF sub(1) lay] subsetD [OF sub(2) cap] trans [OF fil enc])
qed

theorem read_superblock_misreads_witness:
  "\<exists>out. read_superblock_main 2 (Some (iblocks (snd (mkfs_main (demo_env 1048576) demo_image)) 0)) (Some 1048576) = (0, out)
    \<and> (''Filesystem Layout'', ''Total blocks'', [U32 256, U32 1]) \<in> set out
    \<and> (''Encryption'', ''Status'', [Text ''enabled'']) \<in> set out"
proof -
  let ?b = "iblocks (snd (mkfs_main (demo_env 1048576) demo_image)) 0"
  have "length ?b = LOLELFFS_BLOCK_SIZE"
    using mkfs_image [OF fresh_main demo_image_size(1) refl] suc.length_enc [OF wf_mkfs_sb, of 1048576]
    by (auto simp: size_defs mk_used_def mkfs_block_def)
  then have "take LOLELFFS_BLOCK_SIZE ?b = ?b" by simp
  from read_superblock_misreads [OF fresh_main demo_image_size(1) refl _ this, of 1048576]
  obtain out where out: "read_superblock_main 2 (Some ?b) (Some 1048576) = (0, out)"
    "(''Filesystem Layout'', ''Total blocks'', [U32 256, U32 1]) \<in> set out"
    and "hd (filter (\<lambda>l. fst l = ''Encryption'') out) = (''Encryption'', ''Status'', [Text ''enabled''])"
    "filter (\<lambda>l. fst l = ''Encryption'') out \<noteq> []"
    by (auto simp: size_defs)
  then have "(''Encryption'', ''Status'', [Text ''enabled'']) \<in> set out" by (metis filter_is_subset hd_in_set subsetD)
  with out show ?thesis by auto
qed

end
