(* ===== verification/Spec2Isabelle.thy ===== *)
theory Spec2Isabelle
  imports Fsck Unlock Namei_Remove Calls Module_Init Read_Superblock
begin

text \<open>
  A verification of lolelffs, a Linux file system that lives on a block device or in a section of
  an ELF file, with the programs that make, check, unlock and display it.

  \<^bold>\<open>The program.\<close> A file system is a sequence of 4096-byte blocks: the superblock, the inode store,
  a bitmap of free inodes, a bitmap of free blocks, and the data blocks. Every file and directory
  has an index block with up to 170 extents. \<^verbatim>\<open>mkfs.c\<close> writes an empty file system;
  \<^verbatim>\<open>fsck.lolelffs.c\<close> checks one; the kernel module mounts one (\<^verbatim>\<open>super.c\<close>, with \<^verbatim>\<open>elf.h\<close> to find
  it inside an ELF file), keeps the bitmaps in memory (\<^verbatim>\<open>bitmap.h\<close>), serves names (\<^verbatim>\<open>inode.c\<close>),
  listings and ioctls (\<^verbatim>\<open>dir.c\<close>), file contents (\<^verbatim>\<open>file.c\<close>, with \<^verbatim>\<open>extent.c\<close>, \<^verbatim>\<open>compress.c\<close> and
  \<^verbatim>\<open>encrypt.c\<close>) and extended attributes (\<^verbatim>\<open>xattr.c\<close>); \<^verbatim>\<open>unlock_lolelffs.c\<close> sends a password to
  the module. All paths are below \<^verbatim>\<open>src/src/\<close>.

  \<^bold>\<open>How it is modelled.\<close> C structures are records; each has a lossless codec to its bytes, and a cast
  of a buffer is a decoding, a store to a field an encoding of the changed record (locale \<open>codec\<close>
  in \<open>Prelude\<close>, interpreted for every structure). Integers keep their width. The mounted file system
  is the record \<open>fs\<close> (\<open>Vfs\<close>): the buffers by sector, which sectors can be read, the superblock in
  memory with the two bitmaps, the inode cache, and the outcomes of the coming memory allocations.
  A function of the module takes that state and gives \<open>(errno + result) \<times> fs\<close>; every early
  return is a branch, and undefined behaviour (a null pointer, an index out of range, a buffer
  overrun) is the error \<open>OOPS\<close>. Functions of the kernel and of libraries are parameters: the fields
  of \<open>kernel\<close>, \<open>comp_lib\<close>, \<open>crypto_lib\<close>, \<open>module_env\<close>, and function arguments; what is relied on of
  them are named hypotheses (for instance \<open>zlib_stream\<close>, \<open>cipher_inverse\<close>, \<open>keeps_index\<close>,
  \<open>xts_keeps_length\<close>).

  \<^bold>\<open>The theories.\<close>
  \<^item> \<open>Prelude\<close>: words, bytes, the string functions of C, error numbers, the locale \<open>codec\<close>.
  \<^item> \<open>Ondisk\<close>: constants and structures of \<^verbatim>\<open>lolelffs.h\<close>.
  \<^item> \<open>Bitmap\<close>: \<^verbatim>\<open>bitmap.h\<close>. The allocator takes exactly the lowest free run, fails only when there
    is none, and keeps counter and bitmap in agreement over any history; the locale \<open>allocator\<close> is
    the contract, interpreted for blocks (\<open>ba\<close>) and inodes (\<open>ia\<close>).
  \<^item> \<open>Extent\<close>: \<^verbatim>\<open>extent.c\<close>. Binary search, search with a hint and validation agree with linear
    specifications.
  \<^item> \<open>Vfs\<close>: the state, \<open>lolelffs_iget\<close> and \<open>lolelffs_write_inode\<close>, inverse to each other.
  \<^item> \<open>Elf\<close>: \<^verbatim>\<open>elf.h\<close>. Both searches for the section find the first one of that name and agree.
  \<^item> \<open>Super\<close>: \<^verbatim>\<open>super.c\<close>. Syncing and mounting again restores the state; syncing changes nothing else.
  \<^item> \<open>Xattr\<close>, \<open>Xattr_Ops\<close>, \<open>Xattr_Map\<close>: \<^verbatim>\<open>xattr.c\<close>. The attribute operations refine lookup, update
    and deletion in a list of attributes.
  \<^item> \<open>Namei\<close>: \<^verbatim>\<open>inode.c\<close>. \<open>Namei_Alloc\<close> accounts for the blocks and inodes the operations take and
    give back, on success and on failure; \<open>Namei_Dir\<close> relates a directory to its list of names, to
    which creating appends; in \<open>Namei_Remove\<close> removing deletes from it, and linking and unlinking are
    inverse.
  \<^item> \<open>Dir\<close>, \<open>Unlock\<close>: \<^verbatim>\<open>dir.c\<close> and \<^verbatim>\<open>unlock_lolelffs.c\<close>. A listing ends and gives every entry once;
    unlocking accepts every password.
  \<^item> \<open>Compress\<close>, \<open>Encrypt\<close>: \<^verbatim>\<open>compress.c\<close>, \<^verbatim>\<open>encrypt.c\<close>. Round trips, safety of the tables, the key
    derivation is PBKDF2, and the ciphers never get a key.
  \<^item> \<open>File\<close>, \<open>File_Map\<close>, \<open>File_Data\<close>: \<^verbatim>\<open>file.c\<close>. Mapping a block refines a list of blocks, a failed
    write gives back what it took, a page written is read again.
  \<^item> \<open>Mkfs\<close>, \<open>Fsck\<close>, \<open>Read_Superblock\<close>: the programs \<^verbatim>\<open>mkfs.c\<close>, \<^verbatim>\<open>fsck.lolelffs.c\<close> and the example
    \<^verbatim>\<open>read-superblock.c\<close>. When mkfs succeeds, that fsck accepts its images, what a clean fsck
    guarantees to a mount, and what the example misreads.
  \<^item> \<open>Module_Init\<close>: \<^verbatim>\<open>fs.c\<close>. Loading the module is all or nothing.
  \<^item> \<open>Calls\<close>: the operations as one transition system (\<open>fs_step\<close>, \<open>fs_run\<close>); its state stays
    well-typed over every run.
  \<^item> This theory: from mkfs over mounting to creating and finding a file.

  \<^bold>\<open>Bounds.\<close> No definition uses fuel: the loops are structural or have a measure. Where the code's
  arithmetic needs it, the theorems assume sizes: \<open>mounted\<close> has fewer than \<open>2 ^ 19\<close> blocks per bitmap
  and \<open>2 ^ 30\<close> inode store blocks, which is more than 32-bit block numbers can need for the bitmaps;
  images have fewer than \<open>2 ^ 32 - 56\<close> blocks, so that rounding up the number of inodes does not wrap;
  directories have at most 120 entries, the ones their single extent of eight blocks holds, because
  the code writes entry 121 outside of it. Theorems of the kind \<open>error\<close> state where the code does
  something else than it means to.

  \<^bold>\<open>Not modelled.\<close> The Rust tools and the FUSE driver, which implement the format a second time behind
  their own command lines; the unit tests, shell scripts and the small programs that show how to
  embed an image. Of the module: locks (every operation runs alone), reference counts of buffers
  and inodes, \<open>put_super\<close>, \<open>alloc_inode\<close>, \<open>destroy_inode\<close> and the mount entry points of \<^verbatim>\<open>fs.c\<close>,
  which only move memory or control to the kernel; the zstd branch, which is not compiled. Of the
  programs: what they print, except for the example, and \<open>check_elf_file\<close> of mkfs, which only prints.
\<close>

section \<open>From mkfs to a mounted file system\<close>

text \<open>
  \<open>unmounted t im n\<close>: a device whose first \<open>n\<close> blocks can be read and which holds the image, with
  nothing cached. \<open>opens bdev t\<close>: opening the device as a file fails, or reading its beginning
  gives the beginning of its first block. \<open>keeps_index own\<close>: what is relied on of
  \<open>inode_init_owner\<close>, that it does not change the file system's own fields of an inode.
\<close>

definition unmounted :: "fs \<Rightarrow> image \<Rightarrow> nat \<Rightarrow> bool" where
  "unmounted t im n \<longleftrightarrow> blocks t = iblocks im \<and> (\<forall>k < n. readable t k) \<and> mem t = [] \<and> icache t 0 = None"

definition opens :: "(u64 \<Rightarrow> nat \<Rightarrow> bytes) option \<Rightarrow> fs \<Rightarrow> bool" where
  "opens bdev t \<longleftrightarrow> (\<forall>kread. bdev = Some kread \<longrightarrow> kread 0 sizeof_Ehdr = take sizeof_Ehdr (blocks t 0))"

definition keeps_index :: "owner \<Rightarrow> bool" where
  "keeps_index own \<longleftrightarrow> (\<forall>i p m. ci_ei_block (own i p m) = ci_ei_block i)"

definition whole_blocks :: "image \<Rightarrow> bool" where
  "whole_blocks im \<longleftrightarrow> (\<forall>k. length (iblocks im k) = LOLELFFS_BLOCK_SIZE)"

text \<open>The numbers of a fresh file system, and the mount up to the root inode.\<close>

lemma mkfs_sbi_geometry:
  "nr_istore_blocks (mkfs_sbi sz n) = nr_istore_blocks (mkfs_info sz)" "nr_ifree_blocks (mkfs_sbi sz n) = nr_ifree_blocks (mkfs_info sz)"
  "nr_bfree_blocks (mkfs_sbi sz n) = nr_bfree_blocks (mkfs_info sz)" "fs_offset (mkfs_sbi sz n) = 0"
  "nr_blocks (mkfs_sbi sz n) = nr_blocks (mkfs_info sz)" "nr_inodes (mkfs_sbi sz n) = nr_inodes (mkfs_info sz)"
  "length (ifree_bitmap (mkfs_sbi sz n)) = mk_ifree n * BITS_PER_BLOCK" "length (bfree_bitmap (mkfs_sbi sz n)) = mk_bfree n * BITS_PER_BLOCK"
  by (simp_all add: mkfs_sbi_def sbi_of_disk_def)

lemma mkfs_first_data:
  assumes "n = sz div LOLELFFS_BLOCK_SIZE" "100 \<le> n" "n + 56 < 2 ^ 32" "sbi s = mkfs_sbi sz n"
  shows "first_data s = mk_used n - 1"
  using assms(4) mkfs_info_nat [OF assms(1-3)]
  by (simp add: first_data_def first_bfree_def first_ifree_def mkfs_sbi_geometry mk_used_def)

lemma mkfs_used:
  assumes "n = sz div LOLELFFS_BLOCK_SIZE" "100 \<le> n" "n + 56 < 2 ^ 32" "used_lines (used_word (mkfs_sb sz)) [] = Some ls"
  shows "mk_used n \<le> 32768"
  using used_small [OF assms(4)] used_word_nat [OF assms(1-3)] by (simp add: BITS_PER_BLOCK_def size_defs)

lemma mkfs_fill:
  assumes n: "n = sz div LOLELFFS_BLOCK_SIZE" "100 \<le> n" "n + 56 < 2 ^ 32"
    and ls: "used_lines (used_word (mkfs_sb sz)) [] = Some ls" and bl: "\<And>k. k < mk_used n \<Longrightarrow> blocks t k = mkfs_block (mkfs_sb sz) n ls k"
    and t: "\<And>k. k < n \<Longrightarrow> readable t k" "mem t = []" "icache t 0 = None" and bdev: "opens bdev t"
  obtains t' where "lolelffs_fill_super own bdev heap t = (Inr (), t')" "mounted t'" "sbi t' = mkfs_sbi sz n"
    "blocks t' = blocks t" "readable t' = readable t" "mem t' = []"
    "icache t' 0 = Some (own (vinode_of_disk (t\<lparr>sbi := mkfs_sbi sz n\<rparr>) (disk_inode (t\<lparr>sbi := mkfs_sbi sz n\<rparr>) 0)) None
       (ucast (i_mode (disk_inode (t\<lparr>sbi := mkfs_sbi sz n\<rparr>) 0))))"
proof -
  let ?s = "t\<lparr>sbi := mkfs_sbi sz n\<rparr>"
  note b = mk_bounds [OF n(2)] and f = mkfs_info_nat [OF n] and g = mkfs_sbi_geometry [of sz n] and u = mkfs_used [OF n ls]
  have ld: "loaded_sbi t 0 = mkfs_sbi sz n" "info (dec_super (blocks t 0)) = mkfs_info sz" using mkfs_loaded [OF n ls, of t] bl by simp_all
  have m: "mounted ?s"
    using b u t(1) by (simp add: mounted_def g f mkfs_first_data [OF n] word_less_nat_alt) (simp add: mk_used_def)
  have "mount_offset bdev heap = 0"
  proof (rule mkfs_not_elf)
    show "blocks t 0 = enc_super (mkfs_sb sz)" by (simp add: bl mk_used_def mkfs_block_def)
  qed (use bdev in \<open>simp add: opens_def\<close>)
  note fill = fill_super_ok [of t bdev heap 0 own, unfolded ld, OF t(2) this f(8) m]
  have "mem ?s = []" "icache ?s 0 = None" "0 < nr_inodes (sbi ?s)" "readable ?s (fs_offset (sbi ?s) + 1)"
    using t n(2) b(5) by (simp_all add: g f word_less_nat_alt)
  then obtain t' where t': "mount_root own ?s = (Inr (), t')" "sbi t' = mkfs_sbi sz n" "blocks t' = blocks t" "readable t' = readable t"
    "icache t' 0 = Some (own (vinode_of_disk ?s (disk_inode ?s 0)) None (ucast (i_mode (disk_inode ?s 0))))" "mem t' = []"
    using mount_root_ok [of ?s own] by auto
  moreover have "mounted t'" by (rule mounted_cong [OF m]) (simp_all add: t')
  ultimately show thesis using that fill by simp
qed

lemma mkfs_mount:
  assumes main: "mkfs_main e im = (Some 0, im')" and sz: "image_size e = Some sz"
    and n: "n = sz div LOLELFFS_BLOCK_SIZE" "n + 56 < 2 ^ 32" and im: "whole_blocks im"
    and dev: "unmounted t im' n" and bdev: "opens bdev t" and own: "keeps_index own"
  shows "\<exists>t'. lolelffs_fill_super own bdev heap t = (Inr (), t') \<and> fs_ok t' \<and> dir_ok t' 0
    \<and> names t' (dir_kd t' 0) = [] \<and> nr_entries t' 0 = 0 \<and> mem t' = []
    \<and> free_blocks (sbi t') = {mk_used n..<n} \<and> free_inodes (sbi t') = {1..<mk_inodes n}"
proof -
  have t: "blocks t = iblocks im'" "\<And>k. k < n \<Longrightarrow> readable t k" "mem t = []" "icache t 0 = None"
    using dev by (simp_all add: unmounted_def)
  obtain ls where h: "100 \<le> n" and ls: "used_lines (used_word (mkfs_sb sz)) [] = Some ls"
    and bl: "\<And>k. blocks t k = (if k < mk_used n then mkfs_block (mkfs_sb sz) n ls k else iblocks im k)"
    using mkfs_image [OF main sz n] t(1) by auto
  note n' = n(1) h n(2)
  note b = mk_bounds [OF h] and f = mkfs_info_nat [OF n'] and fr = mkfs_sbi_free [OF n'] and u = mkfs_used [OF n' ls]
    and g = mkfs_sbi_geometry [of sz n]
  let ?s = "t\<lparr>sbi := mkfs_sbi sz n\<rparr>"
  obtain t' where t': "lolelffs_fill_super own bdev heap t = (Inr (), t')" "mounted t'" "sbi t' = mkfs_sbi sz n"
    "blocks t' = blocks t" "readable t' = readable t" "mem t' = []"
    "icache t' 0 = Some (own (vinode_of_disk ?s (disk_inode ?s 0)) None (ucast (i_mode (disk_inode ?s 0))))"
    by (rule mkfs_fill [OF n' ls _ t(2-4) bdev]) (simp_all add: bl)
  have "blocks ?s 1 = first_istore (mkfs_sb sz)" using bl [of 1] b by (simp add: mk_used_def mkfs_block_def)
  then have r: "disk_inode ?s 0 = mkfs_root (mkfs_sb sz)" by (rule mkfs_root_of) (simp add: g)
  have "S_ISDIR (ucast (0x41FD :: u32))" by code_simp
  then have ei: "ci_ei_block (inode_of t' 0) = 1 + nr_bfree_blocks (mkfs_info sz) + nr_ifree_blocks (mkfs_info sz) + nr_istore_blocks (mkfs_info sz)"
    using t'(7) own by (simp add: keeps_index_def inode_of_def r vinode_of_disk_def Let_def mkfs_root_def) (simp add: mkfs_sb_def)
  have uei: "unat (ci_ei_block (inode_of t' 0)) = mk_used n - 1" using u by (simp add: ei unat_add_u32 f mk_used_def)
  have kd: "dir_kd t' 0 = mk_used n - 1" by (simp add: dir_kd_def sector_def uei t'(3) g)
  have "blocks t' (mk_used n - 1) = zero_block" using bl [of "mk_used n - 1"] by (simp add: t'(4) mk_used_def mkfs_block_def)
  then have z: "ei_at t' (dir_kd t' 0) = zero_ei" unfolding kd by (simp add: ei_at_def dec_zero_ei)
  have sm: "small_dir t' (dir_kd t' 0)" by (simp add: small_dir_def z zero_ei_def max_extents zero_extent_def)
  note fd = mkfs_first_data [OF n' t'(3)]
  have "wf_dev t'" using length_mkfs_block [OF ls wf_mkfs_sb] im by (simp add: wf_dev_def whole_blocks_def t'(4) bl)
  then have "fs_ok t'" using fr b t(2) t'(2) by (auto simp: fs_ok_def sbi_inv_def t' fd g f inodes_per_block mk_inodes_def)
  moreover have "dir_ok t' 0"
    using sm fr t(2) b u kd by (auto simp: dir_ok_def Let_def dir_kd_def [symmetric] uei t' fd mk_used_def)
  moreover have "names t' (dir_kd t' 0) = []" "nr_entries t' 0 = 0" by (simp_all add: names_def nr_entries_def z zero_ei_def)
  ultimately show ?thesis using t' fr by auto
qed

text \<open>
  C5. What mkfs makes can be mounted: after a successful run on an image, mounting it (raw, or
  through a device whose first bytes are the image's) succeeds and gives a consistent file
  system with an empty root directory, in which exactly the blocks behind the metadata and the
  root index block and all inodes but the root's are free. \<open>inode_init_owner\<close> is assumed to
  leave the index block number of the inode alone.
\<close>

theorem mkfs_then_mount:
  assumes "mkfs_main e im = (Some 0, im')" "image_size e = Some sz"
    and "n = sz div LOLELFFS_BLOCK_SIZE" "n + 56 < 2 ^ 32" "whole_blocks im"
    and "unmounted t im' n" "opens bdev t" "keeps_index own"
  shows "\<exists>t'. lolelffs_fill_super own bdev heap t = (Inr (), t') \<and> fs_ok t' \<and> dir_ok t' 0
    \<and> names t' (dir_kd t' 0) = []
    \<and> free_blocks (sbi t') = {mk_used n..<n} \<and> free_inodes (sbi t') = {1..<mk_inodes n}"
  using mkfs_mount [OF assms, where heap = heap] by blast

definition demo_owner :: owner where
  "demo_owner i p m = i\<lparr>vi_uid := 0, vi_gid := 0, vi_mode := m\<rparr>"

lemma demo_assumptions: "whole_blocks demo_image" "keeps_index demo_owner" "opens None t"
  by (simp_all add: whole_blocks_def demo_image_def keeps_index_def demo_owner_def opens_def)

definition fresh_fs :: fs where
  "fresh_fs = tiny_fs\<lparr>blocks := iblocks (snd (mkfs_main (demo_env 1048576) demo_image)), icache := (\<lambda>_. None)\<rparr>"

lemma fresh_unmounted: "unmounted fresh_fs (snd (mkfs_main (demo_env 1048576) demo_image)) 256"
  by (simp add: unmounted_def fresh_fs_def tiny_fs_def)

theorem mkfs_then_mount_witness:
  "\<exists>t'. lolelffs_fill_super demo_owner None [] fresh_fs = (Inr (), t') \<and> fs_ok t' \<and> dir_ok t' 0
    \<and> free_blocks (sbi t') = {9..<256} \<and> free_inodes (sbi t') = {1..<280}"
proof -
  have n: "(256::nat) = 1048576 div LOLELFFS_BLOCK_SIZE" "(256::nat) + 56 < 2 ^ 32" by (simp_all add: size_defs)
  have "mk_used 256 = 9" "mk_inodes 256 = 280" by (simp_all add: mk_defs)
  with mkfs_then_mount [OF fresh_main demo_image_size(1) n demo_assumptions(1) fresh_unmounted demo_assumptions(3,2), of "[]"]
  show ?thesis by auto
qed

text \<open>
  C6. From mkfs to a file: on the image mkfs has made, mounting, creating a file or directory in
  the root directory and looking its name up gives the inode the creation returned; no step fails.
\<close>

theorem mkfs_mount_create_lookup:
  assumes "mkfs_main e im = (Some 0, im')" "image_size e = Some sz"
    and "n = sz div LOLELFFS_BLOCK_SIZE" "n + 56 < 2 ^ 32" "whole_blocks im"
    and "unmounted t im' n" "opens bdev t" "keeps_index (init_owner ker)"
    and nm: "is_cstr nm" "length nm \<le> LOLELFFS_FILENAME_LEN" and mode: "S_ISDIR mode \<or> S_ISREG mode"
  shows "\<exists>t' ino s'. lolelffs_fill_super (init_owner ker) bdev heap t = (Inr (), t')
    \<and> lolelffs_create ker t' 0 nm mode = (Inr ino, s') \<and> fst (lolelffs_lookup s' 0 nm) = Inr (Some ino)"
proof -
  obtain t' where t': "lolelffs_fill_super (init_owner ker) bdev heap t = (Inr (), t')" "fs_ok t'" "dir_ok t' 0"
      "names t' (dir_kd t' 0) = []" "nr_entries t' 0 = 0" "mem t' = []"
      "free_blocks (sbi t') = {mk_used n..<n}" "free_inodes (sbi t') = {1..<mk_inodes n}"
    using mkfs_mount [OF assms(1-8), where heap = heap] by blast
  have h: "100 \<le> n" using mkfs_image [OF assms(1-4)] by simp
  have fr: "free_inodes (sbi t') \<noteq> {}" "{mk_used n ..< mk_used n + 9} \<subseteq> free_blocks (sbi t')"
    using t'(7,8) mk_used_room [OF h] mk_bounds(5) [OF h] h by auto
  have "nr_entries t' 0 < 120" using t'(5) by simp
  then obtain ino s' where c: "lolelffs_create ker t' 0 nm mode = (Inr ino, s')"
    using create_succeeds_step [OF t'(2,6,3) _ fr mode nm(2)] by metis
  have "\<not> S_ISLNK mode" using mode S_IS_exclusive by blast
  then have "fst (lolelffs_lookup s' 0 nm) = Inr (Some ino)"
    using create_lookup [OF t'(2,3) _ nm(1) _ _ c] t'(4,5) by simp
  with t'(1) c show ?thesis by blast
qed

theorem mkfs_mount_create_lookup_witness:
  "\<exists>t' ino s'. lolelffs_fill_super demo_owner None [] fresh_fs = (Inr (), t')
    \<and> lolelffs_create \<lparr>init_owner = demo_owner, evicts = (\<lambda>_. True)\<rparr> t' 0 [97] 0x81A4 = (Inr ino, s')
    \<and> fst (lolelffs_lookup s' 0 [97]) = Inr (Some ino)"
proof -
  have n: "(256::nat) = 1048576 div LOLELFFS_BLOCK_SIZE" "(256::nat) + 56 < 2 ^ 32" by (simp_all add: size_defs)
  have m: "S_ISDIR 0x81A4 \<or> S_ISREG 0x81A4" by code_simp
  have k: "keeps_index (init_owner \<lparr>init_owner = demo_owner, evicts = (\<lambda>_. True)\<rparr>)" using demo_assumptions(2) by simp
  have nm: "is_cstr [97]" "length [97] \<le> LOLELFFS_FILENAME_LEN" by (simp_all add: is_cstr_def size_defs)
  from mkfs_mount_create_lookup [OF fresh_main demo_image_size(1) n demo_assumptions(1) fresh_unmounted demo_assumptions(3) k nm m, of "[]"]
  show ?thesis by simp
qed

end
